(* ===== verification/Rbs_Prelude.thy ===== *)
theory Rbs_Prelude
  imports Main "HOL-Library.Word" "HOL-Library.Multiset" "HOL-Library.Sublist" "HOL-Library.Char_ord" "HOL-Library.List_Lexorder"
begin

text \<open>
  Shared vocabulary of the development.

  \<^item> Rust's integer types: \<open>u8\<close>, \<open>u32\<close> and \<open>u64\<close> are machine words (arithmetic wraps),
    \<open>usize\<close> counts of in-memory elements are \<open>nat\<close>, \<open>i32\<close> and \<open>i64\<close> are \<open>int\<close>.
  \<^item> \<open>Result<T, E>\<close> is the sum \<open>'e + 't\<close> with the abbreviations \<open>Err\<close> and \<open>Ok\<close>; the
    operator \<open>?\<close> is \<open>and_then\<close>.
  \<^item> Text is a \<open>string\<close>. The model's texts are ASCII: on those Rust's byte-based and
    char-based string functions agree, and its whitespace is the six ASCII characters below.
  \<^item> The string functions of the Rust standard library the program calls, each written as
    its documentation states it, with the lemmas the components share.
\<close>

section \<open>Types\<close>

type_synonym u8 = "8 word"
type_synonym u32 = "32 word"
type_synonym u64 = "64 word"
type_synonym i32 = int
type_synonym i64 = int
type_synonym usize = nat
type_synonym ('t, 'e) result = "'e + 't"
type_synonym path = string

abbreviation Ok :: "'t \<Rightarrow> ('t, 'e) result" where "Ok \<equiv> Inr"
abbreviation Err :: "'e \<Rightarrow> ('t, 'e) result" where "Err \<equiv> Inl"

named_theorems rust_str \<open>equations of the string functions of the Rust standard library\<close>
named_theorems step_inv \<open>one preservation lemma per step of a state machine\<close>

fun and_then :: "('a, 'e) result \<Rightarrow> ('a \<Rightarrow> ('b, 'e) result) \<Rightarrow> ('b, 'e) result" where
  "and_then (Inl e) f = Err e"
| "and_then (Inr x) f = f x"

fun map_err :: "('e \<Rightarrow> 'f) \<Rightarrow> ('a, 'e) result \<Rightarrow> ('a, 'f) result" where
  "map_err f (Inl e) = Err (f e)"
| "map_err f (Inr x) = Ok x"

fun ok_or :: "'e \<Rightarrow> 'a option \<Rightarrow> ('a, 'e) result" where
  "ok_or e None = Err e"
| "ok_or e (Some x) = Ok x"

fun is_ok :: "('a, 'e) result \<Rightarrow> bool" where
  "is_ok (Inl e) = False"
| "is_ok (Inr x) = True"

fun result_ok :: "('a, 'e) result \<Rightarrow> 'a option" where
  "result_ok (Inl e) = None"
| "result_ok (Inr x) = Some x"

fun unwrap_or :: "'a \<Rightarrow> 'a option \<Rightarrow> 'a" where
  "unwrap_or d None = d"
| "unwrap_or d (Some x) = x"

fun option_filter :: "('a \<Rightarrow> bool) \<Rightarrow> 'a option \<Rightarrow> 'a option" where
  "option_filter P None = None"
| "option_filter P (Some x) = (if P x then Some x else None)"

lemma and_then_Ok [simp]: "and_then r f = Inr y \<longleftrightarrow> (\<exists>x. r = Inr x \<and> f x = Inr y)"
  by (cases r) auto

lemma ok_or_Ok [simp]: "ok_or e x = Inr y \<longleftrightarrow> x = Some y"
  by (cases x) auto

lemma map_err_Ok [simp]: "map_err f r = Inr y \<longleftrightarrow> r = Inr y"
  by (cases r) auto

lemma option_filter_Some [simp]: "option_filter P x = Some y \<longleftrightarrow> x = Some y \<and> P y"
  by (cases x) auto


section \<open>Lists\<close>

text \<open>\<open>Iterator::position\<close>, \<open>Iterator::find_map\<close>, \<open>Vec::insert\<close>, \<open>Vec::remove\<close>.\<close>

fun position :: "('a \<Rightarrow> bool) \<Rightarrow> 'a list \<Rightarrow> nat option" where
  "position P [] = None"
| "position P (x # xs) = (if P x then Some 0 else map_option Suc (position P xs))"

fun find_map :: "('a \<Rightarrow> 'b option) \<Rightarrow> 'a list \<Rightarrow> 'b option" where
  "find_map f [] = None"
| "find_map f (x # xs) = (case f x of Some y \<Rightarrow> Some y | None \<Rightarrow> find_map f xs)"

definition insert_at :: "nat \<Rightarrow> 'a \<Rightarrow> 'a list \<Rightarrow> 'a list" where
  "insert_at i x xs = take i xs @ x # drop i xs"

definition remove_at :: "nat \<Rightarrow> 'a list \<Rightarrow> 'a list" where
  "remove_at i xs = take i xs @ drop (Suc i) xs"

lemma position_Some:
  assumes "position P xs = Some i"
  shows "i < length xs" and "P (xs ! i)" and "\<And>j. j < i \<Longrightarrow> \<not> P (xs ! j)"
proof -
  have "i < length xs \<and> P (xs ! i) \<and> (\<forall>j < i. \<not> P (xs ! j))"
    using assms
  proof (induction xs arbitrary: i)
    case Nil
    then show ?case by simp
  next
    case (Cons x xs)
    then show ?case by (fastforce split: if_splits simp: less_Suc_eq_0_disj)
  qed
  then show "i < length xs" and "P (xs ! i)" and "\<And>j. j < i \<Longrightarrow> \<not> P (xs ! j)" by auto
qed

lemma position_None: "position P xs = None \<longleftrightarrow> (\<forall>x \<in> set xs. \<not> P x)"
  by (induction xs) auto

lemma position_takeWhile: "unwrap_or (length xs) (position P xs) = length (takeWhile (\<lambda>x. \<not> P x) xs)"
proof (induction xs)
  case Nil
  then show ?case by simp
next
  case (Cons x xs)
  then show ?case by (cases "position P xs") auto
qed

lemma insert_at_position:
  "insert_at (unwrap_or (length xs) (position P xs)) x xs
     = takeWhile (\<lambda>x. \<not> P x) xs @ x # dropWhile (\<lambda>x. \<not> P x) xs"
  by (simp add: insert_at_def position_takeWhile takeWhile_eq_take [symmetric] dropWhile_eq_drop [symmetric])

lemma mset_insert_at [simp]: "mset (insert_at i x xs) = add_mset x (mset xs)"
  by (metis append_take_drop_id insert_at_def mset.simps(2) mset_append union_mset_add_mset_right)

lemma length_insert_at [simp]: "length (insert_at i x xs) = Suc (length xs)"
  by (simp add: insert_at_def)

lemma set_insert_at [simp]: "set (insert_at i x xs) = insert x (set xs)"
  by (metis mset_insert_at set_mset_add_mset_insert set_mset_mset)

lemma mset_remove_at: "i < length xs \<Longrightarrow> mset xs = add_mset (xs ! i) (mset (remove_at i xs))"
  by (metis id_take_nth_drop mset_append mset.simps(2) remove_at_def union_mset_add_mset_right)

lemma distinct_add_mset:
  "mset ys = add_mset i (mset xs) \<Longrightarrow> distinct ys \<longleftrightarrow> i \<notin> set xs \<and> distinct xs"
  using mset_eq_imp_distinct_iff [of ys "i # xs"] by simp

lemma length_remove_at: "i < length xs \<Longrightarrow> length (remove_at i xs) = length xs - 1"
  by (simp add: remove_at_def)

lemma remove_at_subseq: "subseq (remove_at i xs) xs"
proof -
  have "subseq (drop (Suc i) xs) (drop i xs)"
    by (metis Suc_n_not_le_n drop_drop nat_le_linear plus_1_eq_Suc suffix_drop suffix_imp_subseq)
  then show ?thesis
    unfolding remove_at_def by (metis append_take_drop_id subseq_append_iff subseq_order.order_refl)
qed

lemma find_map_Some: "find_map f xs = Some y \<Longrightarrow> \<exists>x \<in> set xs. f x = Some y"
  by (induction xs) (auto split: option.splits)

lemma find_map_None: "find_map f xs = None \<longleftrightarrow> (\<forall>x \<in> set xs. f x = None)"
  by (induction xs) (auto split: option.splits)

text \<open>An element-wise update inside a finite sum, used for counting resources.\<close>

lemma sum_fun_upd:
  fixes f :: "'a \<Rightarrow> nat"
  assumes "finite A" and "x \<in> A"
  shows "sum (f(x := y)) A + f x = sum f A + y"
proof -
  have "sum (f(x := y)) (A - {x}) = sum f (A - {x})"
    by (rule sum.cong) auto
  then have "sum (f(x := y)) A = y + sum f (A - {x})"
    using sum.remove [OF assms, of "f(x := y)"] by simp
  moreover have "sum f A = f x + sum f (A - {x})"
    using assms by (rule sum.remove)
  ultimately show ?thesis by simp
qed


section \<open>Characters and text\<close>

abbreviation (input) NL :: char where "NL \<equiv> CHR 0x0A"
abbreviation (input) CR :: char where "CR \<equiv> CHR 0x0D"

definition is_ws :: "char \<Rightarrow> bool" where
  "is_ws c \<longleftrightarrow> c \<in> {CHR 0x09, CHR 0x0A, CHR 0x0B, CHR 0x0C, CHR 0x0D, CHR '' ''}"

definition is_digit :: "char \<Rightarrow> bool" where
  "is_digit c \<longleftrightarrow> CHR ''0'' \<le> c \<and> c \<le> CHR ''9''"

definition digit_val :: "char \<Rightarrow> nat" where
  "digit_val c = of_char c - 48"

definition digit_char :: "nat \<Rightarrow> char" where
  "digit_char n = char_of (48 + n)"

definition to_lower :: "char \<Rightarrow> char" where
  "to_lower c = (if CHR ''A'' \<le> c \<and> c \<le> CHR ''Z'' then char_of (of_char c + (32::nat)) else c)"

definition starts_with :: "string \<Rightarrow> string \<Rightarrow> bool" where
  "starts_with p s \<longleftrightarrow> take (length p) s = p"

definition ends_with :: "string \<Rightarrow> string \<Rightarrow> bool" where
  "ends_with p s \<longleftrightarrow> length p \<le> length s \<and> drop (length s - length p) s = p"

definition strip_prefix :: "string \<Rightarrow> string \<Rightarrow> string option" where
  "strip_prefix p s = (if starts_with p s then Some (drop (length p) s) else None)"

definition strip_suffix :: "string \<Rightarrow> string \<Rightarrow> string option" where
  "strip_suffix p s = (if ends_with p s then Some (take (length s - length p) s) else None)"

definition trim_start :: "string \<Rightarrow> string" where
  "trim_start = dropWhile is_ws"

definition trim_end :: "string \<Rightarrow> string" where
  "trim_end s = rev (dropWhile is_ws (rev s))"

definition trim :: "string \<Rightarrow> string" where
  "trim s = trim_end (trim_start s)"

text \<open>\<open>str::split(char)\<close>: always at least one piece.\<close>

fun split_by :: "(char \<Rightarrow> bool) \<Rightarrow> string \<Rightarrow> string list" where
  "split_by P [] = [[]]"
| "split_by P (c # cs) =
     (if P c then [] # split_by P cs
      else (case split_by P cs of [] \<Rightarrow> [[c]] | l # ls \<Rightarrow> (c # l) # ls))"

definition split_whitespace :: "string \<Rightarrow> string list" where
  "split_whitespace s = filter (\<lambda>w. w \<noteq> []) (split_by is_ws s)"

text \<open>\<open>str::split_once\<close>: around the first character that satisfies the pattern.\<close>

fun split_once_by :: "(char \<Rightarrow> bool) \<Rightarrow> string \<Rightarrow> (string \<times> string) option" where
  "split_once_by P [] = None"
| "split_once_by P (c # cs) =
     (if P c then Some ([], cs) else map_option (\<lambda>(a, b). (c # a, b)) (split_once_by P cs))"

text \<open>
  \<open>str::lines\<close>: the pieces of \<open>split_inclusive('\n')\<close>, each without its line ending. A
  carriage return is dropped only in front of a line feed.
\<close>

fun split_inclusive :: "string \<Rightarrow> string list" where
  "split_inclusive [] = []"
| "split_inclusive (c # cs) =
     (if c = NL then [c] # split_inclusive cs
      else (case split_inclusive cs of [] \<Rightarrow> [[c]] | l # ls \<Rightarrow> (c # l) # ls))"

definition strip_eol :: "string \<Rightarrow> string" where
  "strip_eol l = (case strip_suffix [NL] l of None \<Rightarrow> l
                  | Some l' \<Rightarrow> unwrap_or l' (strip_suffix [CR] l'))"

definition lines :: "string \<Rightarrow> string list" where
  "lines s = map strip_eol (split_inclusive s)"

fun join :: "string \<Rightarrow> string list \<Rightarrow> string" where
  "join sep [] = []"
| "join sep [x] = x"
| "join sep (x # y # ys) = x @ sep @ join sep (y # ys)"

text \<open>\<open>str::find(&str)\<close>: the first byte offset at which the pattern occurs.\<close>

fun find_sub :: "string \<Rightarrow> string \<Rightarrow> nat option" where
  "find_sub p [] = (if p = [] then Some 0 else None)"
| "find_sub p (c # cs) = (if starts_with p (c # cs) then Some 0 else map_option Suc (find_sub p cs))"

definition contains :: "string \<Rightarrow> string \<Rightarrow> bool" where
  "contains p s \<longleftrightarrow> find_sub p s \<noteq> None"

definition replace_char :: "char \<Rightarrow> string \<Rightarrow> string \<Rightarrow> string" where
  "replace_char c r s = concat (map (\<lambda>x. if x = c then r else [x]) s)"

text \<open>
  \<open>str::parse\<close> for an unsigned type of width \<open>w\<close>: an optional \<open>+\<close>, then one or more
  decimal digits, and an error on overflow.
\<close>

definition digits_val :: "string \<Rightarrow> nat" where
  "digits_val = foldl (\<lambda>n c. 10 * n + digit_val c) 0"

definition parse_unsigned :: "nat \<Rightarrow> string \<Rightarrow> nat option" where
  "parse_unsigned w s =
     (let ds = (case s of [] \<Rightarrow> [] | c # r \<Rightarrow> if c = CHR ''+'' then r else s) in
      if ds = [] \<or> \<not> list_all is_digit ds then None
      else if digits_val ds < 2 ^ w then Some (digits_val ds) else None)"

definition parse_u64 :: "string \<Rightarrow> u64 option" where
  "parse_u64 s = map_option of_nat (parse_unsigned 64 s)"

definition parse_u32 :: "string \<Rightarrow> u32 option" where
  "parse_u32 s = map_option of_nat (parse_unsigned 32 s)"

text \<open>\<open>Display\<close> of an unsigned integer.\<close>

fun show_nat :: "nat \<Rightarrow> string" where
  "show_nat n = (if n < 10 then [digit_char n] else show_nat (n div 10) @ [digit_char (n mod 10)])"

declare show_nat.simps [simp del]

definition show_int :: "int \<Rightarrow> string" where
  "show_int i = (if i < 0 then CHR ''-'' # show_nat (nat (- i)) else show_nat (nat i))"


subsection \<open>Prefixes, suffixes, splitting\<close>

lemma starts_with_prefix: "starts_with p s \<longleftrightarrow> prefix p s"
  by (auto simp: starts_with_def prefix_def) (metis append_take_drop_id)

lemma ends_with_suffix: "ends_with p s \<longleftrightarrow> suffix p s"
  by (auto simp: ends_with_def suffix_def) (metis append_take_drop_id)

lemma strip_prefix_Some [simp]: "strip_prefix p s = Some r \<longleftrightarrow> s = p @ r"
  by (auto simp: strip_prefix_def starts_with_def) (metis append_take_drop_id)

lemma strip_prefix_append [simp]: "strip_prefix p (p @ r) = Some r"
  by simp

lemma strip_prefix_Cons [simp]: "strip_prefix (c # p) (d # r) = (if c = d then strip_prefix p r else None)"
  by (auto simp: strip_prefix_def starts_with_def)

lemma strip_prefix_Nil [simp]: "strip_prefix [] r = Some r"
  by simp

lemma strip_suffix_Some [simp]: "strip_suffix p s = Some r \<longleftrightarrow> s = r @ p"
  by (auto simp: strip_suffix_def ends_with_def) (metis append_take_drop_id)

lemma strip_suffix_append [simp]: "strip_suffix p (r @ p) = Some r"
  by simp

lemma starts_with_append [simp]: "starts_with p (p @ s)"
  by (simp add: starts_with_def)

lemma ends_with_append [simp]: "ends_with p (s @ p)"
  by (simp add: ends_with_def)

lemma split_by_not_Nil [simp]: "split_by P s \<noteq> []"
  by (induction s) (auto split: list.splits)

lemma split_by_none: "\<forall>c \<in> set s. \<not> P c \<Longrightarrow> split_by P s = [s]"
  by (induction s) auto

lemma split_by_append:
  "\<forall>c \<in> set a. \<not> P c \<Longrightarrow> P d \<Longrightarrow> split_by P (a @ d # s) = a # split_by P s"
  by (induction a) auto

lemma split_by_pieces: "\<forall>x \<in> set (split_by P s). \<forall>c \<in> set x. \<not> P c"
  by (induction s) (auto split: list.splits)

lemma join_hd: "join sep ((c # a) # l) = c # join sep (a # l)"
  by (cases l) auto

lemma join_Nil_Cons: "l \<noteq> [] \<Longrightarrow> join sep ([] # l) = sep @ join sep l"
  by (cases l) auto

lemma join_split_by: "join [d] (split_by (\<lambda>c. c = d) s) = s"
proof (induction s)
  case Nil
  then show ?case by simp
next
  case (Cons c s)
  then show ?case
    by (auto simp: join_hd join_Nil_Cons split: list.splits)
qed

lemma split_once_by_Some:
  "split_once_by P s = Some (a, b) \<longleftrightarrow> (\<exists>d. s = a @ d # b \<and> P d \<and> (\<forall>c \<in> set a. \<not> P c))"
  by (induction s arbitrary: a b) (auto simp: Cons_eq_append_conv)

lemma split_once_by_None: "split_once_by P s = None \<longleftrightarrow> (\<forall>c \<in> set s. \<not> P c)"
  by (induction s) auto


lemma length_split_by: "length (split_by P s) = Suc (length (filter P s))"
  by (induction s) (auto split: list.splits)

lemma find_sub_Some:
  "find_sub p s = Some n \<longleftrightarrow> n \<le> length s \<and> starts_with p (drop n s) \<and> (\<forall>m < n. \<not> starts_with p (drop m s))"
proof (induction s arbitrary: n)
  case Nil
  then show ?case by (auto simp: starts_with_def)
next
  case (Cons c s)
  then show ?case
    by (cases n) (auto simp: less_Suc_eq_0_disj)
qed

lemma find_sub_None: "find_sub p s = None \<longleftrightarrow> (\<forall>n \<le> length s. \<not> starts_with p (drop n s))"
proof (induction s)
  case Nil
  then show ?case by (simp add: starts_with_def)
next
  case (Cons c s)
  have "(\<forall>n \<le> length (c # s). \<not> starts_with p (drop n (c # s)))
        \<longleftrightarrow> \<not> starts_with p (c # s) \<and> (\<forall>n \<le> length s. \<not> starts_with p (drop n s))"
    by (metis drop0 drop_Suc_Cons le_0_eq length_Cons not0_implies_Suc not_less_eq_eq zero_le)
  with Cons show ?case by simp
qed

lemma starts_with_length: "starts_with p s \<Longrightarrow> length p \<le> length s"
  by (simp add: starts_with_prefix prefix_length_le)

lemma starts_with_appendI: "starts_with p s \<Longrightarrow> starts_with p (s @ t)"
  using starts_with_length [of p s] by (simp add: starts_with_def)

lemma starts_with_append_short: "length p \<le> length s \<Longrightarrow> starts_with p (s @ t) \<longleftrightarrow> starts_with p s"
  by (simp add: starts_with_def)


subsection \<open>Decimal text\<close>

lemma digit_char_val: "n < 10 \<Longrightarrow> digit_val (digit_char n) = n"
  by (simp add: digit_val_def digit_char_def)

lemma digit_char_is_digit: "n < 10 \<Longrightarrow> is_digit (digit_char n)"
  by (simp add: is_digit_def digit_char_def less_eq_char_def)

lemma digits_val_snoc: "digits_val (ds @ [d]) = 10 * digits_val ds + digit_val d"
  by (simp add: digits_val_def)

lemma show_nat_digits: "list_all is_digit (show_nat n)"
proof (induction n rule: show_nat.induct)
  case (1 n)
  then show ?case
    by (subst show_nat.simps) (auto simp: digit_char_is_digit)
qed

lemma show_nat_not_Nil [simp]: "show_nat n \<noteq> []"
  by (subst show_nat.simps) simp

lemma digits_val_show_nat: "digits_val (show_nat n) = n"
proof (induction n rule: show_nat.induct)
  case (1 n)
  show ?case
  proof (cases "n < 10")
    case True
    then show ?thesis by (subst show_nat.simps) (simp add: digits_val_def digit_char_val)
  next
    case False
    with 1 show ?thesis by (subst show_nat.simps) (simp add: digits_val_snoc digit_char_val)
  qed
qed

lemma show_nat_hd_digit: "is_digit (hd (show_nat n))"
  using show_nat_digits [of n] by (cases "show_nat n") auto

lemma parse_show_nat: "n < 2 ^ w \<Longrightarrow> parse_unsigned w (show_nat n) = Some n"
proof -
  assume n: "n < 2 ^ w"
  obtain c r where cr: "show_nat n = c # r"
    by (cases "show_nat n") auto
  have "is_digit c" using show_nat_hd_digit [of n] cr by simp
  then have "c \<noteq> CHR ''+''" by (auto simp: is_digit_def less_eq_char_def)
  then show ?thesis
    using n cr show_nat_digits [of n] digits_val_show_nat [of n]
    by (simp add: parse_unsigned_def Let_def)
qed

lemma parse_unsigned_bound: "parse_unsigned w s = Some n \<Longrightarrow> n < 2 ^ w"
  by (auto simp: parse_unsigned_def Let_def split: if_splits)


subsection \<open>Lines\<close>

lemma concat_split_inclusive: "concat (split_inclusive s) = s"
  by (induction s) (auto split: list.splits)

lemma split_inclusive_line:
  "NL \<notin> set l \<Longrightarrow> split_inclusive (l @ NL # s) = (l @ [NL]) # split_inclusive s"
  by (induction l) auto

lemma split_inclusive_last: "NL \<notin> set l \<Longrightarrow> l \<noteq> [] \<Longrightarrow> split_inclusive l = [l]"
proof (induction l)
  case Nil
  then show ?case by simp
next
  case (Cons c l)
  then show ?case by (cases "l = []") auto
qed

lemma strip_eol_nl: "NL \<notin> set l \<Longrightarrow> \<not> suffix [CR] l \<Longrightarrow> strip_eol (l @ [NL]) = l"
proof -
  assume l: "NL \<notin> set l" "\<not> suffix [CR] l"
  have "strip_suffix [CR] l = None"
    using l(2) by (cases "strip_suffix [CR] l") (auto simp: suffix_def)
  moreover have "strip_suffix [NL] (l @ [NL]) = Some l" by simp
  ultimately show ?thesis by (simp add: strip_eol_def)
qed

text \<open>A text of clean lines reads back as those lines.\<close>

definition clean_line :: "string \<Rightarrow> bool" where
  "clean_line l \<longleftrightarrow> NL \<notin> set l \<and> \<not> suffix [CR] l"

lemma lines_Cons: "clean_line l \<Longrightarrow> lines (l @ NL # s) = l # lines s"
  by (simp add: clean_line_def lines_def split_inclusive_line strip_eol_nl)

lemma lines_unlines:
  "list_all clean_line ls \<Longrightarrow> lines (concat (map (\<lambda>l. l @ [NL]) ls) @ s) = ls @ lines s"
  by (induction ls) (auto simp: lines_Cons)

lemma lines_Nil [simp]: "lines [] = []"
  by (simp add: lines_def)

subsection \<open>Trimming\<close>

lemma trim_no_ws: "s = [] \<or> (\<not> is_ws (hd s) \<and> \<not> is_ws (last s)) \<Longrightarrow> trim s = s"
proof -
  assume a: "s = [] \<or> (\<not> is_ws (hd s) \<and> \<not> is_ws (last s))"
  show ?thesis
  proof (cases s)
    case Nil
    then show ?thesis by (simp add: trim_def trim_end_def trim_start_def)
  next
    case (Cons c r)
    with a have "dropWhile is_ws s = s" by auto
    moreover have "dropWhile is_ws (rev s) = rev s"
      using a Cons by (metis dropWhile_eq_self_iff hd_rev list.discI)
    ultimately show ?thesis by (simp add: trim_def trim_end_def trim_start_def)
  qed
qed


section \<open>Machine words\<close>

lemma unat_max_word: "unat (- 1 :: 'a::len word) = 2 ^ LENGTH('a) - 1"
  by transfer (simp add: take_bit_minus_one_eq_mask mask_eq_exp_minus_1 nat_diff_distrib nat_power_eq)

lemma unat_max_u32: "unat (- 1 :: u32) = 2 ^ 32 - 1"
  using unat_max_word [where 'a = 32] by simp

lemma unat_max_u64: "unat (- 1 :: u64) = 2 ^ 64 - 1"
  using unat_max_word [where 'a = 64] by simp

lemma unat_bound: "unat (x :: 'a::len word) < 2 ^ LENGTH('a)"
  by (rule unsigned_less)

lemma unat_lt_u32: "unat (x :: u32) < 2 ^ 32"
  using unat_bound [of x] by simp

lemma unat_lt_u64: "unat (x :: u64) < 2 ^ 64"
  using unat_bound [of x] by simp

lemma unat_add_eq:
  fixes x y :: "'a::len word"
  assumes "unat x = a" and "unat y = b" and "a + b < 2 ^ LENGTH('a)"
  shows "unat (x + y) = a + b"
  using assms by (simp add: unat_word_ariths)

lemma unat_ucast_up:
  assumes "LENGTH('a) \<le> LENGTH('b)"
  shows "unat (ucast (x :: 'a::len word) :: 'b::len word) = unat x"
proof -
  have "unat x < 2 ^ LENGTH('b)"
    by (rule less_le_trans [OF unat_bound]) (simp add: assms)
  then show ?thesis by (simp add: unsigned_ucast_eq take_bit_nat_eq_self)
qed

section \<open>Round trips\<close>

text \<open>
  A printer with a parser that reads back whatever it prints. Such a printer is injective, and
  reading a list of printed values gives the list.
\<close>

locale round_trip =
  fixes enc :: "'a \<Rightarrow> 'b" and dec :: "'b \<Rightarrow> 'a option"
  assumes dec_enc: "dec (enc x) = Some x"
begin

lemma enc_eq_iff: "enc x = enc y \<longleftrightarrow> x = y"
  by (metis dec_enc option.inject)

lemma dec_all: "List.map_filter dec (map enc xs) = xs"
  by (induction xs) (simp_all add: map_filter_simps dec_enc)

end

end
