(* ===== verification/Proto.thy ===== *)
theory Proto
  imports Rbs_Prelude
begin

text \<open>
  The wire and domain types of \<open>crates/rbs-proto\<close>: job identifiers, priorities, requests,
  events, messages, toolchain fingerprints and server status, with their methods.

  A floating-point field (\<open>load1\<close>) is the 32-bit pattern it is stored as: the program only
  copies it. \<open>BTreeMap<String, String>\<close> is a partial map.
\<close>

section \<open>Toolchain fingerprints (\<open>toolchain.rs\<close>)\<close>

record toolchain_fingerprint =
  rustc_commit :: string
  rustc_version :: string
  fp_host :: string
  cargo_version :: string
  toolchain_name :: string

definition compatible_with :: "toolchain_fingerprint \<Rightarrow> toolchain_fingerprint \<Rightarrow> bool" where
  "compatible_with a b \<longleftrightarrow> rustc_commit a = rustc_commit b \<and> fp_host a = fp_host b"

definition is_nightly :: "toolchain_fingerprint \<Rightarrow> bool" where
  "is_nightly fp \<longleftrightarrow> contains ''nightly'' (rustc_version fp)"

definition show_fingerprint :: "toolchain_fingerprint \<Rightarrow> string" where
  "show_fingerprint fp =
     ''rustc '' @ rustc_version fp @ '' ('' @ rustc_commit fp @ '') '' @ fp_host fp @
     (if toolchain_name fp \<noteq> [] then '' ['' @ toolchain_name fp @ '']'' else [])"

section \<open>Jobs (\<open>job.rs\<close>)\<close>

datatype job_id = JobId (job_num: u64)

datatype priority = Interactive | Agent | Background

fun rank :: "priority \<Rightarrow> nat" where
  "rank Interactive = 2"
| "rank Agent = 1"
| "rank Background = 0"

fun cpu_weight :: "priority \<Rightarrow> nat" where
  "cpu_weight Interactive = 200"
| "cpu_weight Agent = 100"
| "cpu_weight Background = 50"

definition priority_from_str :: "string \<Rightarrow> (priority, string) result" where
  "priority_from_str s =
     (if s = ''interactive'' then Ok Interactive
      else if s = ''agent'' then Ok Agent
      else if s = ''background'' then Ok Background
      else Err (''unknown priority `'' @ s @ ''`''))"

record client_identity =
  ci_hostname :: string
  ci_pid :: u32
  ci_label :: "string option"

record job_request =
  jr_cwd :: path
  jr_argv :: "string list"
  jr_env :: "string \<rightharpoonup> string"
  jr_toolchain :: toolchain_fingerprint
  jr_toolchain_override :: "string option"
  jr_priority :: priority
  jr_client :: client_identity
  jr_tty :: bool

datatype exit_status = Code i32 | Signal i32

text \<open>
  The sum is one of 32-bit signed integers, which wraps in the release profile the program is
  built with (a debug build panics there instead). A signal number comes from the peer.
\<close>

definition wrap_i32 :: "int \<Rightarrow> i32" where
  "wrap_i32 n = (n + 2 ^ 31) mod 2 ^ 32 - 2 ^ 31"

fun as_process_exit_code :: "exit_status \<Rightarrow> i32" where
  "as_process_exit_code (Code c) = c"
| "as_process_exit_code (Signal s) = wrap_i32 (128 + s)"

fun success :: "exit_status \<Rightarrow> bool" where
  "success (Code c) = (c = 0)"
| "success (Signal s) = False"

datatype reject_reason =
    ToolchainMismatch (rr_server: toolchain_fingerprint) (rr_client: toolchain_fingerprint)
  | Saturated
  | RVersionMismatch
  | RInternal string

datatype job_event =
    Queued job_id usize
  | Started job_id
  | Stdout job_id "u8 list"
  | Stderr job_id "u8 list"
  | Exited job_id exit_status
  | Rejected job_id reject_reason

fun event_id :: "job_event \<Rightarrow> job_id" where
  "event_id (Queued i p) = i"
| "event_id (Started i) = i"
| "event_id (Stdout i b) = i"
| "event_id (Stderr i b) = i"
| "event_id (Exited i s) = i"
| "event_id (Rejected i r) = i"

fun is_terminal :: "job_event \<Rightarrow> bool" where
  "is_terminal (Exited i s) = True"
| "is_terminal (Rejected i r) = True"
| "is_terminal _ = False"

section \<open>Status (\<open>status.rs\<close>)\<close>

datatype f32 = F32 u32

record server_identity =
  si_hostname :: string
  si_version :: string

record capacity =
  tokens_total :: u32
  tokens_free :: u32
  cap_mem_available_bytes :: u64
  cap_load1 :: f32
  cap_accepting :: bool

record server_status =
  st_identity :: server_identity
  st_capacity :: capacity
  st_queued :: usize
  st_running :: usize
  st_uptime_secs :: u64

section \<open>Messages (\<open>lib.rs\<close>)\<close>

datatype proto_error_code = PVersionMismatch | PUnexpectedMessage | PInternal

record proto_error =
  pe_code :: proto_error_code
  pe_message :: string

datatype client_message =
    CHello u32
  | CStatus
  | CSubmit job_request
  | CCancel job_id

datatype server_message =
    SHello u32 server_identity
  | SStatus server_status
  | SEvent job_event
  | SError proto_error

definition PROTOCOL_VERSION :: u32 where
  "PROTOCOL_VERSION = 1"

section \<open>Elementary facts\<close>

lemma rank_inject [simp]: "rank p = rank q \<longleftrightarrow> p = q"
  by (cases p; cases q) auto

lemma rank_le2: "rank p \<le> 2"
  by (cases p) auto

lemma success_exit_code: "success s \<Longrightarrow> as_process_exit_code s = 0"
  by (cases s) auto

lemma wrap_i32_range: "- (2 ^ 31) \<le> wrap_i32 n" "wrap_i32 n < 2 ^ 31"
proof -
  have "0 \<le> (n + 2 ^ 31) mod 2 ^ 32" and "(n + 2 ^ 31) mod 2 ^ 32 < 2 ^ 32" by simp_all
  then show "- (2 ^ 31) \<le> wrap_i32 n" "wrap_i32 n < 2 ^ 31" unfolding wrap_i32_def by simp_all
qed

lemma wrap_i32_id: "- (2 ^ 31) \<le> n \<Longrightarrow> n < 2 ^ 31 \<Longrightarrow> wrap_i32 n = n"
  by (simp add: wrap_i32_def)

text \<open>For the signals there are, the exit code is the shell's, and is no success.\<close>

lemma signal_exit_code:
  assumes "0 \<le> s" and "s \<le> 64"
  shows "as_process_exit_code (Signal s) = 128 + s"
  using assms by (simp add: wrap_i32_id)

lemma compatible_refl [simp]: "compatible_with a a"
  by (simp add: compatible_with_def)

lemma compatible_sym: "compatible_with a b \<longleftrightarrow> compatible_with b a"
  by (auto simp: compatible_with_def)

lemma compatible_trans: "compatible_with a b \<Longrightarrow> compatible_with b c \<Longrightarrow> compatible_with a c"
  by (auto simp: compatible_with_def)

text \<open>Priorities are ordered by urgency, as the scheduler compares them.\<close>

instantiation priority :: linorder
begin

definition less_eq_priority :: "priority \<Rightarrow> priority \<Rightarrow> bool" where
  "less_eq_priority p q \<longleftrightarrow> rank p \<le> rank q"

definition less_priority :: "priority \<Rightarrow> priority \<Rightarrow> bool" where
  "less_priority p q \<longleftrightarrow> rank p < rank q"

instance
  by standard (auto simp: less_eq_priority_def less_priority_def)

end

end
