(* ===== verification/Base64.thy ===== *)
theory Base64
  imports Proto
begin

text \<open>
  The hand-written base64 codec \<open>bytes_b64\<close> of \<open>crates/rbs-proto/src/job.rs\<close>, which carries
  job output inside newline-delimited frames. Shifts and masks are the source's, on 32-bit
  words. Main results: decoding inverts encoding, and encoded text never contains a newline.
\<close>

unbundle bit_operations_syntax

section \<open>Encoding\<close>

definition TABLE :: string where
  "TABLE = ''ABCDEFGHIJKLMNOPQRSTUVWXYZabcdefghijklmnopqrstuvwxyz0123456789+/''"

definition sextet :: "nat \<Rightarrow> u32 \<Rightarrow> nat" where
  "sextet k n = unat (drop_bit k n AND 63)"

definition pack3 :: "u8 \<Rightarrow> u8 \<Rightarrow> u8 \<Rightarrow> u32" where
  "pack3 b0 b1 b2 = push_bit 16 (ucast b0) OR push_bit 8 (ucast b1) OR ucast b2"

fun b64_encode :: "u8 list \<Rightarrow> string" where
  "b64_encode [] = []"
| "b64_encode [b0] =
     (let n = pack3 b0 0 0 in
      [TABLE ! sextet 18 n, TABLE ! sextet 12 n, CHR ''='', CHR ''=''])"
| "b64_encode [b0, b1] =
     (let n = pack3 b0 b1 0 in
      [TABLE ! sextet 18 n, TABLE ! sextet 12 n, TABLE ! sextet 6 n, CHR ''=''])"
| "b64_encode (b0 # b1 # b2 # rest) =
     (let n = pack3 b0 b1 b2 in
      [TABLE ! sextet 18 n, TABLE ! sextet 12 n, TABLE ! sextet 6 n, TABLE ! sextet 0 n])
     @ b64_encode rest"

section \<open>Decoding\<close>

definition show_hex_digit :: "nat \<Rightarrow> char" where
  "show_hex_digit d = (if d < 10 then char_of (48 + d) else char_of (87 + d))"

definition show_hex_byte :: "char \<Rightarrow> string" where
  "show_hex_byte c =
     (let n = of_char c in
      ''0x'' @ (if n < 16 then [show_hex_digit n] else [show_hex_digit (n div 16), show_hex_digit (n mod 16)]))"

definition b64_val :: "char \<Rightarrow> (u32, string) result" where
  "b64_val c =
     (if CHR ''A'' \<le> c \<and> c \<le> CHR ''Z'' then Ok (of_nat (of_char c - 65))
      else if CHR ''a'' \<le> c \<and> c \<le> CHR ''z'' then Ok (of_nat (of_char c - 97) + 26)
      else if CHR ''0'' \<le> c \<and> c \<le> CHR ''9'' then Ok (of_nat (of_char c - 48) + 52)
      else if c = CHR ''+'' then Ok 62
      else if c = CHR ''/'' then Ok 63
      else Err (''invalid base64 byte '' @ show_hex_byte c))"

text \<open>The inner loop over one quantum: \<open>i\<close> is the index of the character, \<open>n\<close> the bits so far.\<close>

fun quantum_bits :: "nat \<Rightarrow> nat \<Rightarrow> u32 \<Rightarrow> string \<Rightarrow> (u32, string) result" where
  "quantum_bits pad i n [] = Ok n"
| "quantum_bits pad i n (c # cs) =
     and_then
       (if c = CHR ''='' then
          (if i < 4 - pad then Err ''padding in the middle of a quantum'' else Ok 0)
        else b64_val c)
       (\<lambda>v. quantum_bits pad (Suc i) (push_bit 6 n OR v) cs)"

definition quantum_pad :: "string \<Rightarrow> nat" where
  "quantum_pad q = length (takeWhile (\<lambda>c. c = CHR ''='') (rev q))"

definition quantum_bytes :: "nat \<Rightarrow> u32 \<Rightarrow> u8 list" where
  "quantum_bytes pad n =
     [ucast (drop_bit 16 n)] @ (if pad < 2 then [ucast (drop_bit 8 n)] else [])
     @ (if pad < 1 then [ucast n] else [])"

fun b64_quanta :: "string \<Rightarrow> (u8 list, string) result" where
  "b64_quanta (a # b # c # d # rest) =
     (let q = [a, b, c, d]; pad = quantum_pad q in
      if pad > 2 then Err ''invalid base64 padding''
      else and_then (quantum_bits pad 0 0 q)
             (\<lambda>n. and_then (b64_quanta rest) (\<lambda>out. Ok (quantum_bytes pad n @ out))))"
| "b64_quanta _ = Ok []"

definition b64_decode :: "string \<Rightarrow> (u8 list, string) result" where
  "b64_decode input =
     (if length input mod 4 \<noteq> 0 then Err ''base64 length not a multiple of 4''
      else b64_quanta input)"

section \<open>The alphabet\<close>

lemma length_TABLE [simp]: "length TABLE = 64"
  by (simp add: TABLE_def)

lemma sextet_lt [simp]: "sextet k n < 64"
proof -
  have "unat (drop_bit k n AND 63) \<le> unat (63 :: u32)"
    by (rule word_and_le1 [THEN word_le_nat_alt [THEN iffD1]])
  then show ?thesis by (simp add: sextet_def)
qed

lemma TABLE_val_all: "list_all (\<lambda>i. b64_val (TABLE ! i) = Inr (of_nat i)) [0..<64]"
  by code_simp

lemma TABLE_val: "i < 64 \<Longrightarrow> b64_val (TABLE ! i) = Inr (of_nat i)"
  using TABLE_val_all by (simp add: list_all_iff)

lemma TABLE_not_pad: "i < 64 \<Longrightarrow> TABLE ! i \<noteq> CHR ''=''"
proof
  assume "i < 64" and e: "TABLE ! i = CHR ''=''"
  then have "b64_val (CHR ''='') = Inr (of_nat i)" using TABLE_val by metis
  then show False by (simp add: b64_val_def less_eq_char_def)
qed

lemma sextet_word [simp]: "of_nat (sextet k n) = drop_bit k n AND 63"
  by (simp add: sextet_def)

lemmas TABLE_sextet = TABLE_val [OF sextet_lt] TABLE_not_pad [OF sextet_lt]

section \<open>One quantum\<close>

lemma mask63: "(x :: u32) AND 63 = take_bit 6 x"
  by (simp add: take_bit_eq_mask mask_eq_exp_minus_1)

lemma sextets_join:
  fixes n :: u32
  assumes a: "\<And>k. 24 \<le> k \<Longrightarrow> \<not> bit n k"
  shows "push_bit 6 (push_bit 6 (push_bit 6 (drop_bit 18 n AND 63) OR (drop_bit 12 n AND 63))
           OR (drop_bit 6 n AND 63)) OR (n AND 63) = n"
proof (rule bit_word_eqI)
  fix k :: nat
  assume "k < LENGTH(32)"
  consider "k < 6" | "6 \<le> k" "k < 12" | "12 \<le> k" "k < 18" | "18 \<le> k" "k < 24" | "24 \<le> k"
    by linarith
  then show "bit (push_bit 6 (push_bit 6 (push_bit 6 (drop_bit 18 n AND 63) OR (drop_bit 12 n AND 63))
           OR (drop_bit 6 n AND 63)) OR (n AND 63)) k = bit n k"
    using \<open>k < LENGTH(32)\<close>
    by cases (auto simp: mask63 bit_simps a dest: bit_imp_le_length)
qed

lemma pack3_high: "24 \<le> k \<Longrightarrow> \<not> bit (pack3 b0 b1 b2) k"
  by (auto simp: pack3_def bit_simps dest: bit_imp_le_length)

lemmas pack3_join = sextets_join [of "pack3 b0 b1 b2" for b0 b1 b2, OF pack3_high]

lemma pack3_bytes:
  "(ucast (drop_bit 16 (pack3 b0 b1 b2)) :: u8) = b0"
  "(ucast (drop_bit 8 (pack3 b0 b1 b2)) :: u8) = b1"
  "(ucast (pack3 b0 b1 b2) :: u8) = b2"
  by (rule bit_word_eqI, auto simp: pack3_def bit_simps dest: bit_imp_le_length)+

lemma pack3_pad:
  "drop_bit 6 (pack3 b0 0 0) AND 63 = 0"
  "pack3 b0 b1 0 AND 63 = 0"
  by (rule bit_word_eqI, auto simp: mask63 pack3_def bit_simps)+

lemma quantum_pad_simps:
  "quantum_pad [a, b, c, d] =
     (if d \<noteq> CHR ''='' then 0 else if c \<noteq> CHR ''='' then 1 else if b \<noteq> CHR ''='' then 2
      else if a \<noteq> CHR ''='' then 3 else 4)"
  by (simp add: quantum_pad_def)

lemma quantum_bits_full:
  "quantum_bits 0 0 0 [TABLE ! sextet 18 n, TABLE ! sextet 12 n, TABLE ! sextet 6 n, TABLE ! sextet 0 n]
     = Inr (push_bit 6 (push_bit 6 (push_bit 6 (drop_bit 18 n AND 63) OR (drop_bit 12 n AND 63))
             OR (drop_bit 6 n AND 63)) OR (n AND 63))"
  by (simp add: TABLE_sextet)

lemma quantum_bits_pad1:
  "quantum_bits 1 0 0 [TABLE ! sextet 18 n, TABLE ! sextet 12 n, TABLE ! sextet 6 n, CHR ''='']
     = Inr (push_bit 6 (push_bit 6 (push_bit 6 (drop_bit 18 n AND 63) OR (drop_bit 12 n AND 63))
             OR (drop_bit 6 n AND 63)) OR 0)"
  by (simp add: TABLE_sextet)

lemma quantum_bits_pad2:
  "quantum_bits 2 0 0 [TABLE ! sextet 18 n, TABLE ! sextet 12 n, CHR ''='', CHR ''='']
     = Inr (push_bit 6 (push_bit 6 (push_bit 6 (drop_bit 18 n AND 63) OR (drop_bit 12 n AND 63))
             OR 0) OR 0)"
  by (simp add: TABLE_sextet)

lemma decode_full:
  "b64_quanta ([TABLE ! sextet 18 n, TABLE ! sextet 12 n, TABLE ! sextet 6 n, TABLE ! sextet 0 n] @ rest)
     = and_then (b64_quanta rest) (\<lambda>out. Ok ([b0, b1, b2] @ out))"
  if "n = pack3 b0 b1 b2"
proof -
  have "quantum_pad [TABLE ! sextet 18 n, TABLE ! sextet 12 n, TABLE ! sextet 6 n, TABLE ! sextet 0 n] = 0"
    by (simp add: quantum_pad_simps TABLE_sextet)
  moreover have "quantum_bits 0 0 0 [TABLE ! sextet 18 n, TABLE ! sextet 12 n, TABLE ! sextet 6 n,
      TABLE ! sextet 0 n] = Inr n"
    unfolding quantum_bits_full using that pack3_join [of b0 b1 b2] by (simp only:)
  ultimately show ?thesis
    using that by (simp add: Let_def quantum_bytes_def pack3_bytes del: quantum_bits.simps)
qed

lemma decode_pad1:
  "b64_quanta [TABLE ! sextet 18 n, TABLE ! sextet 12 n, TABLE ! sextet 6 n, CHR ''=''] = Inr [b0, b1]"
  if "n = pack3 b0 b1 0"
proof -
  have "quantum_pad [TABLE ! sextet 18 n, TABLE ! sextet 12 n, TABLE ! sextet 6 n, CHR ''=''] = 1"
    by (simp add: quantum_pad_simps TABLE_sextet)
  moreover have "quantum_bits 1 0 0 [TABLE ! sextet 18 n, TABLE ! sextet 12 n, TABLE ! sextet 6 n, CHR ''='']
      = Inr n"
    unfolding quantum_bits_pad1 using that pack3_join [of b0 b1 0] by (simp only: pack3_pad)
  ultimately show ?thesis
    using that by (simp add: Let_def quantum_bytes_def pack3_bytes del: quantum_bits.simps)
qed

lemma decode_pad2:
  "b64_quanta [TABLE ! sextet 18 n, TABLE ! sextet 12 n, CHR ''='', CHR ''=''] = Inr [b0]"
  if "n = pack3 b0 0 0"
proof -
  have "quantum_pad [TABLE ! sextet 18 n, TABLE ! sextet 12 n, CHR ''='', CHR ''=''] = 2"
    by (simp add: quantum_pad_simps TABLE_sextet)
  moreover have "quantum_bits 2 0 0 [TABLE ! sextet 18 n, TABLE ! sextet 12 n, CHR ''='', CHR ''='']
      = Inr n"
    unfolding quantum_bits_pad2 using that pack3_join [of b0 0 0] by (simp only: pack3_pad)
  ultimately show ?thesis
    using that by (simp add: Let_def quantum_bytes_def pack3_bytes del: quantum_bits.simps)
qed

section \<open>Results\<close>

lemma b64_encode_length: "length (b64_encode bs) = 4 * ((length bs + 2) div 3)"
proof (induction bs rule: b64_encode.induct)
  case (4 b0 b1 b2 rest)
  have "(length rest + 3 + 2) div 3 = Suc ((length rest + 2) div 3)" by presburger
  with 4 show ?case by (simp add: Let_def)
qed (auto simp: Let_def)

lemma b64_quanta_encode: "b64_quanta (b64_encode bs) = Inr bs"
proof (induction bs rule: b64_encode.induct)
  case 1
  then show ?case by simp
next
  case (2 b0)
  show ?case using decode_pad2 [of "pack3 b0 0 0" b0] by (simp only: b64_encode.simps Let_def)
next
  case (3 b0 b1)
  show ?case using decode_pad1 [of "pack3 b0 b1 0" b0 b1] by (simp only: b64_encode.simps Let_def)
next
  case (4 b0 b1 b2 rest)
  then show ?case
    using decode_full [of "pack3 b0 b1 b2" b0 b1 b2 "b64_encode rest"]
    by (simp only: b64_encode.simps Let_def and_then.simps append.simps)
qed

lemma b64_encode_alphabet: "set (b64_encode bs) \<subseteq> insert (CHR ''='') (set TABLE)"
proof (induction bs rule: b64_encode.induct)
qed (auto simp: Let_def)

lemma b64_encode_no_newline: "NL \<notin> set (b64_encode bs) \<and> CR \<notin> set (b64_encode bs) \<and> CHR 0x22 \<notin> set (b64_encode bs)"
proof -
  have "NL \<notin> insert (CHR ''='') (set TABLE) \<and> CR \<notin> insert (CHR ''='') (set TABLE)
      \<and> CHR 0x22 \<notin> insert (CHR ''='') (set TABLE)"
    by (simp add: TABLE_def)
  then show ?thesis using b64_encode_alphabet [of bs] by blast
qed

interpretation b64: round_trip b64_encode "\<lambda>s. result_ok (b64_decode s)"
  by unfold_locales (simp add: b64_decode_def b64_encode_length b64_quanta_encode)

text \<open>
  C7. Base64 round trip: decoding the encoding of any byte string, whatever its length,
  gives that byte string back, so different byte strings have different encodings; and the
  encoding contains no newline, carriage return or quote, so a payload cannot break the
  newline-delimited framing, whatever bytes a job wrote.
\<close>
theorem b64_round_trip:
  "b64_decode (b64_encode bs) = Inr bs
   \<and> (b64_encode bs = b64_encode bs' \<longleftrightarrow> bs = bs')
   \<and> NL \<notin> set (b64_encode bs) \<and> CR \<notin> set (b64_encode bs) \<and> CHR 0x22 \<notin> set (b64_encode bs)"
  using b64_encode_no_newline [of bs] b64.enc_eq_iff [of bs bs'] by (simp add: b64_decode_def b64_encode_length b64_quanta_encode)

end
