(* ===== verification/Frame.thy ===== *)
theory Frame
  imports Proto
begin

text \<open>
  Newline-delimited framing: \<open>crates/rbs-proto/src/frame.rs\<close>, and the two read loops that sit
  on top of it, \<open>Reader::next\<close> of the server (\<open>socket.rs\<close>) and \<open>Framed::recv_inner\<close> of the
  client (\<open>transport.rs\<close>).

  The JSON codec is the crate \<open>serde_json\<close>: it is a pair of parameters, \<open>to_vec\<close> and
  \<open>from_slice\<close>, and what framing relies on is the named hypothesis \<open>codec_law\<close>: a message
  serialises to a line without a raw newline that is not blank and that parses back.

  The bytes a socket delivers are a list of the results of successive \<open>read\<close> calls; an empty
  read is end of file, and a list that runs out is a peer that sends nothing more, so that the
  call does not return (\<open>None\<close>).
\<close>

section \<open>Frames and the decoder\<close>

definition newline :: u8 where "newline = 10"

definition MAX_FRAME_BYTES :: usize where
  "MAX_FRAME_BYTES = 16 * 1024 * 1024"

datatype 'je frame_error = TooLarge | Json 'je

definition is_ascii_whitespace :: "u8 \<Rightarrow> bool" where
  "is_ascii_whitespace b \<longleftrightarrow> b \<in> {9, 10, 12, 13, 32}"

definition encode :: "('m \<Rightarrow> (u8 list, 'je) result) \<Rightarrow> 'm \<Rightarrow> (u8 list, 'je frame_error) result" where
  "encode to_vec msg = and_then (map_err Json (to_vec msg)) (\<lambda>v. Ok (v @ [newline]))"

type_synonym decoder = "u8 list"

definition decoder_new :: decoder where
  "decoder_new = []"

definition push :: "decoder \<Rightarrow> u8 list \<Rightarrow> (decoder, 'je frame_error) result" where
  "push buf bytes =
     (if length buf + length bytes > MAX_FRAME_BYTES then Err TooLarge else Ok (buf @ bytes))"

function next_frame ::
  "(u8 list \<Rightarrow> ('m, 'je) result) \<Rightarrow> decoder \<Rightarrow> ('m option, 'je frame_error) result \<times> decoder" where
  "next_frame from_slice buf =
     (case position (\<lambda>b. b = newline) buf of
        None \<Rightarrow> (Ok None, buf)
      | Some pos \<Rightarrow>
          (let line = take pos buf; rest = drop (Suc pos) buf in
           if list_all is_ascii_whitespace line then next_frame from_slice rest
           else (and_then (map_err Json (from_slice line)) (\<lambda>m. Ok (Some m)), rest)))"
  by pat_completeness auto
termination
  by (relation "measure (\<lambda>(f, buf). length buf)") (auto dest: position_Some(1))

declare next_frame.simps [simp del]

definition pending :: "decoder \<Rightarrow> usize" where
  "pending buf = length buf"

section \<open>The read loops\<close>

datatype ('io, 'je) read_error = ReadIo 'io | ReadFrame "'je frame_error" | ReadClosed

type_synonym 'io reads = "(u8 list, 'io) result list"

fun reader_next ::
  "(u8 list \<Rightarrow> ('m, 'je) result) \<Rightarrow> 'io reads \<Rightarrow> decoder
     \<Rightarrow> (('m option, ('io, 'je) read_error) result \<times> 'io reads \<times> decoder) option" where
  "reader_next from_slice reads buf =
     (case next_frame from_slice buf of
        (Inl e, b) \<Rightarrow> Some (Err (ReadFrame e), reads, b)
      | (Inr (Some m), b) \<Rightarrow> Some (Ok (Some m), reads, b)
      | (Inr None, b) \<Rightarrow>
          (case reads of
             [] \<Rightarrow> None
           | Inl e # rs \<Rightarrow> Some (Err (ReadIo e), rs, b)
           | Inr chunk # rs \<Rightarrow>
               (if chunk = [] then Some (Ok None, rs, b)
                else (case push b chunk of
                        Inl e \<Rightarrow> Some (Err (ReadFrame e), rs, b)
                      | Inr b' \<Rightarrow> reader_next from_slice rs b'))))"

declare reader_next.simps [simp del]

fun recv_inner ::
  "(u8 list \<Rightarrow> ('m, 'je) result) \<Rightarrow> 'io reads \<Rightarrow> decoder
     \<Rightarrow> (('m option, ('io, 'je) read_error) result \<times> 'io reads \<times> decoder) option" where
  "recv_inner from_slice reads buf =
     (case next_frame from_slice buf of
        (Inl e, b) \<Rightarrow> Some (Err (ReadFrame e), reads, b)
      | (Inr (Some m), b) \<Rightarrow> Some (Ok (Some m), reads, b)
      | (Inr None, b) \<Rightarrow>
          (case reads of
             [] \<Rightarrow> None
           | Inl e # rs \<Rightarrow> Some (Err (ReadIo e), rs, b)
           | Inr chunk # rs \<Rightarrow>
               (if chunk = [] then
                  (if pending b > 0 then Some (Err ReadClosed, rs, b) else Some (Ok None, rs, b))
                else (case push b chunk of
                        Inl e \<Rightarrow> Some (Err (ReadFrame e), rs, b)
                      | Inr b' \<Rightarrow> recv_inner from_slice rs b'))))"

declare recv_inner.simps [simp del]

text \<open>Receiving \<open>n\<close> messages in a row, as a connection does.\<close>

fun recv_many ::
  "(u8 list \<Rightarrow> ('m, 'je) result) \<Rightarrow> nat \<Rightarrow> 'io reads \<Rightarrow> decoder
     \<Rightarrow> ('m list \<times> 'io reads \<times> decoder) option" where
  "recv_many from_slice 0 reads buf = Some ([], reads, buf)"
| "recv_many from_slice (Suc n) reads buf =
     (case recv_inner from_slice reads buf of
        Some (Inr (Some m), reads', buf') \<Rightarrow>
          map_option (\<lambda>(ms, r). (m # ms, r)) (recv_many from_slice n reads' buf')
      | _ \<Rightarrow> None)"

section \<open>The codec hypothesis\<close>

definition codec_law ::
  "('m \<Rightarrow> (u8 list, 'je) result) \<Rightarrow> (u8 list \<Rightarrow> ('m, 'je) result) \<Rightarrow> 'm \<Rightarrow> bool" where
  "codec_law to_vec from_slice m \<longleftrightarrow>
     (\<exists>line. to_vec m = Inr line \<and> newline \<notin> set line \<and> \<not> list_all is_ascii_whitespace line
             \<and> from_slice line = Inr m)"

definition frame_of :: "('m \<Rightarrow> (u8 list, 'je) result) \<Rightarrow> 'm \<Rightarrow> u8 list" where
  "frame_of to_vec m = (case encode to_vec m of Inl e \<Rightarrow> [] | Inr f \<Rightarrow> f)"

lemma codec_law_frame:
  assumes "codec_law to_vec from_slice m"
  obtains line where "frame_of to_vec m = line @ [newline]" and "newline \<notin> set line"
    and "\<not> list_all is_ascii_whitespace line" and "from_slice line = Inr m"
  using assms by (auto simp: codec_law_def encode_def frame_of_def)

section \<open>Facts about the decoder\<close>

lemma next_frame_no_newline:
  "newline \<notin> set buf \<Longrightarrow> next_frame from_slice buf = (Inr None, buf)"
proof -
  assume "newline \<notin> set buf"
  then have "position (\<lambda>b. b = newline) buf = None" by (auto simp: position_None)
  then show ?thesis by (subst next_frame.simps) simp
qed

lemma position_line: "newline \<notin> set line \<Longrightarrow> position (\<lambda>b. b = newline) (line @ newline # rest) = Some (length line)"
  by (induction line) auto

lemma next_frame_line:
  "newline \<notin> set line \<Longrightarrow> \<not> list_all is_ascii_whitespace line \<Longrightarrow>
     next_frame from_slice (line @ newline # rest)
       = (and_then (map_err Json (from_slice line)) (\<lambda>m. Ok (Some m)), rest)"
  by (subst next_frame.simps) (simp add: position_line)

lemma next_frame_blank:
  "newline \<notin> set line \<Longrightarrow> list_all is_ascii_whitespace line \<Longrightarrow>
     next_frame from_slice (line @ newline # rest) = next_frame from_slice rest"
  by (subst next_frame.simps) (simp add: position_line)

lemma next_frame_suffix: "suffix (snd (next_frame from_slice buf)) buf"
proof (induction from_slice buf rule: next_frame.induct)
  case (1 from_slice buf)
  show ?case
  proof (cases "position (\<lambda>b. b = newline) buf")
    case None
    then show ?thesis by (subst next_frame.simps) simp
  next
    case (Some pos)
    have d: "suffix (drop (Suc pos) buf) buf" by (rule suffix_drop)
    show ?thesis
    proof (cases "list_all is_ascii_whitespace (take pos buf)")
      case True
      with 1 Some have "suffix (snd (next_frame from_slice (drop (Suc pos) buf))) (drop (Suc pos) buf)"
        by simp
      with d True Some show ?thesis
        by (subst next_frame.simps) (auto intro: suffix_order.trans)
    next
      case False
      with d Some show ?thesis by (subst next_frame.simps) simp
    qed
  qed
qed

lemma next_frame_None_no_newline:
  "next_frame from_slice buf = (Inr None, buf') \<Longrightarrow> newline \<notin> set buf'"
proof (induction from_slice buf rule: next_frame.induct)
  case (1 from_slice buf)
  then show ?case
    by (auto simp: next_frame.simps [of from_slice buf] position_None Let_def
        split: option.splits if_splits)
qed

text \<open>
  C6. The receive buffer is bounded: if the buffer held at most \<open>MAX_FRAME_BYTES\<close> before,
  it does so after any successful \<open>push\<close> and any \<open>next_frame\<close>, and what remains after
  \<open>next_frame\<close> reports that it needs more bytes contains no complete frame.
\<close>
theorem decoder_bounded:
  assumes "pending buf \<le> MAX_FRAME_BYTES"
  shows "(\<forall>buf'. push buf bytes = (Inr buf' :: (decoder, 'je frame_error) result)
            \<longrightarrow> pending buf' \<le> MAX_FRAME_BYTES \<and> buf' = buf @ bytes)
       \<and> pending (snd (next_frame from_slice buf)) \<le> MAX_FRAME_BYTES
       \<and> (fst (next_frame from_slice buf) = Inr None \<longrightarrow> newline \<notin> set (snd (next_frame from_slice buf)))"
proof (intro conjI allI impI)
  fix buf' :: decoder
  assume "push buf bytes = (Inr buf' :: (decoder, 'je frame_error) result)"
  then show "pending buf' \<le> MAX_FRAME_BYTES" and "buf' = buf @ bytes"
    by (auto simp: push_def pending_def split: if_splits)
next
  have "length (snd (next_frame from_slice buf)) \<le> length buf"
    using next_frame_suffix [of from_slice buf] by (rule suffix_length_le)
  then show "pending (snd (next_frame from_slice buf)) \<le> MAX_FRAME_BYTES"
    using assms by (simp add: pending_def)
next
  assume "fst (next_frame from_slice buf) = Inr None"
  then show "newline \<notin> set (snd (next_frame from_slice buf))"
    using next_frame_None_no_newline by (metis prod.collapse)
qed

theorem decoder_bounded_witness:
  "pending [65, 10] \<le> MAX_FRAME_BYTES
     \<and> pending (snd (next_frame (\<lambda>_. Inr () :: (unit, unit) result) [65, 10])) \<le> MAX_FRAME_BYTES"
proof -
  have h: "pending [65, 10] \<le> MAX_FRAME_BYTES" by (simp add: pending_def MAX_FRAME_BYTES_def)
  show ?thesis
    using h decoder_bounded [OF h, where from_slice = "\<lambda>_. Inr () :: (unit, unit) result"] by blast
qed

section \<open>Streams of frames\<close>

text \<open>A partial buffer of a stream holds the whole first frame or no newline at all.\<close>

lemma buffer_cases:
  assumes "buf @ rest = line @ newline # tail" and "newline \<notin> set line"
  obtains (complete) b where "buf = line @ newline # b" and "b @ rest = tail"
        | (part) "newline \<notin> set buf" and "length buf \<le> length line"
proof (cases "length buf \<le> length line")
  case True
  moreover have "prefix buf (buf @ rest)" and "prefix line (buf @ rest)"
    using assms(1) by (metis prefixI)+
  ultimately have "prefix buf line" using prefix_length_prefix by blast
  then have "newline \<notin> set buf" using assms(2) by (auto simp: prefix_def)
  from part [OF this True] show ?thesis .
next
  case False
  then have "length line \<le> length buf" by simp
  moreover have "prefix buf (buf @ rest)" and "prefix line (buf @ rest)"
    using assms(1) by (metis prefixI)+
  ultimately have "prefix line buf" using prefix_length_prefix by blast
  then obtain u where u: "buf = line @ u" "u @ rest = newline # tail"
    using assms(1) by (auto simp: prefix_def)
  with False obtain b where "u = newline # b" by (cases u) auto
  with u show ?thesis by (intro complete) auto
qed

text \<open>What the client reads in one call when the stream starts with the frame of \<open>m\<close>.\<close>

lemma recv_inner_frame:
  assumes "buf @ concat chunks = line @ newline # tail"
    and "newline \<notin> set line" and "\<not> list_all is_ascii_whitespace line"
    and "from_slice line = Inr m"
    and "length line + 65536 \<le> MAX_FRAME_BYTES"
    and "\<forall>c \<in> set chunks. c \<noteq> [] \<and> length c \<le> 65536"
  shows "\<exists>cs b. recv_inner from_slice (map Inr chunks @ later) buf = Some (Inr (Some m), map Inr cs @ later, b)
           \<and> b @ concat cs = tail \<and> set cs \<subseteq> set chunks"
  using assms(1,6)
proof (induction chunks arbitrary: buf)
  case Nil
  then have "buf = line @ newline # tail" by simp
  then have "recv_inner from_slice later buf = Some (Inr (Some m), later, tail)"
    using assms(2-4) by (subst recv_inner.simps) (simp add: next_frame_line)
  then show ?case by (intro exI [of _ "[]"] exI [of _ tail]) simp
next
  case (Cons c chunks)
  from Cons.prems(1) assms(2) show ?case
  proof (cases rule: buffer_cases)
    case (complete b)
    then have "recv_inner from_slice (map Inr (c # chunks) @ later) buf
        = Some (Inr (Some m), map Inr (c # chunks) @ later, b)"
      using assms(2-4) by (subst recv_inner.simps) (simp add: next_frame_line)
    with complete show ?thesis by (intro exI [of _ "c # chunks"] exI [of _ b]) simp
  next
    case part
    from Cons.prems(2) have c: "c \<noteq> []" "length c \<le> 65536" by auto
    have p: "push buf c = Inr (buf @ c)"
      using part(2) c(2) assms(5) by (simp add: push_def)
    have step: "recv_inner from_slice (map Inr (c # chunks) @ later) buf
        = recv_inner from_slice (map Inr chunks @ later) (buf @ c)"
      using part(1) c(1) by (subst recv_inner.simps) (simp add: next_frame_no_newline p)
    have "\<exists>cs b. recv_inner from_slice (map Inr chunks @ later) (buf @ c)
            = Some (Inr (Some m), map Inr cs @ later, b) \<and> b @ concat cs = tail \<and> set cs \<subseteq> set chunks"
      using Cons.prems by (intro Cons.IH) auto
    then obtain cs b where "recv_inner from_slice (map Inr chunks @ later) (buf @ c)
            = Some (Inr (Some m), map Inr cs @ later, b)" "b @ concat cs = tail" "set cs \<subseteq> set chunks"
      by blast
    then show ?thesis unfolding step by (intro exI [of _ cs] exI [of _ b]) auto
  qed
qed

lemma recv_inner_eof:
  assumes "buf @ concat chunks = []" and "\<forall>c \<in> set chunks. c \<noteq> []"
  shows "recv_inner from_slice (map Inr chunks @ [Inr []]) buf = Some (Inr None, [], [])"
proof -
  have "buf = []" and "chunks = []"
    using assms by (cases chunks; auto)+
  then show ?thesis
    by (subst recv_inner.simps) (simp add: next_frame_no_newline pending_def)
qed

lemma recv_many_frames:
  assumes "buf @ concat chunks = concat (map (frame_of to_vec) ms)"
    and "\<forall>m \<in> set ms. codec_law to_vec from_slice m"
    and "\<forall>m \<in> set ms. length (frame_of to_vec m) + 65535 \<le> MAX_FRAME_BYTES"
    and "\<forall>c \<in> set chunks. c \<noteq> [] \<and> length c \<le> 65536"
  shows "\<exists>cs b. recv_many from_slice (length ms) (map Inr chunks @ later) buf = Some (ms, map Inr cs @ later, b)
           \<and> b @ concat cs = [] \<and> set cs \<subseteq> set chunks"
  using assms
proof (induction ms arbitrary: buf chunks)
  case Nil
  then show ?case by (intro exI [of _ chunks] exI [of _ buf]) auto
next
  case (Cons m ms)
  from Cons.prems(2) have "codec_law to_vec from_slice m" by simp
  then obtain line where line: "frame_of to_vec m = line @ [newline]" "newline \<notin> set line"
      "\<not> list_all is_ascii_whitespace line" "from_slice line = Inr m"
    by (rule codec_law_frame)
  have len: "length line + 65536 \<le> MAX_FRAME_BYTES"
    using Cons.prems(3) line(1) by auto
  have "buf @ concat chunks = line @ newline # concat (map (frame_of to_vec) ms)"
    using Cons.prems(1) line(1) by simp
  from recv_inner_frame [where from_slice = from_slice and later = later, OF this line(2-4) len Cons.prems(4)]
  obtain cs b where r: "recv_inner from_slice (map Inr chunks @ later) buf = Some (Inr (Some m), map Inr cs @ later, b)"
      "b @ concat cs = concat (map (frame_of to_vec) ms)" "set cs \<subseteq> set chunks"
    by blast
  have "\<exists>cs' b'. recv_many from_slice (length ms) (map Inr cs @ later) b = Some (ms, map Inr cs' @ later, b')
      \<and> b' @ concat cs' = [] \<and> set cs' \<subseteq> set cs"
    using Cons.prems r(2,3) by (intro Cons.IH) auto
  with r show ?case by fastforce
qed

text \<open>
  C5. Framing is independent of how the transport cuts the byte stream: if a peer sends the
  frames of the messages \<open>ms\<close> and closes, and the bytes arrive in any chunks of at most 64 KiB
  (the size of the read buffer), then receiving \<open>length ms\<close> times gives exactly \<open>ms\<close>, in
  order, and the next receive reports a clean end of stream. Each frame has to leave room for
  one read buffer below \<open>MAX_FRAME_BYTES\<close>.
\<close>
theorem framing_round_trip:
  assumes "concat chunks = concat (map (frame_of to_vec) ms)"
    and "\<forall>m \<in> set ms. codec_law to_vec from_slice m"
    and "\<forall>m \<in> set ms. length (frame_of to_vec m) + 65535 \<le> MAX_FRAME_BYTES"
    and "\<forall>c \<in> set chunks. c \<noteq> [] \<and> length c \<le> 65536"
  shows "\<exists>reads buf. recv_many from_slice (length ms) (map Inr chunks @ [Inr [] :: (u8 list, 'io) result]) decoder_new
             = Some (ms, reads, buf)
           \<and> recv_inner from_slice reads buf = Some (Inr None, [], [])"
proof -
  have "decoder_new @ concat chunks = concat (map (frame_of to_vec) ms)"
    using assms(1) by (simp add: decoder_new_def)
  from recv_many_frames [OF this assms(2-4), of "[Inr [] :: (u8 list, 'io) result]"]
  obtain cs b where "recv_many from_slice (length ms) (map Inr chunks @ [Inr []]) decoder_new
        = Some (ms, map Inr cs @ [Inr [] :: (u8 list, 'io) result], b)" "b @ concat cs = []" "set cs \<subseteq> set chunks"
    by blast
  moreover from this have "\<forall>c \<in> set cs. c \<noteq> []" using assms(4) by blast
  ultimately show ?thesis using recv_inner_eof [of b cs from_slice] by (intro exI conjI)
qed

text \<open>
  The codec hypothesis is satisfiable: a one-byte-per-message codec over small numbers, as an
  example of a serialiser that keeps its lines free of newlines and never blank.
\<close>

theorem framing_round_trip_witness:
  "\<exists>reads buf. recv_many (\<lambda>l. Inr (unat (hd l) - 48) :: (nat, unit) result) 2
       (map Inr [[49], [10, 50, 10]] @ [Inr []] :: (u8 list, unit) result list) decoder_new = Some ([1, 2], reads, buf)
     \<and> recv_inner (\<lambda>l. Inr (unat (hd l) - 48) :: (nat, unit) result) reads buf = Some (Inr None, [], [])"
proof -
  let ?to = "\<lambda>n. Inr [of_nat (48 + n)] :: (u8 list, unit) result"
  let ?from = "\<lambda>l. Inr (unat (hd l) - 48) :: (nat, unit) result"
  have "concat [[49], [10, 50, 10]] = concat (map (frame_of ?to) [1, 2])"
    by (simp add: frame_of_def encode_def newline_def)
  moreover have "\<forall>m \<in> set [1, 2]. codec_law ?to ?from m"
    by (auto simp: codec_law_def newline_def is_ascii_whitespace_def)
  moreover have "\<forall>m \<in> set [1, 2 :: nat]. length (frame_of ?to m) + 65535 \<le> MAX_FRAME_BYTES"
    by (simp add: frame_of_def encode_def MAX_FRAME_BYTES_def)
  moreover have "\<forall>c \<in> set [[49], [10, 50, 10 :: u8]]. c \<noteq> [] \<and> length c \<le> 65536"
    by simp
  ultimately have "\<exists>reads buf. recv_many ?from (length [1, 2 :: nat])
       (map Inr [[49], [10, 50, 10]] @ [Inr []] :: (u8 list, unit) result list) decoder_new = Some ([1, 2], reads, buf)
     \<and> recv_inner ?from reads buf = Some (Inr None, [], [])"
    by (rule framing_round_trip)
  then show ?thesis by (simp only: list.size One_nat_def numeral_2_eq_2 add_Suc add_0_right add_0)
qed

end
