(* ===== verification/Paths.thy ===== *)
theory Paths
  imports Rbs_Prelude
begin

text \<open>
  The functions of \<open>std::path\<close> the program uses, on the text of a path. A path is read as
  its list of components, with the root as the component \<open>/\<close>: repeated separators, trailing
  separators and inner \<open>.\<close> components disappear, as \<open>Path::components\<close> documents. Where Rust
  returns a slice of the original text (\<open>parent\<close>, \<open>strip_prefix\<close>), the model returns the
  components written out again, which Rust's \<open>Path\<close> comparison identifies with it.
\<close>

definition SLASH :: string where "SLASH = ''/''"

definition is_sep :: "char \<Rightarrow> bool" where
  "is_sep c \<longleftrightarrow> c = CHR ''/''"

definition is_absolute :: "path \<Rightarrow> bool" where
  "is_absolute p \<longleftrightarrow> starts_with SLASH p"

fun drop_cur_dirs :: "string list \<Rightarrow> string list" where
  "drop_cur_dirs [] = []"
| "drop_cur_dirs (c # cs) = c # filter (\<lambda>x. x \<noteq> ''.'') cs"

definition components :: "path \<Rightarrow> string list" where
  "components p =
     (let cs = filter (\<lambda>c. c \<noteq> []) (split_by is_sep p) in
      if is_absolute p then SLASH # filter (\<lambda>x. x \<noteq> ''.'') cs
      else (case split_by is_sep p of
              [] \<Rightarrow> []
            | c # _ \<Rightarrow> if c = ''.'' then drop_cur_dirs cs else filter (\<lambda>x. x \<noteq> ''.'') cs))"

fun render_components :: "string list \<Rightarrow> path" where
  "render_components [] = []"
| "render_components (c # cs) = (if c = SLASH then SLASH @ join SLASH cs else join SLASH (c # cs))"

definition path_join :: "path \<Rightarrow> path \<Rightarrow> path" where
  "path_join a b =
     (if is_absolute b then b
      else if a = [] \<or> is_sep (last a) then a @ b
      else a @ SLASH @ b)"

definition path_parent :: "path \<Rightarrow> path option" where
  "path_parent p =
     (let cs = components p in
      if cs = [] \<or> last cs = SLASH then None else Some (render_components (butlast cs)))"

definition path_strip_prefix :: "path \<Rightarrow> path \<Rightarrow> path option" where
  "path_strip_prefix base p =
     (let bs = components base; cs = components p in
      if take (length bs) cs = bs then Some (render_components (drop (length bs) cs)) else None)"

definition path_starts_with :: "path \<Rightarrow> path \<Rightarrow> bool" where
  "path_starts_with base p \<longleftrightarrow> take (length (components base)) (components p) = components base"

definition file_name :: "path \<Rightarrow> string option" where
  "file_name p =
     (let cs = components p in
      if cs = [] \<or> last cs \<in> {SLASH, ''.'', ''..''} then None else Some (last cs))"

text \<open>\<open>Path::ancestors\<close>: the path itself, then its parent, and so on to the root.\<close>

definition ancestors :: "path \<Rightarrow> path list" where
  "ancestors p =
     (let cs = components p; low = (if is_absolute p then 1 else 0) in
      p # map (\<lambda>n. render_components (take n cs)) (rev [low..<length cs]))"

section \<open>Examples from the documentation of the standard library\<close>

lemma path_examples:
  "path_join ''/etc'' ''passwd'' = ''/etc/passwd''"
  "path_join ''/etc'' ''/bin/sh'' = ''/bin/sh''"
  "path_parent ''/foo/bar'' = Some ''/foo''"
  "path_parent ''/'' = None"
  "ancestors ''/foo/bar'' = [''/foo/bar'', ''/foo'', ''/'']"
  "ancestors ''../foo/bar'' = [''../foo/bar'', ''../foo'', ''..'', '''']"
  "path_strip_prefix ''/test'' ''/test/haha/foo.txt'' = Some ''haha/foo.txt''"
  "path_strip_prefix ''/test'' ''/testing'' = None"
  "file_name ''/usr/bin/'' = Some ''bin''"
  "file_name ''/'' = None"
  by code_simp+

section \<open>Facts\<close>

lemma path_join_absolute: "is_absolute a \<Longrightarrow> is_absolute (path_join a b)"
  by (auto simp: path_join_def is_absolute_def starts_with_def SLASH_def take_Cons' split: if_splits)

lemma ancestors_self: "p \<in> set (ancestors p)"
  by (simp add: ancestors_def Let_def)

end
