(* ===== verification/Config.thy ===== *)
theory Config
  imports Proto Paths "HOL-Library.AList"
begin

text \<open>
  Layered configuration: \<open>crates/rbs-config\<close> (\<open>lib.rs\<close>, \<open>layers.rs\<close>, \<open>env.rs\<close>).

  The TOML parser and the deserialiser are the crate \<open>toml\<close>: parameters \<open>parse_toml\<close> and
  \<open>deser\<close>. A TOML value is a table or a leaf of an unspecified type \<open>'v\<close>; a table is an
  association list with distinct keys. The process environment and the file system are the
  lookup functions the definitions take.
\<close>

section \<open>The configuration record (\<open>lib.rs\<close>)\<close>

datatype ('io) config_error =
    CfgRead path 'io
  | CfgParse path string
  | CfgEnv string string
  | CfgNoHome

datatype mode = Auto | Remote | Local | Plain

definition mode_from_str :: "string \<Rightarrow> (mode, string) result" where
  "mode_from_str s =
     (if s = ''auto'' then Ok Auto
      else if s = ''remote'' then Ok Remote
      else if s = ''local'' then Ok Local
      else if s = ''plain'' then Ok Plain
      else Err (''unknown mode `'' @ s @ ''` (expected auto|remote|local|plain)''))"

datatype post_build = PullAndLink | NoPostBuild

record remote_cfg =
  rm_host :: string
  rm_enabled :: bool
  rm_max_rtt_ms :: u64
  rm_connect_timeout_ms :: u64
  rm_remote_bin :: string

definition remote_default :: remote_cfg where
  "remote_default = \<lparr> rm_host = ''node0'', rm_enabled = True, rm_max_rtt_ms = 40,
     rm_connect_timeout_ms = 3000, rm_remote_bin = ''.local/bin/rbs'' \<rparr>"

record local_server_cfg =
  ls_enabled :: bool
  ls_socket :: path
  ls_autostart :: bool

definition local_server_default :: local_server_cfg where
  "local_server_default = \<lparr> ls_enabled = True, ls_socket = ''~/.local/state/rbs/server.sock'',
     ls_autostart = True \<rparr>"

record policy_cfg =
  po_mode :: mode
  po_local_subcommands :: "string list"
  po_post_build :: post_build
  po_env_allowlist :: "string list"
  po_priority :: priority

definition policy_default :: policy_cfg where
  "policy_default = \<lparr> po_mode = Auto, po_local_subcommands = [''run''], po_post_build = PullAndLink,
     po_env_allowlist = [''CARGO_*'', ''RUST*'', ''CC'', ''CXX'', ''PKG_CONFIG_*'', ''SQLX_OFFLINE'',
       ''DATABASE_URL''],
     po_priority = Agent \<rparr>"

record server_cfg =
  sv_tokens :: u32
  sv_reserve_cores :: u32
  sv_max_jobs :: u32
  sv_min_mem_available_gib :: u32
  sv_job_mem_max_gib :: u32
  sv_queue_limit :: u32
  sv_job_timeout_secs :: u64

definition server_default :: server_cfg where
  "server_default = \<lparr> sv_tokens = 0, sv_reserve_cores = 2, sv_max_jobs = 8,
     sv_min_mem_available_gib = 8, sv_job_mem_max_gib = 24, sv_queue_limit = 32,
     sv_job_timeout_secs = 3600 \<rparr>"

record store_cfg =
  so_max_size_gib :: u32
  so_low_watermark_percent :: u8
  so_min_age_hours :: u32
  so_touch :: bool
  so_touch_after_hours :: u32

definition store_default :: store_cfg where
  "store_default = \<lparr> so_max_size_gib = 40, so_low_watermark_percent = 90, so_min_age_hours = 24,
     so_touch = True, so_touch_after_hours = 24 \<rparr>"

record sync_cfg =
  sy_rsync_path :: string
  sy_extra_excludes :: "string list"
  sy_force_include :: "string list"

definition sync_default :: sync_cfg where
  "sync_default = \<lparr> sy_rsync_path = ''rsync'', sy_extra_excludes = [], sy_force_include = [] \<rparr>"

record bootstrap_cfg =
  bs_server :: string
  bs_clients :: "string list"
  bs_push_secrets :: bool
  bs_toolchain :: string
  bs_kache_bin :: string
  bs_shim_on_path :: bool

definition bootstrap_default :: bootstrap_cfg where
  "bootstrap_default = \<lparr> bs_server = ''node0'', bs_clients = [], bs_push_secrets = False,
     bs_toolchain = [], bs_kache_bin = [], bs_shim_on_path = True \<rparr>"

record config =
  cfg_remote :: remote_cfg
  cfg_local_server :: local_server_cfg
  cfg_policy :: policy_cfg
  cfg_server :: server_cfg
  cfg_store :: store_cfg
  cfg_sync :: sync_cfg
  cfg_bootstrap :: bootstrap_cfg

definition config_default :: config where
  "config_default = \<lparr> cfg_remote = remote_default, cfg_local_server = local_server_default,
     cfg_policy = policy_default, cfg_server = server_default, cfg_store = store_default,
     cfg_sync = sync_default, cfg_bootstrap = bootstrap_default \<rparr>"

definition expand_tilde :: "path \<Rightarrow> path \<Rightarrow> path" where
  "expand_tilde p home = (case path_strip_prefix ''~'' p of Some rest \<Rightarrow> path_join home rest | None \<Rightarrow> p)"

definition expand_paths :: "config \<Rightarrow> path \<Rightarrow> config" where
  "expand_paths c home =
     c\<lparr>cfg_local_server := (cfg_local_server c)\<lparr>ls_socket := expand_tilde (ls_socket (cfg_local_server c)) home\<rparr>\<rparr>"

definition user_config_path :: "path \<Rightarrow> path option \<Rightarrow> path" where
  "user_config_path home xdg = path_join (unwrap_or (path_join home ''.config'') xdg) ''rbs/config.toml''"

definition find_project_config :: "(path \<Rightarrow> bool) \<Rightarrow> path \<Rightarrow> path option" where
  "find_project_config is_file start = find is_file (map (\<lambda>d. path_join d ''.rbs.toml'') (ancestors start))"

section \<open>Layers (\<open>layers.rs\<close>)\<close>

datatype 'v toml = TLeaf 'v | TTable "(string \<times> 'v toml) list"

type_synonym 'v table = "(string \<times> 'v toml) list"

record 'v layer =
  ly_path :: path
  ly_table :: "'v table"

definition layer_parse ::
  "(string \<Rightarrow> ('v table, string) result) \<Rightarrow> path \<Rightarrow> string \<Rightarrow> ('v layer, 'io config_error) result" where
  "layer_parse parse_toml p text =
     and_then (map_err (CfgParse p) (parse_toml text)) (\<lambda>t. Ok \<lparr> ly_path = p, ly_table = t \<rparr>)"

text \<open>Reading a file: its text, an absent file, or another I/O error.\<close>

datatype 'io file_read = FileText string | FileNotFound | FileError 'io

definition read_optional ::
  "(string \<Rightarrow> ('v table, string) result) \<Rightarrow> (path \<Rightarrow> 'io file_read) \<Rightarrow> path
     \<Rightarrow> ('v layer option, 'io config_error) result" where
  "read_optional parse_toml fs p =
     (case fs p of
        FileText text \<Rightarrow> and_then (layer_parse parse_toml p text) (\<lambda>l. Ok (Some l))
      | FileNotFound \<Rightarrow> Ok None
      | FileError e \<Rightarrow> Err (CfgRead p e))"

fun deep_merge :: "'v table \<Rightarrow> 'v table \<Rightarrow> 'v table" where
  "deep_merge base [] = base"
| "deep_merge base ((k, v) # over) =
     deep_merge
       (case (map_of base k, v) of
          (Some (TTable b), TTable ov) \<Rightarrow> AList.update k (TTable (deep_merge b ov)) base
        | _ \<Rightarrow> AList.update k v base)
       over"

definition merge_tables :: "'v layer list \<Rightarrow> 'v table" where
  "merge_tables layers = foldl (\<lambda>merged l. deep_merge merged (ly_table l)) [] layers"

definition merge_layers ::
  "('v table \<Rightarrow> (config, string) result) \<Rightarrow> 'v layer list \<Rightarrow> (config, 'io config_error) result" where
  "merge_layers deser layers =
     map_err (CfgParse (if layers = [] then ''<defaults>'' else ly_path (last layers)))
       (deser (merge_tables layers))"

section \<open>Environment (\<open>env.rs\<close>)\<close>

record env_overrides =
  eo_mode :: "mode option"
  eo_remote_host :: "string option"
  eo_priority :: "priority option"

definition is_truthy :: "string \<Rightarrow> bool" where
  "is_truthy v \<longleftrightarrow> map to_lower (trim v) \<in> {''1'', ''true'', ''yes'', ''on''}"

definition from_lookup :: "(string \<Rightarrow> string option) \<Rightarrow> (env_overrides, 'io config_error) result" where
  "from_lookup lookup =
     and_then (case lookup ''RBS_MODE'' of
                 None \<Rightarrow> Ok None
               | Some m \<Rightarrow> and_then (map_err (CfgEnv ''RBS_MODE'') (mode_from_str m)) (\<lambda>x. Ok (Some x)))
     (\<lambda>m0. let md = (if m0 = None \<and> (case lookup ''RBS_LOCAL'' of None \<Rightarrow> False | Some v \<Rightarrow> is_truthy v)
                     then Some Local else m0);
               h = option_filter (\<lambda>h. h \<noteq> []) (lookup ''RBS_REMOTE_HOST'')
           in and_then (case lookup ''RBS_PRIORITY'' of
                          None \<Rightarrow> Ok None
                        | Some p \<Rightarrow> and_then (map_err (CfgEnv ''RBS_PRIORITY'') (priority_from_str p)) (\<lambda>x. Ok (Some x)))
              (\<lambda>p. Ok \<lparr> eo_mode = md, eo_remote_host = h, eo_priority = p \<rparr>))"

definition apply_overrides :: "env_overrides \<Rightarrow> config \<Rightarrow> config" where
  "apply_overrides o' c =
     (let c1 = (case eo_mode o' of None \<Rightarrow> c | Some m \<Rightarrow> c\<lparr>cfg_policy := (cfg_policy c)\<lparr>po_mode := m\<rparr>\<rparr>);
          c2 = (case eo_remote_host o' of None \<Rightarrow> c1 | Some h \<Rightarrow> c1\<lparr>cfg_remote := (cfg_remote c1)\<lparr>rm_host := h\<rparr>\<rparr>)
      in (case eo_priority o' of None \<Rightarrow> c2 | Some p \<Rightarrow> c2\<lparr>cfg_policy := (cfg_policy c2)\<lparr>po_priority := p\<rparr>\<rparr>))"

definition env_allowed :: "string \<Rightarrow> string list \<Rightarrow> bool" where
  "env_allowed name allowlist \<longleftrightarrow>
     list_ex (\<lambda>pat. case strip_suffix ''*'' pat of Some pre \<Rightarrow> starts_with pre name | None \<Rightarrow> name = pat) allowlist"

definition NEVER_FORWARD :: "string list" where
  "NEVER_FORWARD = [''RUSTUP_HOME'', ''CARGO_HOME'', ''RUSTUP_TOOLCHAIN'', ''CARGO_TARGET_DIR'']"

text \<open>Collecting into a \<open>BTreeMap\<close>: the last binding of a name wins.\<close>

definition filter_env :: "(string \<times> string) list \<Rightarrow> string list \<Rightarrow> string \<rightharpoonup> string" where
  "filter_env vars allowlist =
     map_of (rev (filter (\<lambda>(k, v). k \<notin> set NEVER_FORWARD \<and> env_allowed k allowlist) vars))"

section \<open>Loading (\<open>lib.rs\<close>)\<close>

definition load ::
  "(string \<Rightarrow> ('v table, string) result) \<Rightarrow> ('v table \<Rightarrow> (config, string) result)
     \<Rightarrow> (path \<Rightarrow> 'io file_read) \<Rightarrow> (path \<Rightarrow> bool) \<Rightarrow> (string \<Rightarrow> string option) \<Rightarrow> path
     \<Rightarrow> (config, 'io config_error) result" where
  "load parse_toml deser fs is_file env cwd =
     and_then (ok_or CfgNoHome (env ''HOME'')) (\<lambda>home.
       let xdg = env ''XDG_CONFIG_HOME'';
           user_path = (case env ''RBS_CONFIG'' of Some p \<Rightarrow> p | None \<Rightarrow> user_config_path home xdg)
       in and_then (read_optional parse_toml fs user_path) (\<lambda>user.
            and_then (case find_project_config is_file cwd of
                        None \<Rightarrow> Ok None
                      | Some p \<Rightarrow> read_optional parse_toml fs p) (\<lambda>project.
              and_then (merge_layers deser (List.map_filter id [user, project])) (\<lambda>cfg.
                and_then (from_lookup env) (\<lambda>o'.
                  Ok (expand_paths (apply_overrides o' cfg) home))))))"

section \<open>Facts about merging\<close>

text \<open>Looking a dotted key up in a table.\<close>

fun tget :: "'v table \<Rightarrow> string list \<Rightarrow> 'v toml option" where
  "tget t [] = Some (TTable t)"
| "tget t (k # ks) =
     (case map_of t k of
        None \<Rightarrow> None
      | Some (TTable t') \<Rightarrow> tget t' ks
      | Some (TLeaf v) \<Rightarrow> (if ks = [] then Some (TLeaf v) else None))"

inductive wf_toml :: "'v toml \<Rightarrow> bool" where
  wf_leaf: "wf_toml (TLeaf v)"
| wf_table: "distinct (map fst t) \<Longrightarrow> (\<And>k v. (k, v) \<in> set t \<Longrightarrow> wf_toml v) \<Longrightarrow> wf_toml (TTable t)"

inductive_simps wf_toml_table [simp]: "wf_toml (TTable t)"

definition merge_value :: "'v toml option \<Rightarrow> 'v toml \<Rightarrow> 'v toml" where
  "merge_value b v =
     (case (b, v) of (Some (TTable bt), TTable ov) \<Rightarrow> TTable (deep_merge bt ov) | _ \<Rightarrow> v)"

lemma deep_merge_Cons:
  "deep_merge base ((k, v) # over) = deep_merge (AList.update k (merge_value (map_of base k) v) base) over"
  by (auto simp: merge_value_def split: option.splits toml.splits)

lemma map_of_deep_merge:
  "distinct (map fst over) \<Longrightarrow>
     map_of (deep_merge base over) k =
       (case map_of over k of None \<Rightarrow> map_of base k | Some v \<Rightarrow> Some (merge_value (map_of base k) v))"
proof (induction over arbitrary: base)
  case Nil
  then show ?case by simp
next
  case (Cons kv over)
  obtain k' v where kv: "kv = (k', v)" by force
  have "k' \<notin> dom (map_of over)" using Cons.prems kv by (auto simp: dom_map_of_conv_image_fst)
  then have "map_of over k' = None" by auto
  then show ?case
    using Cons.prems unfolding kv deep_merge_Cons
    by (subst Cons.IH) (auto simp: update_conv split: option.splits)
qed

definition tget_value :: "'v toml \<Rightarrow> string list \<Rightarrow> 'v toml option" where
  "tget_value v ks =
     (case v of TTable t \<Rightarrow> tget t ks | TLeaf x \<Rightarrow> (if ks = [] then Some (TLeaf x) else None))"

lemma tget_Cons: "tget t (k # ks) = (case map_of t k of None \<Rightarrow> None | Some v \<Rightarrow> tget_value v ks)"
  by (auto simp: tget_value_def split: option.splits toml.splits)

lemma tget_value_leaf:
  "ks \<noteq> [] \<Longrightarrow> tget_value (TTable t) ks = tget t ks"
  by (simp add: tget_value_def)

text \<open>
  A table \<open>over\<close> leaves a key path alone when none of its prefixes is set by it to something
  else than a table.
\<close>

fun silent :: "'v table \<Rightarrow> string list \<Rightarrow> bool" where
  "silent over [] = False"
| "silent over (k # ks) =
     (case map_of over k of
        None \<Rightarrow> True
      | Some (TTable t) \<Rightarrow> silent t ks
      | Some (TLeaf v) \<Rightarrow> False)"

lemma wf_lookup: "wf_toml (TTable t) \<Longrightarrow> map_of t k = Some v \<Longrightarrow> wf_toml v"
  using map_of_SomeD by (fastforce simp: wf_toml_table)

lemma deep_merge_override:
  "wf_toml (TTable over) \<Longrightarrow> tget over ks = Some (TLeaf v) \<Longrightarrow> tget (deep_merge base over) ks = Some (TLeaf v)"
proof (induction ks arbitrary: base over)
  case Nil
  then show ?case by simp
next
  case (Cons k ks)
  from Cons.prems(2) obtain x where x: "map_of over k = Some x" "tget_value x ks = Some (TLeaf v)"
    unfolding tget_Cons by (cases "map_of over k") simp_all
  have wx: "wf_toml x" using Cons.prems(1) x(1) by (rule wf_lookup)
  have "tget_value (merge_value (map_of base k) x) ks = Some (TLeaf v)"
    using Cons.IH wx x(2)
    by (auto simp: merge_value_def tget_value_def split: option.splits toml.splits)
  then show ?case
    using Cons.prems x(1) by (simp add: tget_Cons map_of_deep_merge del: tget.simps)
qed

lemma deep_merge_silent:
  "wf_toml (TTable over) \<Longrightarrow> silent over ks \<Longrightarrow>
     (\<exists>v. tget base ks = Some (TLeaf v)) \<Longrightarrow> tget (deep_merge base over) ks = tget base ks"
proof (induction ks arbitrary: base over)
  case Nil
  then show ?case by simp
next
  case (Cons k ks)
  show ?case
  proof (cases "map_of over k")
    case None
    with Cons.prems show ?thesis by (simp add: tget_Cons map_of_deep_merge)
  next
    case (Some x)
    with Cons.prems(2) obtain t where t: "x = TTable t" "silent t ks"
      by (auto split: toml.splits)
    have wt: "wf_toml (TTable t)" using wf_lookup [OF Cons.prems(1) Some] t(1) by simp
    from t(2) have "ks \<noteq> []" by auto
    with Cons.prems(3) obtain b where b: "map_of base k = Some (TTable b)" "\<exists>v. tget b ks = Some (TLeaf v)"
      by (auto split: option.splits toml.splits)
    show ?thesis
      using Cons.IH [OF wt t(2) b(2)] Some t(1) b(1) Cons.prems(1)
      by (simp add: map_of_deep_merge merge_value_def)
  qed
qed

lemma merge_tables_snoc:
  "merge_tables (layers @ [l]) = deep_merge (merge_tables layers) (ly_table l)"
  by (simp add: merge_tables_def)

section \<open>Properties\<close>

text \<open>
  C8. Later layers win key by key: when a layer sets a key (at any depth) to a value and no
  later layer sets that key or replaces one of the tables around it, the merged document has
  that layer's value at the key, whatever the earlier layers say.
\<close>
theorem last_layer_wins:
  assumes "wf_toml (TTable (ly_table l))" and "tget (ly_table l) ks = Some (TLeaf v)"
    and "\<forall>l' \<in> set later. wf_toml (TTable (ly_table l')) \<and> silent (ly_table l') ks"
  shows "tget (merge_tables (earlier @ l # later)) ks = Some (TLeaf v)"
  using assms(3)
proof (induction later rule: rev_induct)
  case Nil
  have "merge_tables (earlier @ [l]) = deep_merge (merge_tables earlier) (ly_table l)"
    by (rule merge_tables_snoc)
  then show ?case using assms(1,2) by (simp add: deep_merge_override del: wf_toml_table)
next
  case (snoc l' later)
  have "merge_tables (earlier @ l # later @ [l']) = deep_merge (merge_tables (earlier @ l # later)) (ly_table l')"
    using merge_tables_snoc [of "earlier @ l # later"] by simp
  with snoc show ?case by (simp add: deep_merge_silent del: wf_toml_table)
qed

theorem last_layer_wins_witness:
  "tget (merge_tables
     ([\<lparr> ly_path = ''a'', ly_table = [(''remote'', TTable [(''host'', TLeaf (1 :: int)), (''x'', TLeaf 7)])] \<rparr>] @
      \<lparr> ly_path = ''b'', ly_table = [(''remote'', TTable [(''host'', TLeaf 2)])] \<rparr> #
      [\<lparr> ly_path = ''c'', ly_table = [(''remote'', TTable [(''y'', TLeaf 3)])] \<rparr>])) [''remote'', ''host'']
   = Some (TLeaf 2)"
  by (rule last_layer_wins) (auto simp: wf_leaf)

text \<open>
  What the environment decides: in a configuration that loads, \<open>RBS_MODE\<close> (which has to
  be a valid mode) decides the mode over every file; without it a truthy \<open>RBS_LOCAL\<close> makes it
  \<open>local\<close>; a non-empty \<open>RBS_REMOTE_HOST\<close> decides the host and \<open>RBS_PRIORITY\<close> the priority.
\<close>
lemma load_env_precedence:
  fixes fs :: "path \<Rightarrow> 'io file_read"
  assumes "load parse_toml deser fs is_file env cwd = Inr cfg"
  shows "(case env ''RBS_MODE'' of
            Some m \<Rightarrow> mode_from_str m = Inr (po_mode (cfg_policy cfg))
          | None \<Rightarrow> (case env ''RBS_LOCAL'' of
                       Some v \<Rightarrow> (if is_truthy v then po_mode (cfg_policy cfg) = Local else True)
                     | None \<Rightarrow> True))
       \<and> (case env ''RBS_REMOTE_HOST'' of Some h \<Rightarrow> (if h = [] then True else rm_host (cfg_remote cfg) = h) | None \<Rightarrow> True)
       \<and> (case env ''RBS_PRIORITY'' of Some p \<Rightarrow> priority_from_str p = Inr (po_priority (cfg_policy cfg)) | None \<Rightarrow> True)"
proof -
  obtain o' c home where o: "from_lookup env = (Inr o' :: (env_overrides, 'io config_error) result)"
      and c: "cfg = expand_paths (apply_overrides o' c) home"
    using assms by (auto simp: load_def Let_def)
  show ?thesis
    using o unfolding c
    by (auto simp: from_lookup_def Let_def expand_paths_def apply_overrides_def split: option.splits if_splits)
qed

text \<open>
  C9. The environment that travels with a job: a variable is forwarded exactly when it is set,
  is not one of the four host-specific names and matches an allowlist pattern; the forwarded
  value is that of its last binding.
\<close>
theorem filter_env_spec:
  "filter_env vars allowlist k =
     (if k \<in> {''RUSTUP_HOME'', ''CARGO_HOME'', ''RUSTUP_TOOLCHAIN'', ''CARGO_TARGET_DIR''} then None
      else if \<exists>pat \<in> set allowlist. k = pat \<and> \<not> suffix ''*'' pat \<or> (\<exists>p. pat = p @ ''*'' \<and> prefix p k)
      then map_of (rev vars) k else None)"
proof -
  have allowed: "(case strip_suffix ''*'' pat of Some pre \<Rightarrow> starts_with pre k | None \<Rightarrow> k = pat)
      \<longleftrightarrow> k = pat \<and> \<not> suffix ''*'' pat \<or> (\<exists>p. pat = p @ ''*'' \<and> prefix p k)" for pat
  proof (cases "strip_suffix ''*'' pat")
    case None
    then have "\<not> suffix ''*'' pat"
      by (auto simp: suffix_def)
    with None show ?thesis by (auto simp: suffix_def)
  qed (auto simp: suffix_def starts_with_prefix)
  have "env_allowed k allowlist \<longleftrightarrow>
      (\<exists>pat \<in> set allowlist. k = pat \<and> \<not> suffix ''*'' pat \<or> (\<exists>p. pat = p @ ''*'' \<and> prefix p k))"
    unfolding env_allowed_def list_ex_iff by (rule bex_cong) (simp_all only: allowed)
  moreover have "map_of (filter (\<lambda>(k, v). P k) xs) k = (if P k then map_of xs k else None)"
    for P and xs :: "(string \<times> string) list"
    by (induction xs) auto
  ultimately show ?thesis
    by (simp add: filter_env_def rev_filter NEVER_FORWARD_def)
qed

end
