(* ===== verification/Host.thy ===== *)
theory Host
  imports Config
begin

unbundle bit_operations_syntax

text \<open>
  What the server reads from and keeps on its host: \<open>sysinfo.rs\<close>, \<open>jobserver.rs\<close> and the
  sizing helpers of \<open>rbs-server/src/lib.rs\<close>. The parser of floating-point text is a parameter.
\<close>

section \<open>Resource snapshots (\<open>sysinfo.rs\<close>)\<close>

record snapshot =
  mem_available_bytes :: u64
  load1 :: f32

definition UNKNOWN :: snapshot where
  "UNKNOWN = \<lparr> mem_available_bytes = - 1, load1 = F32 0 \<rparr>"

definition checked_mul :: "u64 \<Rightarrow> nat \<Rightarrow> u64 option" where
  "checked_mul a m = (if unat a * m < 2 ^ 64 then Some (a * of_nat m) else None)"

definition mem_multiplier :: "string \<Rightarrow> nat option" where
  "mem_multiplier unit =
     (if unit \<in> {''kB'', ''KB'', ''kiB'', ''KiB''} then Some 1024
      else if unit \<in> {''mB'', ''MB'', ''MiB''} then Some (1024 * 1024)
      else if unit = ''B'' then Some 1 else None)"

definition parse_mem_line :: "string \<Rightarrow> u64 option" where
  "parse_mem_line rest =
     (case split_whitespace rest of
        [] \<Rightarrow> None
      | v # ws \<Rightarrow>
          Option.bind (parse_u64 v) (\<lambda>value.
            Option.bind (mem_multiplier (case ws of [] \<Rightarrow> ''kB'' | u # _ \<Rightarrow> u)) (checked_mul value)))"

fun parse_mem_lines :: "string list \<Rightarrow> u64 option" where
  "parse_mem_lines [] = None"
| "parse_mem_lines (l # ls) =
     (case strip_prefix ''MemAvailable:'' l of
        None \<Rightarrow> parse_mem_lines ls
      | Some rest \<Rightarrow> parse_mem_line rest)"

definition parse_mem_available :: "string \<Rightarrow> u64 option" where
  "parse_mem_available text = parse_mem_lines (lines text)"

definition parse_load1 :: "(string \<Rightarrow> f32 option) \<Rightarrow> string \<Rightarrow> f32 option" where
  "parse_load1 parse_f32 text = (case split_whitespace text of [] \<Rightarrow> None | w # _ \<Rightarrow> parse_f32 w)"

definition take_snapshot :: "(string \<Rightarrow> f32 option) \<Rightarrow> (path \<Rightarrow> string option) \<Rightarrow> snapshot" where
  "take_snapshot parse_f32 read_proc =
     \<lparr> mem_available_bytes = unwrap_or (mem_available_bytes UNKNOWN)
         (Option.bind (read_proc ''/proc/meminfo'') parse_mem_available),
       load1 = unwrap_or (load1 UNKNOWN) (Option.bind (read_proc ''/proc/loadavg'') (parse_load1 parse_f32)) \<rparr>"

section \<open>The jobserver pool (\<open>jobserver.rs\<close>)\<close>

datatype ('io, 'je) server_error =
    NoParent path
  | CreateDir path 'io
  | RemoveStale path 'io
  | Bind path 'io
  | Chmod path 'io
  | Mkfifo path 'io
  | OpenFifo path 'io
  | FillFifo path 'io
  | ServerIo 'io
  | ServerFrame 'je
  | ServerConnect path 'io
  | ServerSignal 'io

definition FIFO_NAME :: string where "FIFO_NAME = ''jobserver.fifo''"

text \<open>
  The FIFO's content is the list of its bytes; the outcomes of the four system calls are
  arguments: removing a stale FIFO (\<open>Some (Some e)\<close> an error, \<open>Some None\<close> not found), creating
  it, opening it and filling it.
\<close>

record job_server =
  js_path :: path
  js_total :: u32
  js_fifo :: "u8 list"

datatype 'io remove_outcome = Removed | NotFound | RemoveFailed 'io

definition create_jobserver ::
  "'io remove_outcome \<Rightarrow> 'io option \<Rightarrow> 'io option \<Rightarrow> 'io option \<Rightarrow> path \<Rightarrow> u32
     \<Rightarrow> (job_server, ('io, 'je) server_error) result" where
  "create_jobserver removed mkfifo_err open_err write_err dir tokens =
     (let p = path_join dir FIFO_NAME in
      case removed of
        RemoveFailed e \<Rightarrow> Err (RemoveStale p e)
      | _ \<Rightarrow> (case mkfifo_err of Some e \<Rightarrow> Err (Mkfifo p e) | None \<Rightarrow>
             (case open_err of Some e \<Rightarrow> Err (OpenFifo p e) | None \<Rightarrow>
             (case write_err of Some e \<Rightarrow> Err (FillFifo p e) | None \<Rightarrow>
                Ok \<lparr> js_path = p, js_total = tokens, js_fifo = replicate (unat tokens) 43 \<rparr>))))"

definition saturating_sub :: "'a::len word \<Rightarrow> 'a word \<Rightarrow> 'a word" where
  "saturating_sub a b = (if b \<le> a then a - b else 0)"

definition u32_of_usize :: "usize \<Rightarrow> u32" where
  "u32_of_usize n = (if n < 2 ^ 32 then of_nat n else - 1)"

definition js_tokens_free :: "job_server \<Rightarrow> usize \<Rightarrow> u32" where
  "js_tokens_free js running_jobs = saturating_sub (js_total js) (u32_of_usize running_jobs)"

definition makeflags :: "job_server \<Rightarrow> string" where
  "makeflags js = ''--jobserver-auth=fifo:'' @ js_path js"

section \<open>Sizing (\<open>lib.rs\<close>)\<close>

definition available_parallelism :: "usize option \<Rightarrow> u32" where
  "available_parallelism n = (case n of Some k \<Rightarrow> u32_of_usize k | None \<Rightarrow> 1)"

definition resolve_tokens :: "u32 option \<Rightarrow> server_cfg \<Rightarrow> u32 \<Rightarrow> u32" where
  "resolve_tokens override server nproc =
     (let configured = unwrap_or (sv_tokens server) override in
      if configured > 0 then configured
      else max (saturating_sub nproc (sv_reserve_cores server)) 1)"

section \<open>Facts\<close>

lemma unat_saturating_sub: "unat (saturating_sub a b) = unat a - unat b"
  by (auto simp: saturating_sub_def unat_sub word_le_nat_alt)

lemma unat_u32_of_usize: "unat (u32_of_usize n) = min n (2 ^ 32 - 1)"
proof (cases "n < 2 ^ 32")
  case True
  then show ?thesis by (simp add: u32_of_usize_def unat_of_nat)
next
  case False
  then show ?thesis by (simp add: u32_of_usize_def unat_max_u32)
qed

lemma checked_mul_exact: "checked_mul a m = Some r \<Longrightarrow> unat r = unat a * m"
  by (auto simp: checked_mul_def unat_word_ariths unat_of_nat mod_mult_right_eq split: if_splits)

lemma split_whitespace_skip: "is_ws c \<Longrightarrow> split_whitespace (c # s) = split_whitespace s"
  by (simp add: split_whitespace_def)

lemma split_whitespace_spaces: "split_whitespace (replicate k (CHR '' '') @ s) = split_whitespace s"
  by (induction k) (simp_all add: split_whitespace_skip is_ws_def)

lemma split_whitespace_word:
  "\<forall>c \<in> set w. \<not> is_ws c \<Longrightarrow> w \<noteq> [] \<Longrightarrow> is_ws d \<Longrightarrow> split_whitespace (w @ d # s) = w # split_whitespace s"
  by (simp add: split_whitespace_def split_by_append)

lemma digit_not_ws: "is_digit c \<Longrightarrow> \<not> is_ws c"
  by (auto simp: is_digit_def is_ws_def less_eq_char_def)

lemma parse_mem_line_kB:
  assumes "n < 2 ^ 64"
  shows "parse_mem_line (replicate k (CHR '' '') @ show_nat n @ '' kB'') = checked_mul (of_nat n) 1024"
proof -
  have "\<forall>c \<in> set (show_nat n). \<not> is_ws c"
    using show_nat_digits [of n] by (auto simp: list_all_iff digit_not_ws)
  then have "split_whitespace (show_nat n @ CHR '' '' # ''kB'') = show_nat n # split_whitespace ''kB''"
    by (intro split_whitespace_word) (simp_all add: is_ws_def)
  moreover have "split_whitespace ''kB'' = [''kB'']" by code_simp
  ultimately show ?thesis
    using assms
    by (simp add: parse_mem_line_def split_whitespace_spaces parse_u64_def parse_show_nat mem_multiplier_def)
qed

lemma parse_mem_lines_first:
  "\<forall>l \<in> set before. \<not> prefix ''MemAvailable:'' l \<Longrightarrow>
     parse_mem_lines (before @ (''MemAvailable:'' @ rest) # after) = parse_mem_line rest"
proof (induction before)
  case Nil
  have "strip_prefix ''MemAvailable:'' (''MemAvailable:'' @ rest) = Some rest" by (rule strip_prefix_append)
  then show ?case by (simp only: append_Nil parse_mem_lines.simps option.case)
next
  case (Cons l before)
  then have "strip_prefix ''MemAvailable:'' l = None"
    by (auto simp: strip_prefix_def starts_with_prefix)
  with Cons show ?case by simp
qed

section \<open>Properties\<close>

text \<open>
  Reading the kernel's memory report: in a \<open>/proc/meminfo\<close> whose first \<open>MemAvailable:\<close>
  line gives \<open>n\<close> kB, the snapshot's available memory is \<open>1024 * n\<close> bytes, or the "unlimited"
  fallback \<open>u64::MAX\<close> when that does not fit 64 bits; it never wraps.
\<close>
lemma snapshot_mem_available:
  assumes "read_proc ''/proc/meminfo''
      = Some (concat (map (\<lambda>l. l @ [NL]) (before @ [''MemAvailable:'' @ replicate k (CHR '' '') @ show_nat n @ '' kB'']) ) @ tl')"
    and "list_all clean_line before" and "\<forall>l \<in> set before. \<not> prefix ''MemAvailable:'' l"
    and "n < 2 ^ 64"
  shows "unat (mem_available_bytes (take_snapshot parse_f32 read_proc)) =
           (if n * 1024 < 2 ^ 64 then n * 1024 else 2 ^ 64 - 1)"
proof -
  let ?l = "''MemAvailable:'' @ replicate k (CHR '' '') @ show_nat n @ '' kB''"
  have "NL \<notin> set (show_nat n)"
    using show_nat_digits [of n] digit_not_ws [of NL] by (auto simp: list_all_iff is_ws_def)
  then have "clean_line ?l"
    by (auto simp: clean_line_def suffix_def append_eq_Cons_conv)
  then have "lines (concat (map (\<lambda>l. l @ [NL]) (before @ [?l])) @ tl') = (before @ [?l]) @ lines tl'"
    using assms(2) by (intro lines_unlines) simp
  then have "Option.bind (read_proc ''/proc/meminfo'') parse_mem_available = parse_mem_lines (before @ ?l # lines tl')"
    using assms(1) by (simp add: parse_mem_available_def)
  also have "\<dots> = checked_mul (of_nat n) 1024"
    using parse_mem_lines_first [OF assms(3), of "replicate k (CHR '' '') @ show_nat n @ '' kB''"]
      parse_mem_line_kB [OF assms(4)] by simp
  finally have m: "mem_available_bytes (take_snapshot parse_f32 read_proc)
      = unwrap_or (- 1) (checked_mul (of_nat n) 1024)"
    by (simp add: take_snapshot_def UNKNOWN_def)
  show ?thesis
  proof (cases "n * 1024 < 2 ^ 64")
    case True
    then have c: "checked_mul (of_nat n) 1024 = Some (of_nat n * of_nat 1024)"
      using assms(4) by (simp add: checked_mul_def unat_of_nat)
    show ?thesis using True checked_mul_exact [OF c] assms(4) unfolding m c by (simp add: unat_of_nat)
  next
    case False
    then have "checked_mul (of_nat n) 1024 = None"
      using assms(4) by (simp add: checked_mul_def unat_of_nat)
    then show ?thesis using False unfolding m by (simp add: unat_max_u64)
  qed
qed


text \<open>
  Sizing of the token pool: a positive override or configured size is taken as it is,
  otherwise the pool has the machine's cores less the reserved ones; it never has fewer than
  one token and the subtraction never wraps. The reported free tokens are the pool size less
  the running jobs, clamped at zero.
\<close>
lemma token_pool_size:
  "unat (resolve_tokens ov server nproc) =
     (if unat (unwrap_or (sv_tokens server) ov) > 0 then unat (unwrap_or (sv_tokens server) ov)
      else max 1 (unat nproc - unat (sv_reserve_cores server)))
   \<and> unat (js_tokens_free js running) = unat (js_total js) - running"
proof
  have "unat (max a b) = max (unat a) (unat b)" for a b :: u32
    by (simp add: max_def word_le_nat_alt)
  then show "unat (resolve_tokens ov server nproc) =
     (if unat (unwrap_or (sv_tokens server) ov) > 0 then unat (unwrap_or (sv_tokens server) ov)
      else max 1 (unat nproc - unat (sv_reserve_cores server)))"
    by (simp add: resolve_tokens_def Let_def unat_saturating_sub word_less_nat_alt max.commute)
  show "unat (js_tokens_free js running) = unat (js_total js) - running"
    by (simp add: js_tokens_free_def unat_saturating_sub unat_u32_of_usize min_def)
      (use unat_lt_u32 [of "js_total js"] in simp)
qed

end
