(* ===== verification/Scheduler.thy ===== *)
theory Scheduler
  imports Host
begin

text \<open>
  Admission and queueing: \<open>crates/rbs-server/src/scheduler.rs\<close>, operation by operation, as
  functions on the record \<open>scheduler\<close>. The queue is the source's vector.

  The contract the rest of the server relies on is the locale \<open>slot_pool\<close>; the scheduler
  interprets it. What the queue means to a user is the abstract specification with one FIFO
  lane per priority (\<open>lanes\<close>), which the scheduler refines.
\<close>

section \<open>Data\<close>

record limits =
  max_jobs :: u32
  min_mem_available_bytes :: u64
  queue_limit :: u32

definition limits_from_server :: "server_cfg \<Rightarrow> limits" where
  "limits_from_server s = \<lparr> max_jobs = sv_max_jobs s,
     min_mem_available_bytes = push_bit 30 (ucast (sv_min_mem_available_gib s)),
     queue_limit = sv_queue_limit s \<rparr>"

datatype reject_cause = CauseSaturated

datatype decision = Accept | Queue usize | Reject reject_cause

record entry =
  e_id :: job_id
  e_priority :: priority
  e_seq :: u64

record scheduler =
  sc_limits :: limits
  sc_running :: usize
  sc_queue :: "entry list"
  sc_seq :: u64

section \<open>Operations\<close>

definition scheduler_new :: "limits \<Rightarrow> scheduler" where
  "scheduler_new l = \<lparr> sc_limits = l, sc_running = 0, sc_queue = [], sc_seq = 0 \<rparr>"

definition queued :: "scheduler \<Rightarrow> usize" where
  "queued s = length (sc_queue s)"

definition has_capacity :: "scheduler \<Rightarrow> snapshot \<Rightarrow> bool" where
  "has_capacity s snap \<longleftrightarrow>
     sc_running s < unat (max_jobs (sc_limits s))
     \<and> mem_available_bytes snap > min_mem_available_bytes (sc_limits s)"

definition accepting :: "scheduler \<Rightarrow> snapshot \<Rightarrow> bool" where
  "accepting s snap \<longleftrightarrow> sc_queue s = [] \<and> has_capacity s snap"

definition admit :: "scheduler \<Rightarrow> job_id \<Rightarrow> priority \<Rightarrow> snapshot \<Rightarrow> decision \<times> scheduler" where
  "admit s i p snap =
     (if accepting s snap then (Accept, s\<lparr>sc_running := sc_running s + 1\<rparr>)
      else if length (sc_queue s) \<ge> unat (queue_limit (sc_limits s)) then (Reject CauseSaturated, s)
      else
        (let seq = sc_seq s + 1;
             ent = \<lparr> e_id = i, e_priority = p, e_seq = seq \<rparr>;
             idx = unwrap_or (length (sc_queue s))
                     (Rbs_Prelude.position (\<lambda>e. rank (e_priority e) < rank p) (sc_queue s))
         in (Queue (idx + 1), s\<lparr>sc_seq := seq, sc_queue := insert_at idx ent (sc_queue s)\<rparr>)))"

function poll :: "scheduler \<Rightarrow> snapshot \<Rightarrow> job_id list \<times> scheduler" where
  "poll s snap =
     (if sc_queue s \<noteq> [] \<and> has_capacity s snap then
        (let e = sc_queue s ! 0;
             r = poll (s\<lparr>sc_queue := remove_at 0 (sc_queue s), sc_running := sc_running s + 1\<rparr>) snap
         in (e_id e # fst r, snd r))
      else ([], s))"
  by pat_completeness auto
termination
  by (relation "measure (\<lambda>(s, snap). length (sc_queue s))") (auto simp: length_remove_at)

declare poll.simps [simp del]

definition finish :: "scheduler \<Rightarrow> snapshot \<Rightarrow> job_id list \<times> scheduler" where
  "finish s snap = poll (s\<lparr>sc_running := sc_running s - 1\<rparr>) snap"

definition remove_queued :: "scheduler \<Rightarrow> job_id \<Rightarrow> bool \<times> scheduler" where
  "remove_queued s i =
     (case Rbs_Prelude.position (\<lambda>e. e_id e = i) (sc_queue s) of
        Some k \<Rightarrow> (True, s\<lparr>sc_queue := remove_at k (sc_queue s)\<rparr>)
      | None \<Rightarrow> (False, s))"

definition queue_position :: "scheduler \<Rightarrow> job_id \<Rightarrow> usize option" where
  "queue_position s i = map_option (\<lambda>k. k + 1) (Rbs_Prelude.position (\<lambda>e. e_id e = i) (sc_queue s))"

section \<open>Derived vocabulary\<close>

abbreviation queued_ids :: "scheduler \<Rightarrow> job_id list" where
  "queued_ids s \<equiv> map e_id (sc_queue s)"

abbreviation slots :: "scheduler \<Rightarrow> nat" where
  "slots s \<equiv> unat (max_jobs (sc_limits s))"

definition mem_ok :: "scheduler \<Rightarrow> snapshot \<Rightarrow> bool" where
  "mem_ok s snap \<longleftrightarrow> mem_available_bytes snap > min_mem_available_bytes (sc_limits s)"

definition by_urgency :: "entry list \<Rightarrow> bool" where
  "by_urgency q \<longleftrightarrow> sorted_wrt (\<lambda>a b. rank (e_priority b) \<le> rank (e_priority a)) q"

definition sched_inv :: "scheduler \<Rightarrow> bool" where
  "sched_inv s \<longleftrightarrow>
     sc_running s \<le> slots s \<and> length (sc_queue s) \<le> unat (queue_limit (sc_limits s)) \<and> by_urgency (sc_queue s)"

datatype sched_op =
    OpAdmit job_id priority snapshot
  | OpFinish snapshot
  | OpPoll snapshot
  | OpRemove job_id

fun sched_step :: "scheduler \<Rightarrow> sched_op \<Rightarrow> job_id list \<times> scheduler" where
  "sched_step s (OpAdmit i p snap) = ([], snd (admit s i p snap))"
| "sched_step s (OpFinish snap) = finish s snap"
| "sched_step s (OpPoll snap) = poll s snap"
| "sched_step s (OpRemove i) = ([], snd (remove_queued s i))"

text \<open>A sequence of operations, with everything it released, in order.\<close>

fun run_ops :: "('s \<Rightarrow> 'o \<Rightarrow> 'r list \<times> 's) \<Rightarrow> 's \<Rightarrow> 'o list \<Rightarrow> 'r list \<times> 's" where
  "run_ops step s [] = ([], s)"
| "run_ops step s (x # xs) =
     (let r = step s x; rs = run_ops step (snd r) xs in (fst r @ fst rs, snd rs))"

fun admitted_id :: "sched_op \<Rightarrow> job_id option" where
  "admitted_id (OpAdmit i p snap) = Some i"
| "admitted_id _ = None"

section \<open>Closed form of \<open>poll\<close>\<close>

definition released_count :: "scheduler \<Rightarrow> snapshot \<Rightarrow> nat" where
  "released_count s snap =
     (if mem_ok s snap then min (length (sc_queue s)) (slots s - sc_running s) else 0)"

lemma poll_closed_form:
  "poll s snap =
     (map e_id (take (released_count s snap) (sc_queue s)),
      s\<lparr>sc_queue := drop (released_count s snap) (sc_queue s),
        sc_running := sc_running s + released_count s snap\<rparr>)"
proof (induction s snap rule: poll.induct)
  case (1 s snap)
  show ?case
  proof (cases "sc_queue s \<noteq> [] \<and> has_capacity s snap")
    case False
    then have "released_count s snap = 0"
      by (auto simp: released_count_def has_capacity_def mem_ok_def)
    with False show ?thesis by (subst poll.simps) auto
  next
    case True
    let ?s = "s\<lparr>sc_queue := remove_at 0 (sc_queue s), sc_running := sc_running s + 1\<rparr>"
    obtain e q where q: "sc_queue s = e # q" using True by (cases "sc_queue s") auto
    have n: "released_count s snap = Suc (released_count ?s snap)"
      using True q by (auto simp: released_count_def has_capacity_def mem_ok_def remove_at_def)
    show ?thesis
      using 1 True q by (subst poll.simps) (simp add: Let_def n remove_at_def)
  qed
qed

lemma by_urgency_append:
  "by_urgency (xs @ ys) \<longleftrightarrow>
     by_urgency xs \<and> by_urgency ys \<and> (\<forall>x \<in> set xs. \<forall>y \<in> set ys. rank (e_priority y) \<le> rank (e_priority x))"
  by (auto simp: by_urgency_def sorted_wrt_append)

lemma by_urgency_Nil [simp]: "by_urgency []"
  by (simp add: by_urgency_def)

lemma by_urgency_Cons:
  "by_urgency (x # q) \<longleftrightarrow> (\<forall>y \<in> set q. rank (e_priority y) \<le> rank (e_priority x)) \<and> by_urgency q"
  by (simp add: by_urgency_def)

lemma by_urgency_subseq: "subseq ys xs \<Longrightarrow> by_urgency xs \<Longrightarrow> by_urgency ys"
proof (induction rule: list_emb.induct)
  case (list_emb_Nil ys)
  then show ?case by simp
next
  case (list_emb_Cons xs ys y)
  then show ?case by (simp add: by_urgency_Cons)
next
  case (list_emb_Cons2 x y xs ys)
  have "set xs \<subseteq> set ys"
    using list_emb_Cons2.hyps(2) by (auto elim: list_emb_set)
  with list_emb_Cons2 show ?case
    by (simp add: by_urgency_Cons subset_iff)
qed

lemma by_urgency_takeWhile:
  "by_urgency q \<Longrightarrow>
     takeWhile (\<lambda>e. \<not> rank (e_priority e) < r) q = filter (\<lambda>e. r \<le> rank (e_priority e)) q
   \<and> dropWhile (\<lambda>e. \<not> rank (e_priority e) < r) q = filter (\<lambda>e. rank (e_priority e) < r) q"
proof (induction q)
  case Nil
  then show ?case by simp
next
  case (Cons e q)
  show ?case
  proof (cases "rank (e_priority e) < r")
    case True
    with Cons.prems have "\<forall>y \<in> set q. rank (e_priority y) < r"
      by (auto simp: by_urgency_Cons)
    then have "filter (\<lambda>e. r \<le> rank (e_priority e)) q = []" and "filter (\<lambda>e. rank (e_priority e) < r) q = q"
      by (simp_all add: filter_empty_conv filter_id_conv not_le)
    then show ?thesis using True by simp
  next
    case False
    with Cons show ?thesis by (auto simp: by_urgency_Cons)
  qed
qed

text \<open>Where \<open>admit\<close> puts a job: behind everything at least as urgent, before the rest.\<close>

lemma admit_queue_shape:
  assumes "by_urgency (sc_queue s)" and "admit s i p snap = (Queue n, s')"
  shows "sc_queue s' = filter (\<lambda>e. rank p \<le> rank (e_priority e)) (sc_queue s)
           @ \<lparr> e_id = i, e_priority = p, e_seq = sc_seq s + 1 \<rparr>
           # filter (\<lambda>e. rank (e_priority e) < rank p) (sc_queue s)"
    and "n = Suc (length (filter (\<lambda>e. rank p \<le> rank (e_priority e)) (sc_queue s)))"
    and "sc_running s' = sc_running s" and "sc_limits s' = sc_limits s"
    and "length (sc_queue s) < unat (queue_limit (sc_limits s))" and "\<not> accepting s snap"
proof -
  let ?P = "\<lambda>e. rank (e_priority e) < rank p"
  let ?e = "\<lparr> e_id = i, e_priority = p, e_seq = sc_seq s + 1 \<rparr>"
  have n: "n = Suc (unwrap_or (length (sc_queue s)) (Rbs_Prelude.position ?P (sc_queue s)))"
    and s': "s' = s\<lparr>sc_seq := sc_seq s + 1, sc_queue :=
      insert_at (unwrap_or (length (sc_queue s)) (Rbs_Prelude.position ?P (sc_queue s))) ?e (sc_queue s)\<rparr>"
    and c: "length (sc_queue s) < unat (queue_limit (sc_limits s))" "\<not> accepting s snap"
    using assms(2) by (auto simp: admit_def Let_def split: if_splits)
  note tw = by_urgency_takeWhile [OF assms(1), of "rank p"]
  show "sc_queue s' = filter (\<lambda>e. rank p \<le> rank (e_priority e)) (sc_queue s) @ ?e # filter ?P (sc_queue s)"
    unfolding s' by (simp add: insert_at_position tw)
  show "n = Suc (length (filter (\<lambda>e. rank p \<le> rank (e_priority e)) (sc_queue s)))"
    unfolding n by (simp add: position_takeWhile tw)
  show "sc_running s' = sc_running s" and "sc_limits s' = sc_limits s"
    unfolding s' by simp_all
qed (use assms(2) in \<open>auto simp: admit_def Let_def split: if_splits\<close>)

section \<open>The contract of the scheduler\<close>

text \<open>
  What the connection layer relies on: \<open>poll\<close> and \<open>finish\<close> hand out a prefix of the waiting
  jobs and count each as running, an accepted job takes a slot, a queued one joins the waiting
  jobs, a rejected one changes nothing, and removal takes exactly the named job out.
\<close>

locale slot_pool =
  fixes running :: "'s \<Rightarrow> nat" and waiting :: "'s \<Rightarrow> 'i list" and capacity_of :: "'s \<Rightarrow> nat"
    and admit_op :: "'s \<Rightarrow> 'i \<Rightarrow> 'p \<Rightarrow> 'n \<Rightarrow> decision \<times> 's"
    and finish_op :: "'s \<Rightarrow> 'n \<Rightarrow> 'i list \<times> 's"
    and poll_op :: "'s \<Rightarrow> 'n \<Rightarrow> 'i list \<times> 's"
    and remove_op :: "'s \<Rightarrow> 'i \<Rightarrow> bool \<times> 's"
  assumes poll_law: "poll_op s n = (rel, s') \<Longrightarrow>
      waiting s = rel @ waiting s' \<and> running s' = running s + length rel \<and> capacity_of s' = capacity_of s
      \<and> (running s \<le> capacity_of s \<longrightarrow> running s' \<le> capacity_of s)"
    and finish_law: "finish_op s n = (rel, s') \<Longrightarrow>
      waiting s = rel @ waiting s' \<and> running s' = running s - 1 + length rel \<and> capacity_of s' = capacity_of s
      \<and> (running s \<le> capacity_of s \<longrightarrow> running s' \<le> capacity_of s)"
    and accept_law: "admit_op s i p n = (Accept, s') \<Longrightarrow>
      waiting s' = waiting s \<and> running s' = running s + 1 \<and> capacity_of s' = capacity_of s
      \<and> running s' \<le> capacity_of s"
    and queue_law: "admit_op s i p n = (Queue k, s') \<Longrightarrow>
      mset (waiting s') = add_mset i (mset (waiting s)) \<and> running s' = running s
      \<and> capacity_of s' = capacity_of s"
    and reject_law: "admit_op s i p n = (Reject c, s') \<Longrightarrow> s' = s"
    and remove_law: "remove_op s i = (b, s') \<Longrightarrow>
      b = (i \<in> set (waiting s)) \<and> running s' = running s \<and> capacity_of s' = capacity_of s
      \<and> (if b then mset (waiting s) = add_mset i (mset (waiting s')) else s' = s)"
begin

definition pool_ok :: "'s \<Rightarrow> bool" where
  "pool_ok s \<longleftrightarrow> running s \<le> capacity_of s \<and> distinct (waiting s)"

lemma admit_capacity: "admit_op s i p n = (d, s') \<Longrightarrow> capacity_of s' = capacity_of s"
  by (cases d) (auto dest: accept_law queue_law reject_law)

lemma poll_ok: "poll_op s n = (rel, s') \<Longrightarrow> pool_ok s \<Longrightarrow> pool_ok s' \<and> distinct rel \<and> set rel \<inter> set (waiting s') = {}"
  using poll_law [of s n rel s'] by (auto simp: pool_ok_def)

lemma finish_ok: "finish_op s n = (rel, s') \<Longrightarrow> pool_ok s \<Longrightarrow> pool_ok s' \<and> distinct rel \<and> set rel \<inter> set (waiting s') = {}"
  using finish_law [of s n rel s'] by (auto simp: pool_ok_def)

lemma queue_distinct:
  "admit_op s i p n = (Queue k, s') \<Longrightarrow> i \<notin> set (waiting s) \<Longrightarrow> distinct (waiting s) \<Longrightarrow> distinct (waiting s')"
  using distinct_add_mset [of "waiting s'" i "waiting s"] queue_law [of s i p n k s'] by simp

lemma remove_distinct:
  "remove_op s i = (b, s') \<Longrightarrow> distinct (waiting s) \<Longrightarrow> distinct (waiting s') \<and> i \<notin> set (waiting s')"
proof -
  assume r: "remove_op s i = (b, s')" and d: "distinct (waiting s)"
  show ?thesis
  proof (cases b)
    case True
    then have "mset (waiting s) = add_mset i (mset (waiting s'))"
      using remove_law [OF r] by simp
    from distinct_add_mset [OF this] show ?thesis using d by simp
  next
    case False
    then show ?thesis using remove_law [OF r] d by auto
  qed
qed

lemma admit_ok:
  "admit_op s i p n = (d, s') \<Longrightarrow> i \<notin> set (waiting s) \<Longrightarrow> pool_ok s \<Longrightarrow> pool_ok s'"
  by (cases d) (auto simp: pool_ok_def dest: accept_law queue_law reject_law intro: queue_distinct)

lemma remove_ok: "remove_op s i = (b, s') \<Longrightarrow> pool_ok s \<Longrightarrow> pool_ok s'"
  using remove_law [of s i b s'] remove_distinct [of s i b s'] by (auto simp: pool_ok_def)

text \<open>A job that ends gives its slot to at most as many waiting jobs as there is room for, and
  no slot is lost: what runs and what waits changes by exactly the job that ended.\<close>

lemma finish_conserves:
  "finish_op s n = (rel, s') \<Longrightarrow> 0 < running s \<Longrightarrow>
     running s' + length (waiting s') + 1 = running s + length (waiting s)"
  using finish_law [of s n rel s'] by auto

end

lemma poll_pool_law:
  "poll s n = (rel, s') \<Longrightarrow>
     queued_ids s = rel @ queued_ids s' \<and> sc_running s' = sc_running s + length rel \<and> slots s' = slots s
     \<and> (sc_running s \<le> slots s \<longrightarrow> sc_running s' \<le> slots s)"
  by (auto simp: poll_closed_form released_count_def map_append [symmetric] simp del: map_append)

interpretation sched: slot_pool sc_running queued_ids slots admit finish poll remove_queued
proof
  fix s s' :: scheduler and n :: snapshot and rel :: "job_id list"
  assume "poll s n = (rel, s')"
  then show "queued_ids s = rel @ queued_ids s' \<and> sc_running s' = sc_running s + length rel \<and> slots s' = slots s
      \<and> (sc_running s \<le> slots s \<longrightarrow> sc_running s' \<le> slots s)" by (rule poll_pool_law)
next
  fix s s' :: scheduler and n :: snapshot and rel :: "job_id list"
  assume "finish s n = (rel, s')"
  then have "poll (s\<lparr>sc_running := sc_running s - 1\<rparr>) n = (rel, s')" by (simp add: finish_def)
  from poll_pool_law [OF this]
  show "queued_ids s = rel @ queued_ids s' \<and> sc_running s' = sc_running s - 1 + length rel \<and> slots s' = slots s
      \<and> (sc_running s \<le> slots s \<longrightarrow> sc_running s' \<le> slots s)" by auto
next
  fix s s' :: scheduler and i b
  assume r: "remove_queued s i = (b, s')"
  show "b = (i \<in> set (queued_ids s)) \<and> sc_running s' = sc_running s \<and> slots s' = slots s
      \<and> (if b then mset (queued_ids s) = add_mset i (mset (queued_ids s')) else s' = s)"
  proof (cases "Rbs_Prelude.position (\<lambda>e. e_id e = i) (sc_queue s)")
    case None
    with r show ?thesis by (auto simp: remove_queued_def position_None)
  next
    case (Some k)
    have k: "k < length (sc_queue s)" "e_id (sc_queue s ! k) = i"
      using position_Some(1,2) [OF Some] by auto
    with r Some show ?thesis
      by (auto simp: remove_queued_def mset_remove_at [of k "sc_queue s"])
  qed
qed (auto simp: admit_def accepting_def has_capacity_def Let_def split: if_splits)

section \<open>The abstract scheduler: one FIFO lane per priority\<close>

record lanes =
  ln_running :: nat
  ln_lane :: "priority \<Rightarrow> job_id list"

definition URGENCY :: "priority list" where
  "URGENCY = [Interactive, Agent, Background]"

definition lanes_total :: "lanes \<Rightarrow> nat" where
  "lanes_total L = (\<Sum>p\<leftarrow>URGENCY. length (ln_lane L p))"

definition lanes_next :: "lanes \<Rightarrow> priority option" where
  "lanes_next L = find (\<lambda>p. ln_lane L p \<noteq> []) URGENCY"

definition lanes_room :: "limits \<Rightarrow> lanes \<Rightarrow> snapshot \<Rightarrow> bool" where
  "lanes_room l L snap \<longleftrightarrow>
     ln_running L < unat (max_jobs l) \<and> mem_available_bytes snap > min_mem_available_bytes l"

definition spec_admit :: "limits \<Rightarrow> lanes \<Rightarrow> job_id \<Rightarrow> priority \<Rightarrow> snapshot \<Rightarrow> lanes" where
  "spec_admit l L i p snap =
     (if lanes_next L = None \<and> lanes_room l L snap then L\<lparr>ln_running := ln_running L + 1\<rparr>
      else if lanes_total L \<ge> unat (queue_limit l) then L
      else L\<lparr>ln_lane := (ln_lane L)(p := ln_lane L p @ [i])\<rparr>)"

definition spec_pop :: "lanes \<Rightarrow> priority \<Rightarrow> lanes" where
  "spec_pop L p = L\<lparr>ln_lane := (ln_lane L)(p := tl (ln_lane L p)), ln_running := ln_running L + 1\<rparr>"

lemma lanes_next_Some: "lanes_next L = Some p \<Longrightarrow> ln_lane L p \<noteq> []"
  by (auto simp: lanes_next_def find_Some_iff)

lemma lanes_total_pop: "lanes_next L = Some p \<Longrightarrow> lanes_total (spec_pop L p) < lanes_total L"
  using lanes_next_Some [of L p]
  by (cases p) (auto simp: lanes_total_def URGENCY_def spec_pop_def)

function spec_poll :: "limits \<Rightarrow> lanes \<Rightarrow> snapshot \<Rightarrow> job_id list \<times> lanes" where
  "spec_poll l L snap =
     (case lanes_next L of
        Some p \<Rightarrow> (if lanes_room l L snap then
                     (let r = spec_poll l (spec_pop L p) snap in (hd (ln_lane L p) # fst r, snd r))
                   else ([], L))
      | None \<Rightarrow> ([], L))"
  by pat_completeness auto
termination
  by (relation "measure (\<lambda>(l, L, snap). lanes_total L)") (auto simp: lanes_total_pop)

declare spec_poll.simps [simp del]

definition spec_finish :: "limits \<Rightarrow> lanes \<Rightarrow> snapshot \<Rightarrow> job_id list \<times> lanes" where
  "spec_finish l L snap = spec_poll l (L\<lparr>ln_running := ln_running L - 1\<rparr>) snap"

definition spec_remove :: "lanes \<Rightarrow> job_id \<Rightarrow> lanes" where
  "spec_remove L i = L\<lparr>ln_lane := \<lambda>p. filter (\<lambda>j. j \<noteq> i) (ln_lane L p)\<rparr>"

definition lane_of :: "entry list \<Rightarrow> priority \<Rightarrow> job_id list" where
  "lane_of q p = map e_id (filter (\<lambda>e. e_priority e = p) q)"

definition abs_lanes :: "scheduler \<Rightarrow> lanes" where
  "abs_lanes s = \<lparr> ln_running = sc_running s, ln_lane = lane_of (sc_queue s) \<rparr>"

lemma lane_of_Nil: "(\<forall>p. lane_of q p = []) \<longleftrightarrow> q = []"
  by (cases q) (auto simp: lane_of_def)

lemma lanes_next_None: "lanes_next (abs_lanes s) = None \<longleftrightarrow> sc_queue s = []"
proof -
  have "lanes_next (abs_lanes s) = None \<longleftrightarrow> (\<forall>p. lane_of (sc_queue s) p = [])"
    by (auto simp: lanes_next_def find_None_iff URGENCY_def abs_lanes_def) (metis priority.exhaust)
  then show ?thesis by (simp add: lane_of_Nil)
qed

lemma lanes_total_abs: "lanes_total (abs_lanes s) = length (sc_queue s)"
proof -
  have "length (lane_of q Interactive) + (length (lane_of q Agent) + length (lane_of q Background)) = length q" for q
  proof (induction q)
    case Nil
    then show ?case by (simp add: lane_of_def)
  next
    case (Cons e q)
    then show ?case by (cases "e_priority e") (auto simp: lane_of_def)
  qed
  then show ?thesis by (simp add: lanes_total_def URGENCY_def abs_lanes_def)
qed

lemma lanes_next_head:
  assumes "sc_queue s = e # q" and "by_urgency (sc_queue s)"
  shows "lanes_next (abs_lanes s) = Some (e_priority e)"
proof -
  have "lane_of (sc_queue s) p = []" if "rank (e_priority e) < rank p" for p
    using assms that by (auto simp: lane_of_def by_urgency_Cons filter_empty_conv)
  moreover have "lane_of (sc_queue s) (e_priority e) \<noteq> []"
    using assms(1) by (simp add: lane_of_def)
  ultimately show ?thesis
    by (cases "e_priority e") (auto simp: lanes_next_def URGENCY_def abs_lanes_def)
qed

lemma lanes_room_abs: "lanes_room (sc_limits s) (abs_lanes s) snap \<longleftrightarrow> has_capacity s snap"
  by (simp add: lanes_room_def has_capacity_def abs_lanes_def)

lemma poll_refines:
  "by_urgency (sc_queue s) \<Longrightarrow>
     spec_poll (sc_limits s) (abs_lanes s) snap = (fst (poll s snap), abs_lanes (snd (poll s snap)))"
proof (induction s snap rule: poll.induct)
  case (1 s snap)
  show ?case
  proof (cases "sc_queue s")
    case Nil
    then have "lanes_next (abs_lanes s) = None" by (simp add: lanes_next_None)
    with Nil show ?thesis by (simp add: poll.simps [of s] spec_poll.simps [of _ "abs_lanes s"])
  next
    case (Cons e q)
    let ?s = "s\<lparr>sc_queue := remove_at 0 (sc_queue s), sc_running := sc_running s + 1\<rparr>"
    have nx: "lanes_next (abs_lanes s) = Some (e_priority e)"
      using Cons 1(2) by (rule lanes_next_head)
    show ?thesis
    proof (cases "has_capacity s snap")
      case False
      with Cons nx show ?thesis
        by (simp add: poll.simps [of s] spec_poll.simps [of _ "abs_lanes s"] lanes_room_abs)
    next
      case True
      have pop: "spec_pop (abs_lanes s) (e_priority e) = abs_lanes ?s"
        using Cons by (auto simp: spec_pop_def abs_lanes_def remove_at_def lane_of_def fun_eq_iff)
      have "by_urgency (sc_queue ?s)" using 1(2) Cons by (simp add: remove_at_def by_urgency_Cons)
      with 1(1) True Cons
      have "spec_poll (sc_limits s) (abs_lanes ?s) snap = (fst (poll ?s snap), abs_lanes (snd (poll ?s snap)))"
        by simp
      moreover have "hd (ln_lane (abs_lanes s) (e_priority e)) = e_id e"
        using Cons by (simp add: abs_lanes_def lane_of_def)
      ultimately show ?thesis
        using True Cons nx pop
        by (simp add: poll.simps [of s] spec_poll.simps [of _ "abs_lanes s"] lanes_room_abs Let_def)
    qed
  qed
qed

lemma admit_refines:
  assumes "by_urgency (sc_queue s)"
  shows "abs_lanes (snd (admit s i p snap)) = spec_admit (sc_limits s) (abs_lanes s) i p snap"
proof (cases "admit s i p snap")
  case (Pair d s')
  show ?thesis
  proof (cases d)
    case Accept
    with Pair have a: "accepting s snap" "s' = s\<lparr>sc_running := sc_running s + 1\<rparr>"
      by (auto simp: admit_def Let_def split: if_splits)
    have "spec_admit (sc_limits s) (abs_lanes s) i p snap = (abs_lanes s)\<lparr>ln_running := ln_running (abs_lanes s) + 1\<rparr>"
      using a(1) by (simp add: spec_admit_def lanes_next_None lanes_room_abs accepting_def)
    then show ?thesis using Pair a(2) by (simp add: abs_lanes_def)
  next
    case (Queue n)
    note sh = admit_queue_shape [OF assms Pair [unfolded Queue]]
    have "lane_of (sc_queue s') = (lane_of (sc_queue s))(p := lane_of (sc_queue s) p @ [i])"
    proof
      fix r
      have f: "(\<lambda>e :: entry. rank p \<le> rank (e_priority e) \<and> e_priority e = r) = (\<lambda>e. rank p \<le> rank r \<and> e_priority e = r)"
        "(\<lambda>e :: entry. rank (e_priority e) < rank p \<and> e_priority e = r) = (\<lambda>e. rank r < rank p \<and> e_priority e = r)"
        by auto
      show "lane_of (sc_queue s') r = ((lane_of (sc_queue s))(p := lane_of (sc_queue s) p @ [i])) r"
        by (cases "rank p \<le> rank r") (auto simp: lane_of_def sh(1) f filter_empty_conv)
    qed
    then show ?thesis
      using sh Pair
      by (auto simp: spec_admit_def accepting_def lanes_next_None lanes_room_abs lanes_total_abs)
        (simp_all add: abs_lanes_def)
  next
    case (Reject c)
    with Pair show ?thesis
      by (auto simp: admit_def spec_admit_def accepting_def lanes_next_None lanes_room_abs
          lanes_total_abs Let_def split: if_splits)
  qed
qed

lemma remove_refines:
  assumes "distinct (queued_ids s)"
  shows "abs_lanes (snd (remove_queued s i)) = spec_remove (abs_lanes s) i"
proof -
  have "sc_queue (snd (remove_queued s i)) = filter (\<lambda>e. e_id e \<noteq> i) (sc_queue s)"
  proof (cases "Rbs_Prelude.position (\<lambda>e. e_id e = i) (sc_queue s)")
    case None
    then have "\<forall>e \<in> set (sc_queue s). e_id e \<noteq> i" by (simp add: position_None)
    with None show ?thesis by (simp add: remove_queued_def filter_id_conv)
  next
    case (Some k)
    let ?q = "sc_queue s"
    have k: "k < length ?q" "e_id (?q ! k) = i" "\<And>j. j < k \<Longrightarrow> e_id (?q ! j) \<noteq> i"
      using position_Some [OF Some] by auto
    have q: "?q = take k ?q @ ?q ! k # drop (Suc k) ?q" using k(1) by (rule id_take_nth_drop)
    have "distinct (map e_id (take k ?q @ ?q ! k # drop (Suc k) ?q))"
      using assms q by (rule back_subst [where P = "\<lambda>q. distinct (map e_id q)"])
    then have "i \<notin> e_id ` set (take k ?q)" and "i \<notin> e_id ` set (drop (Suc k) ?q)"
      using k(2) by auto
    then have "filter (\<lambda>e. e_id e \<noteq> i) (take k ?q) = take k ?q"
      and "filter (\<lambda>e. e_id e \<noteq> i) (drop (Suc k) ?q) = drop (Suc k) ?q"
      by (auto simp: filter_id_conv)
    then have "filter (\<lambda>e. e_id e \<noteq> i) (take k ?q @ ?q ! k # drop (Suc k) ?q) = take k ?q @ drop (Suc k) ?q"
      using k(2) by simp
    with q Some show ?thesis by (simp add: remove_queued_def remove_at_def)
  qed
  moreover have "sc_running (snd (remove_queued s i)) = sc_running s"
    by (simp add: remove_queued_def split: option.splits)
  moreover have "filter (\<lambda>x. x \<noteq> i) (lane_of q p) = lane_of (filter (\<lambda>e. e_id e \<noteq> i) q) p" for q p
    by (induction q) (auto simp: lane_of_def)
  ultimately show ?thesis by (simp add: abs_lanes_def spec_remove_def fun_eq_iff)
qed

fun spec_step :: "limits \<Rightarrow> lanes \<Rightarrow> sched_op \<Rightarrow> job_id list \<times> lanes" where
  "spec_step l L (OpAdmit i p snap) = ([], spec_admit l L i p snap)"
| "spec_step l L (OpFinish snap) = spec_finish l L snap"
| "spec_step l L (OpPoll snap) = spec_poll l L snap"
| "spec_step l L (OpRemove i) = ([], spec_remove L i)"

lemma by_urgency_drop: "by_urgency q \<Longrightarrow> by_urgency (drop n q)"
  by (rule by_urgency_subseq) (auto simp: suffix_drop intro: suffix_imp_subseq)

lemma sched_step_limits: "sc_limits (snd (sched_step s x)) = sc_limits s"
  by (cases x) (auto simp: admit_def poll_closed_form finish_def remove_queued_def Let_def split: option.splits)

lemma remove_queued_subseq: "subseq (sc_queue (snd (remove_queued s i))) (sc_queue s)"
  by (auto simp: remove_queued_def remove_at_subseq split: option.splits)

lemma admit_by_urgency: "by_urgency (sc_queue s) \<Longrightarrow> by_urgency (sc_queue (snd (admit s i p snap)))"
proof (cases "admit s i p snap")
  case (Pair d s')
  assume u: "by_urgency (sc_queue s)"
  have f: "by_urgency (filter P (sc_queue s))" for P
    using u by (rule by_urgency_subseq [rotated]) (rule subseq_filter_left)
  show ?thesis
  proof (cases d)
    case (Queue n)
    show ?thesis
      using f admit_queue_shape(1) [OF u Pair [unfolded Queue]] Pair
      by (auto simp: by_urgency_append by_urgency_Cons)
  qed (use u Pair in \<open>auto simp: admit_def Let_def split: if_splits\<close>)
qed

lemma sched_step_by_urgency: "by_urgency (sc_queue s) \<Longrightarrow> by_urgency (sc_queue (snd (sched_step s x)))"
proof (cases x)
  case (OpRemove i)
  assume "by_urgency (sc_queue s)"
  then show ?thesis using OpRemove by_urgency_subseq [OF remove_queued_subseq] by simp
qed (auto simp: admit_by_urgency finish_def poll_closed_form by_urgency_drop)

lemma sched_step_inv: "sched_inv s \<Longrightarrow> sched_inv (snd (sched_step s x))"
proof -
  assume i: "sched_inv s"
  let ?s = "snd (sched_step s x)"
  have "sc_running ?s \<le> slots s \<and> length (sc_queue ?s) \<le> unat (queue_limit (sc_limits s))"
  proof (cases x)
    case (OpAdmit j p snap)
    with i show ?thesis
      by (auto simp: sched_inv_def admit_def accepting_def has_capacity_def Let_def)
  next
    case (OpFinish snap)
    have "sc_running s - Suc 0 \<le> slots s" using i by (auto simp: sched_inv_def)
    with OpFinish i show ?thesis
      by (auto simp: sched_inv_def finish_def poll_closed_form released_count_def)
  next
    case (OpPoll snap)
    with i show ?thesis by (auto simp: sched_inv_def poll_closed_form released_count_def)
  next
    case (OpRemove j)
    have "length (sc_queue (snd (remove_queued s j))) \<le> length (sc_queue s)"
      using remove_queued_subseq by (rule list_emb_length)
    moreover have "sc_running (snd (remove_queued s j)) = sc_running s"
      by (simp add: remove_queued_def split: option.splits)
    ultimately show ?thesis using i OpRemove by (auto simp: sched_inv_def)
  qed
  then show ?thesis
    using i sched_step_by_urgency [of s x] by (simp add: sched_inv_def sched_step_limits)
qed

lemma sched_inv_new: "sched_inv (scheduler_new l) \<and> sc_limits (scheduler_new l) = l"
  by (simp add: sched_inv_def scheduler_new_def)

lemma run_ops_inv:
  assumes "P s" and "\<And>s x. P s \<Longrightarrow> P (snd (step s x))"
  shows "P (snd (run_ops step s xs))"
  using assms(1) by (induction xs arbitrary: s) (auto simp: Let_def assms(2))

lemma sched_step_refines:
  assumes "by_urgency (sc_queue s)" and "distinct (queued_ids s)"
  shows "spec_step (sc_limits s) (abs_lanes s) x = (fst (sched_step s x), abs_lanes (snd (sched_step s x)))"
proof (cases x)
  case (OpFinish snap)
  have "abs_lanes (s\<lparr>sc_running := sc_running s - 1\<rparr>) = (abs_lanes s)\<lparr>ln_running := ln_running (abs_lanes s) - 1\<rparr>"
    by (simp add: abs_lanes_def)
  with OpFinish assms show ?thesis
    using poll_refines [of "s\<lparr>sc_running := sc_running s - 1\<rparr>" snap]
    by (simp add: spec_finish_def finish_def)
qed (use assms in \<open>simp_all add: admit_refines poll_refines remove_refines\<close>)

lemma sched_step_ids:
  assumes "distinct (queued_ids s)" and "\<forall>i. admitted_id x = Some i \<longrightarrow> i \<notin> set (queued_ids s)"
  shows "distinct (queued_ids (snd (sched_step s x)))
       \<and> set (queued_ids (snd (sched_step s x))) \<subseteq> set (queued_ids s) \<union> set_option (admitted_id x)"
proof (cases x)
  case (OpAdmit i p snap)
  obtain d s' where ad: "admit s i p snap = (d, s')" by force
  then show ?thesis
    using OpAdmit assms sched.queue_law [of s i p snap _ s'] sched.queue_distinct [of s i p snap _ s']
      sched.accept_law [of s i p snap s'] sched.reject_law [of s i p snap _ s']
    by (cases d) (auto dest!: mset_eq_setD [of "queued_ids s'" "i # queued_ids s", simplified])
next
  case (OpFinish snap)
  obtain rel s' where "finish s snap = (rel, s')" by force
  with sched.finish_law [OF this] OpFinish assms(1) show ?thesis by auto
next
  case (OpPoll snap)
  obtain rel s' where "poll s snap = (rel, s')" by force
  with sched.poll_law [OF this] OpPoll assms(1) show ?thesis by auto
next
  case (OpRemove i)
  obtain b s' where r: "remove_queued s i = (b, s')" by force
  have "subseq (sc_queue s') (sc_queue s)" using remove_queued_subseq [of s i] r by simp
  then have "set (sc_queue s') \<subseteq> set (sc_queue s)" by (auto elim: list_emb_set)
  with sched.remove_distinct [OF r assms(1)] OpRemove r show ?thesis by auto
qed

section \<open>Properties\<close>

text \<open>
  C1. Whatever sequence of admissions, completions, polls and withdrawals the server performs,
  the scheduler never runs more than \<open>max_jobs\<close> jobs, never queues more than \<open>queue_limit\<close>,
  keeps its queue ordered by urgency and never changes its limits.
\<close>
theorem scheduler_invariant:
  "let s = snd (run_ops sched_step (scheduler_new l) ops)
   in sc_limits s = l \<and> sc_running s \<le> unat (max_jobs l) \<and> queued s \<le> unat (queue_limit l)
      \<and> by_urgency (sc_queue s)"
proof -
  have "sched_inv s \<and> sc_limits s = l" if "s = snd (run_ops sched_step (scheduler_new l) ops)" for s
    unfolding that by (rule run_ops_inv) (simp_all add: sched_inv_new sched_step_limits sched_step_inv)
  then show ?thesis by (auto simp: Let_def sched_inv_def queued_def)
qed

text \<open>
  C3. The admission decision, on every branch: a job starts at once exactly when the queue is
  empty, a slot is free and memory is above the reserve; it is refused exactly when it cannot
  start and the queue is full, and then nothing changes; otherwise it is queued behind every
  job at least as urgent and before every less urgent one, and the position reported is the
  one \<open>position\<close> then gives.
\<close>
theorem admit_decision_table:
  assumes "by_urgency (sc_queue s)" and "i \<notin> set (queued_ids s)"
  shows "let room = (length (sc_queue s) = 0 \<and> sc_running s < unat (max_jobs (sc_limits s))
                      \<and> min_mem_available_bytes (sc_limits s) < mem_available_bytes snap);
             full = (unat (queue_limit (sc_limits s)) \<le> length (sc_queue s))
         in (case admit s i p snap of
            (Accept, s') \<Rightarrow> room \<and> s' = s\<lparr>sc_running := sc_running s + 1\<rparr>
          | (Reject c, s') \<Rightarrow> \<not> room \<and> full \<and> s' = s
          | (Queue n, s') \<Rightarrow> \<not> room \<and> \<not> full
              \<and> queue_position s' i = Some n
              \<and> (\<exists>hi lo ent. sc_queue s = hi @ lo \<and> sc_queue s' = hi @ ent # lo
                   \<and> e_id ent = i \<and> e_priority ent = p
                   \<and> list_all (\<lambda>e. rank p \<le> rank (e_priority e)) hi
                   \<and> list_all (\<lambda>e. rank (e_priority e) < rank p) lo)
              \<and> sc_running s' = sc_running s)"
proof (cases "admit s i p snap")
  case (Pair d s')
  show ?thesis
  proof (cases d)
    case (Queue n)
    note sh = admit_queue_shape [OF assms(1) Pair [unfolded Queue]]
    let ?hi = "filter (\<lambda>e. rank p \<le> rank (e_priority e)) (sc_queue s)"
    let ?lo = "filter (\<lambda>e. rank (e_priority e) < rank p) (sc_queue s)"
    have "sc_queue s = ?hi @ ?lo"
      using by_urgency_takeWhile [OF assms(1), of "rank p"] takeWhile_dropWhile_id by metis
    moreover have "Rbs_Prelude.position (\<lambda>e. e_id e = i) (hi @ \<lparr> e_id = i, e_priority = p, e_seq = sc_seq s + 1 \<rparr> # lo) = Some (length hi)"
      if "\<forall>e \<in> set hi. e_id e \<noteq> i" for hi lo using that by (induction hi) auto
    moreover have "\<forall>e \<in> set ?hi. e_id e \<noteq> i" using assms(2) by auto
    ultimately have "queue_position s' i = Some n"
      and "\<exists>hi lo ent. sc_queue s = hi @ lo \<and> sc_queue s' = hi @ ent # lo \<and> e_id ent = i \<and> e_priority ent = p
        \<and> list_all (\<lambda>e. rank p \<le> rank (e_priority e)) hi \<and> list_all (\<lambda>e. rank (e_priority e) < rank p) lo"
      unfolding sh(1,2)
      by (simp add: queue_position_def sh(1))
        (rule exI [of _ ?hi], rule exI [of _ ?lo], rule exI [of _ "\<lparr> e_id = i, e_priority = p, e_seq = sc_seq s + 1 \<rparr>"],
          simp add: list_all_iff \<open>sc_queue s = ?hi @ ?lo\<close> [symmetric])
    then show ?thesis
      using Pair Queue sh(3,5,6) by (simp add: accepting_def has_capacity_def)
  qed (use Pair in \<open>auto simp: admit_def accepting_def has_capacity_def Let_def split: if_splits\<close>)
qed

theorem admit_decision_table_witness:
  "\<exists>s'. admit (snd (admit (scheduler_new \<lparr> max_jobs = 0, min_mem_available_bytes = 1, queue_limit = 2 \<rparr>)
        (JobId 1) Background UNKNOWN)) (JobId 2) Interactive UNKNOWN = (Queue 1, s')
     \<and> queue_position s' (JobId 2) = Some 1"
proof -
  let ?s = "snd (admit (scheduler_new \<lparr> max_jobs = 0, min_mem_available_bytes = 1, queue_limit = 2 \<rparr>)
        (JobId 1) Background UNKNOWN)"
  have s: "sc_queue ?s = [\<lparr> e_id = JobId 1, e_priority = Background, e_seq = 1 \<rparr>]"
    by (simp add: admit_def scheduler_new_def accepting_def has_capacity_def insert_at_def Let_def)
  have h: "by_urgency (sc_queue ?s)" "JobId 2 \<notin> set (queued_ids ?s)"
    unfolding s by (simp_all add: by_urgency_Cons)
  have "\<exists>s'. admit ?s (JobId 2) Interactive UNKNOWN = (Queue 1, s')"
    by (simp add: admit_def scheduler_new_def accepting_def has_capacity_def insert_at_def Let_def)
  with admit_decision_table [OF h, of UNKNOWN Interactive] show ?thesis by (auto simp: Let_def)
qed

text \<open>
  C4. Re-evaluating the queue: \<open>poll\<close> releases a prefix of the queue, in order, each job at
  most once; afterwards no waiting job could start (work conservation), and if memory is above
  the reserve as many jobs start as there are free slots and waiting jobs.
\<close>
theorem poll_work_conserving:
  "case poll s snap of (released, s') \<Rightarrow>
     queued_ids s = released @ queued_ids s'
     \<and> sc_running s' = sc_running s + length released
     \<and> length released = (if mem_ok s snap then min (queued s) (slots s - sc_running s) else 0)
     \<and> \<not> (sc_queue s' \<noteq> [] \<and> has_capacity s' snap)"
proof (cases "poll s snap")
  case (Pair released s')
  have "length released = (if mem_ok s snap then min (queued s) (slots s - sc_running s) else 0)"
    and "\<not> (sc_queue s' \<noteq> [] \<and> has_capacity s' snap)"
    using Pair by (auto simp: poll_closed_form released_count_def queued_def has_capacity_def mem_ok_def)
  with sched.poll_law [OF Pair] Pair show ?thesis by simp
qed

text \<open>
  C2. The scheduler is fair: it refines the scheduler with one first-in-first-out lane per
  priority, which starts the oldest job of the most urgent non-empty lane. Over any sequence
  of operations in which every admitted job has its own identifier, both release the same jobs
  in the same order and keep the same running count and the same lanes.
\<close>
theorem scheduler_refines_lanes:
  assumes "distinct (List.map_filter admitted_id ops)"
  shows "run_ops (spec_step l) (abs_lanes (scheduler_new l)) ops
       = (fst (run_ops sched_step (scheduler_new l) ops),
          abs_lanes (snd (run_ops sched_step (scheduler_new l) ops)))"
proof -
  have "run_ops (spec_step (sc_limits s)) (abs_lanes s) ops
      = (fst (run_ops sched_step s ops), abs_lanes (snd (run_ops sched_step s ops)))"
    if "by_urgency (sc_queue s)" "distinct (queued_ids s)"
      "set (queued_ids s) \<inter> set (List.map_filter admitted_id ops) = {}" for s
    using that assms
  proof (induction ops arbitrary: s)
    case Nil
    then show ?case by simp
  next
    case (Cons x ops)
    let ?s = "snd (sched_step s x)"
    have ids: "distinct (queued_ids ?s)" "set (queued_ids ?s) \<subseteq> set (queued_ids s) \<union> set_option (admitted_id x)"
      using Cons.prems sched_step_ids [of s x] by (auto simp: List.map_filter_simps split: option.splits)
    have "run_ops (spec_step (sc_limits ?s)) (abs_lanes ?s) ops
        = (fst (run_ops sched_step ?s ops), abs_lanes (snd (run_ops sched_step ?s ops)))"
      using Cons.prems ids
      by (intro Cons.IH) (auto simp: sched_step_by_urgency List.map_filter_simps split: option.splits)
    then show ?case
      using sched_step_refines [OF Cons.prems(1,2), of x] by (simp add: Let_def sched_step_limits)
  qed
  from this [of "scheduler_new l"] show ?thesis by (simp add: scheduler_new_def)
qed

theorem scheduler_refines_lanes_witness:
  "run_ops (spec_step \<lparr> max_jobs = 1, min_mem_available_bytes = 0, queue_limit = 8 \<rparr>)
     (abs_lanes (scheduler_new \<lparr> max_jobs = 1, min_mem_available_bytes = 0, queue_limit = 8 \<rparr>))
     [OpAdmit (JobId 1) Agent UNKNOWN, OpAdmit (JobId 2) Agent UNKNOWN, OpAdmit (JobId 3) Interactive UNKNOWN, OpFinish UNKNOWN]
   = (fst (run_ops sched_step (scheduler_new \<lparr> max_jobs = 1, min_mem_available_bytes = 0, queue_limit = 8 \<rparr>)
        [OpAdmit (JobId 1) Agent UNKNOWN, OpAdmit (JobId 2) Agent UNKNOWN, OpAdmit (JobId 3) Interactive UNKNOWN, OpFinish UNKNOWN]),
      abs_lanes (snd (run_ops sched_step (scheduler_new \<lparr> max_jobs = 1, min_mem_available_bytes = 0, queue_limit = 8 \<rparr>)
        [OpAdmit (JobId 1) Agent UNKNOWN, OpAdmit (JobId 2) Agent UNKNOWN, OpAdmit (JobId 3) Interactive UNKNOWN, OpFinish UNKNOWN])))"
  by (rule scheduler_refines_lanes) (simp add: List.map_filter_simps)

end
