(* ===== verification/Toolchain.thy ===== *)
theory Toolchain
  imports Proto Paths
begin

text \<open>
  Toolchain fingerprinting and mismatch detection: \<open>crates/rbs-toolchain/src/lib.rs\<close>.

  Running a program is a parameter \<open>exec\<close> from the program, its arguments and the working
  directory to what the process does. The environment the code sets on it (the search path and
  the shim guard) is part of that parameter's meaning.
\<close>

datatype 'io proc_result = SpawnFailed 'io | ProcExit (px_success: bool) (px_status: string) (px_stdout: string) (px_stderr: string)

type_synonym 'io exec = "string \<Rightarrow> string list \<Rightarrow> path \<Rightarrow> 'io proc_result"

datatype 'io toolchain_error =
    TSpawn string string 'io
  | TFailed string string string string
  | TParse string

record mismatch =
  mm_client_host :: string
  mm_client :: toolchain_fingerprint
  mm_server_host :: string
  mm_server :: toolchain_fingerprint

text \<open>The dash of the message is one character outside ASCII: its three UTF-8 bytes.\<close>

definition EM_DASH :: string where
  "EM_DASH = [CHR 0xE2, CHR 0x80, CHR 0x94]"

definition pad_right :: "nat \<Rightarrow> string \<Rightarrow> string" where
  "pad_right n s = s @ replicate (n - length s) (CHR '' '')"

definition render :: "mismatch \<Rightarrow> string" where
  "render m =
     ''toolchain mismatch between '' @ mm_client_host m @ '' and '' @ mm_server_host m @ '' '' @ EM_DASH
       @ '' refusing to build'' @ [NL]
     @ ''  '' @ pad_right 8 (mm_client_host m @ '':'') @ '' '' @ show_fingerprint (mm_client m) @ [NL]
     @ ''  '' @ pad_right 8 (mm_server_host m @ '':'') @ '' '' @ show_fingerprint (mm_server m) @ [NL]
     @ (if rustc_version (mm_client m) = rustc_version (mm_server m)
        then ''  hint: same release but different commit '' @ EM_DASH
             @ '' one side has a different build of this version'' @ [NL]
        else ''  hint: pin the project with rust-toolchain.toml and run `rustup toolchain install ''
             @ rustc_version (mm_client m) @ ''` on '' @ mm_server_host m @ [NL])
     @ (if is_nightly (mm_client m) \<or> is_nightly (mm_server m)
        then ''  hint: an undated `nightly` channel drifts daily; pin `nightly-YYYY-MM-DD` instead'' @ [NL]
        else [])"

definition check ::
  "string \<Rightarrow> toolchain_fingerprint \<Rightarrow> string \<Rightarrow> toolchain_fingerprint \<Rightarrow> (unit, mismatch) result" where
  "check client_host client server_host server =
     (if compatible_with client server then Ok ()
      else Err \<lparr> mm_client_host = client_host, mm_client = client, mm_server_host = server_host, mm_server = server \<rparr>)"

definition find_toolchain_file :: "(path \<Rightarrow> bool) \<Rightarrow> path \<Rightarrow> path option" where
  "find_toolchain_file is_file cwd =
     find_map (\<lambda>d. find is_file (map (path_join d) [''rust-toolchain.toml'', ''rust-toolchain''])) (ancestors cwd)"

record rustc_vv =
  vv_release :: string
  vv_commit_hash :: string
  vv_host :: string

definition vv_field :: "string \<Rightarrow> string \<Rightarrow> string option" where
  "vv_field out key = find_map (\<lambda>l. map_option trim (strip_prefix key l)) (lines out)"

definition parse_rustc_vv :: "string \<Rightarrow> (rustc_vv, 'io toolchain_error) result" where
  "parse_rustc_vv out =
     and_then (ok_or (TParse ''release'') (vv_field out ''release:'')) (\<lambda>release.
     and_then (ok_or (TParse ''host'') (vv_field out ''host:'')) (\<lambda>host.
     and_then (ok_or (TParse ''commit-hash'') (vv_field out ''commit-hash:'')) (\<lambda>commit_hash.
       Ok \<lparr> vv_release = release, vv_commit_hash = take 9 commit_hash, vv_host = host \<rparr>)))"

definition args_with_override :: "string option \<Rightarrow> string list \<Rightarrow> string list" where
  "args_with_override toolchain_override args = (case toolchain_override of Some t \<Rightarrow> [t] | None \<Rightarrow> []) @ args"

definition run_with_path ::
  "'io exec \<Rightarrow> string \<Rightarrow> string list \<Rightarrow> path \<Rightarrow> string option \<Rightarrow> (string, 'io toolchain_error) result" where
  "run_with_path exec program args cwd toolchain_override =
     (let plus = map_option (\<lambda>t. ''+'' @ t) toolchain_override in
      case exec program (args_with_override plus args) cwd of
        SpawnFailed e \<Rightarrow> Err (TSpawn program cwd e)
      | ProcExit ok status out err \<Rightarrow>
          (if \<not> ok then Err (TFailed program cwd status (trim err)) else Ok out))"

definition fingerprint_with_path ::
  "'io exec \<Rightarrow> path \<Rightarrow> string option \<Rightarrow> (toolchain_fingerprint, 'io toolchain_error) result" where
  "fingerprint_with_path exec cwd toolchain_override =
     and_then (and_then (run_with_path exec ''rustc'' [''-vV''] cwd toolchain_override) parse_rustc_vv) (\<lambda>vv.
     and_then (run_with_path exec ''cargo'' [''-V''] cwd toolchain_override) (\<lambda>cargo.
       Ok \<lparr> rustc_commit = vv_commit_hash vv, rustc_version = vv_release vv, fp_host = vv_host vv,
            cargo_version = trim cargo,
            toolchain_name =
              (case toolchain_override of
                 Some t \<Rightarrow> t
               | None \<Rightarrow> (case run_with_path exec ''rustup'' [''show'', ''active-toolchain''] cwd None of
                            Inl e \<Rightarrow> []
                          | Inr s \<Rightarrow> (case split_whitespace s of [] \<Rightarrow> [] | w # _ \<Rightarrow> w))) \<rparr>))"

section \<open>Facts\<close>

lemma check_Ok: "check ch c sh s = Inr u \<longleftrightarrow> compatible_with c s"
  by (auto simp: check_def)

lemma check_Err: "check ch c sh s = Inl m \<Longrightarrow> \<not> compatible_with c s \<and> mm_client m = c \<and> mm_server m = s
    \<and> mm_client_host m = ch \<and> mm_server_host m = sh"
  by (auto simp: check_def split: if_splits)

lemma find_map_first:
  "\<forall>x \<in> set xs. f x = None \<Longrightarrow> f y = Some v \<Longrightarrow> find_map f (xs @ y # ys) = Some v"
  by (induction xs) auto

text \<open>What \<open>rustc -vV\<close> prints: a banner line, then one \<open>key: value\<close> line per field.\<close>

definition clean_value :: "string \<Rightarrow> bool" where
  "clean_value v \<longleftrightarrow> v \<noteq> [] \<and> list_all (\<lambda>c. \<not> is_ws c) v"

definition vv_text :: "(string \<times> string) list \<Rightarrow> string" where
  "vv_text flds = concat (map (\<lambda>l. l @ [NL]) (map (\<lambda>(k, v). k @ '': '' @ v) flds))"

lemma trim_space_value: "clean_value v \<Longrightarrow> trim (CHR '' '' # v) = v"
proof -
  assume "clean_value v"
  then have v: "v \<noteq> []" "\<not> is_ws (hd v)" "\<not> is_ws (last v)"
    by (auto simp: clean_value_def list_all_iff)
  have "trim (CHR '' '' # v) = trim v"
    by (simp add: trim_def trim_start_def is_ws_def)
  also have "\<dots> = v" using v by (intro trim_no_ws) simp
  finally show ?thesis .
qed

lemma vv_line_clean: "clean_value k \<Longrightarrow> clean_value v \<Longrightarrow> clean_line (k @ '': '' @ v)"
proof -
  assume k: "clean_value k" and v: "clean_value v"
  then have "NL \<notin> set k" "NL \<notin> set v" "v \<noteq> []" "last v \<noteq> CR"
    by (auto simp: clean_value_def list_all_iff is_ws_def)
  then show ?thesis by (auto simp: clean_line_def suffix_def append_eq_Cons_conv dest: arg_cong [where f = last])
qed

lemma vv_field_lookup:
  assumes "list_all (\<lambda>(k, v). clean_value k \<and> CHR '':'' \<notin> set k \<and> clean_value v) flds" and "CHR '':'' \<notin> set key"
  shows "vv_field (vv_text flds) (key @ '':'') = map_of flds key"
proof -
  have "lines (vv_text flds @ []) = map (\<lambda>(k, v). k @ '': '' @ v) flds @ lines []"
    unfolding vv_text_def using assms(1) vv_line_clean by (intro lines_unlines) (auto simp: list_all_iff)
  then have l: "lines (vv_text flds) = map (\<lambda>(k, v). k @ '': '' @ v) flds" by simp
  have "find_map (\<lambda>l. map_option trim (strip_prefix (key @ '':'') l)) (map (\<lambda>(k, v). k @ '': '' @ v) flds) = map_of flds key"
    using assms(1)
  proof (induction flds)
    case Nil
    then show ?case by simp
  next
    case (Cons f flds)
    obtain k v where f: "f = (k, v)" by force
    have kv: "CHR '':'' \<notin> set k" "clean_value v" using Cons.prems f by auto
    show ?case
    proof (cases "k = key")
      case True
      have sp: "strip_prefix (key @ '':'') (key @ CHR '':'' # CHR '' '' # v) = Some (CHR '' '' # v)" by simp
      show ?thesis using f True trim_space_value [OF kv(2)] by (simp add: sp)
    next
      case False
      have "strip_prefix (key @ '':'') (k @ '': '' @ v) = None"
      proof (rule ccontr)
        assume "strip_prefix (key @ '':'') (k @ '': '' @ v) \<noteq> None"
        then obtain r where "k @ CHR '':'' # CHR '' '' # v = key @ CHR '':'' # r" by auto
        then have "takeWhile (\<lambda>c. c \<noteq> CHR '':'') (k @ CHR '':'' # CHR '' '' # v)
            = takeWhile (\<lambda>c. c \<noteq> CHR '':'') (key @ CHR '':'' # r)" by simp
        moreover have "takeWhile (\<lambda>c. c \<noteq> CHR '':'') (a @ CHR '':'' # b) = a" if "CHR '':'' \<notin> set a" for a b
          using that by (induction a) auto
        ultimately show False using kv(1) assms(2) False by simp
      qed
      with Cons f False show ?thesis by simp
    qed
  qed
  then show ?thesis by (simp add: vv_field_def l)
qed

section \<open>Properties\<close>

text \<open>
  Reading \<open>rustc -vV\<close>: from a report made of \<open>key: value\<close> lines, the release, host and
  commit are exactly the values of those keys, the commit cut to nine characters; the parse
  fails exactly when one of the three is missing, and names the first one missing.
\<close>
lemma parse_rustc_vv_spec:
  assumes "list_all (\<lambda>(k, v). clean_value k \<and> CHR '':'' \<notin> set k \<and> clean_value v) flds"
  shows "parse_rustc_vv (vv_text flds) =
     (case (map_of flds ''release'', map_of flds ''host'', map_of flds ''commit-hash'') of
        (Some r, Some h, Some c) \<Rightarrow> Inr \<lparr> vv_release = r, vv_commit_hash = take 9 c, vv_host = h \<rparr>
      | (None, _, _) \<Rightarrow> Inl (TParse ''release'')
      | (Some r, None, _) \<Rightarrow> Inl (TParse ''host'')
      | (Some r, Some h, None) \<Rightarrow> Inl (TParse ''commit-hash''))"
proof -
  have "vv_field (vv_text flds) ''release:'' = map_of flds ''release''"
    and "vv_field (vv_text flds) ''host:'' = map_of flds ''host''"
    and "vv_field (vv_text flds) ''commit-hash:'' = map_of flds ''commit-hash''"
    using vv_field_lookup [OF assms, of "''release''"] vv_field_lookup [OF assms, of "''host''"]
      vv_field_lookup [OF assms, of "''commit-hash''"] by simp_all
  then show ?thesis by (simp add: parse_rustc_vv_def split: option.splits)
qed

text \<open>
  The mismatch check passes exactly on equal commit and host, and a refusal carries both
  hosts and both fingerprints unchanged; but the commit is compared as text, so two distribution
  builds without commit information (\<open>commit-hash: unknown\<close>) are taken as compatible on the
  same host whatever their releases.
\<close>
lemma toolchain_check_spec:
  "(check ch c sh s = Inr () \<longleftrightarrow> rustc_commit c = rustc_commit s \<and> fp_host c = fp_host s)
   \<and> (if rustc_commit c = rustc_commit s \<and> fp_host c = fp_host s then check ch c sh s = Inr ()
      else check ch c sh s = Inl \<lparr> mm_client_host = ch, mm_client = c, mm_server_host = sh, mm_server = s \<rparr>)
   \<and> (\<exists>a b. rustc_version a = ''1.80.0'' \<and> rustc_version b = ''1.95.0'' \<and> check ch a sh b = Inr ())"
proof -
  have "\<exists>a b. rustc_version a = ''1.80.0'' \<and> rustc_version b = ''1.95.0'' \<and> check ch a sh b = Inr ()"
    by (rule exI [of _ "\<lparr> rustc_commit = ''unknown'', rustc_version = ''1.80.0'', fp_host = ''x'', cargo_version = [], toolchain_name = [] \<rparr>"],
        rule exI [of _ "\<lparr> rustc_commit = ''unknown'', rustc_version = ''1.95.0'', fp_host = ''x'', cargo_version = [], toolchain_name = [] \<rparr>"])
      (simp add: check_def compatible_with_def)
  then show ?thesis by (auto simp: check_def compatible_with_def)
qed

end
