(* ===== verification/Runner.thy ===== *)
theory Runner
  imports Host Toolchain
begin

text \<open>
  Job execution: \<open>crates/rbs-server/src/runner.rs\<close>.

  Spawning a process is the parameter \<open>spawn_proc\<close>; the file system predicate \<open>is_dir\<close>, the
  server's environment and the toolchain probe \<open>exec\<close> are parameters too. Supervision is a
  function of what the select statement observes first and of what the two output pipes
  deliver: its result is the list of events sent on the job's channel, the signals sent to the
  job's process group, and the moment of the \<open>Exited\<close> event. Reads of the two pipes interleave by
  a schedule, and carry the time they take, since the supervisor gives up on a pipe that a
  stray process holds open: a pump it has given up on keeps sending after \<open>Exited\<close>.
\<close>

section \<open>Commands\<close>

datatype scope = ScopeNone | Systemd u32

record runner =
  rn_makeflags :: string
  rn_scope :: scope
  rn_timeout :: "u64 option"
  rn_hostname :: string

record command =
  cm_program :: string
  cm_args :: "string list"
  cm_cwd :: path
  cm_env :: "string \<rightharpoonup> string"

definition INHERITED_ENV :: "string list" where
  "INHERITED_ENV = [''PATH'', ''HOME'', ''USER'', ''TERM'', ''LANG'', ''XDG_RUNTIME_DIR'', ''DBUS_SESSION_BUS_ADDRESS'']"

definition inherit_env :: "(string \<rightharpoonup> string) \<Rightarrow> (string \<rightharpoonup> string)" where
  "inherit_env server_env =
     foldl (\<lambda>env key. case server_env key of Some v \<Rightarrow> env(key \<mapsto> v) | None \<Rightarrow> env) Map.empty INHERITED_ENV"

definition validate_cwd :: "(path \<Rightarrow> bool) \<Rightarrow> path \<Rightarrow> (unit, reject_reason) result" where
  "validate_cwd is_dir cwd =
     (if \<not> is_absolute cwd then Err (RInternal (''cwd '' @ cwd @ '' is not absolute''))
      else if \<not> is_dir cwd then Err (RInternal (''cwd '' @ cwd @ '' does not exist on the server''))
      else Ok ())"

text \<open>
  The error text of a failed probe is rendered by the error types' \<open>Display\<close>. The probe runs as a
  blocking task; \<open>join_err\<close> is the text of the error when the task itself fails (it panicked, or the
  runtime is shutting down).
\<close>

definition check_toolchain ::
  "'io exec \<Rightarrow> string option \<Rightarrow> ('io toolchain_error \<Rightarrow> string) \<Rightarrow> runner \<Rightarrow> job_request
     \<Rightarrow> (unit, reject_reason) result" where
  "check_toolchain exec join_err show_err r req =
     and_then (case join_err of
                 Some e \<Rightarrow> Err (RInternal (''fingerprint task failed: '' @ e))
               | None \<Rightarrow> Ok (fingerprint_with_path exec (jr_cwd req) (jr_toolchain_override req))) (\<lambda>probed.
     and_then (map_err (\<lambda>e. RInternal (''toolchain fingerprint failed: '' @ show_err e)) probed) (\<lambda>server_fp.
       map_err (\<lambda>m. ToolchainMismatch (mm_server m) (mm_client m))
         (check (ci_hostname (jr_client req)) (jr_toolchain req) (rn_hostname r) server_fp)))"

text \<open>Without a scope, an empty argument vector is an index panic: \<open>None\<close>.\<close>

definition build_command :: "(string \<rightharpoonup> string) \<Rightarrow> runner \<Rightarrow> job_request \<Rightarrow> scope \<Rightarrow> command option" where
  "build_command server_env r req sc =
     map_option (\<lambda>(prog, args).
         \<lparr> cm_program = prog, cm_args = args, cm_cwd = jr_cwd req,
           cm_env = ((inherit_env server_env) ++ jr_env req)
             (''MAKEFLAGS'' \<mapsto> rn_makeflags r, ''CARGO_MAKEFLAGS'' \<mapsto> rn_makeflags r,
              ''RUSTC_WRAPPER'' \<mapsto> ''kache'', ''RBS_SHIM_ACTIVE'' \<mapsto> ''1'') \<rparr>)
       (case sc of
          Systemd mem_max_gib \<Rightarrow>
            Some (''systemd-run'',
              [''--user'', ''--scope'', ''--quiet'', ''-p'', ''MemoryMax='' @ show_nat (unat mem_max_gib) @ ''G'',
               ''-p'', ''CPUWeight='' @ show_nat (cpu_weight (jr_priority req)), ''--''] @ jr_argv req)
        | ScopeNone \<Rightarrow> (case jr_argv req of [] \<Rightarrow> None | p # args \<Rightarrow> Some (p, args)))"

definition spawn_child ::
  "(command \<Rightarrow> ('child, 'io) result) \<Rightarrow> (string \<rightharpoonup> string) \<Rightarrow> runner \<Rightarrow> job_request
     \<Rightarrow> ('child, 'io) result option" where
  "spawn_child spawn_proc server_env r req =
     (case rn_scope r of
        ScopeNone \<Rightarrow> map_option spawn_proc (build_command server_env r req ScopeNone)
      | Systemd m \<Rightarrow>
          (case map_option spawn_proc (build_command server_env r req (Systemd m)) of
             Some (Inr child) \<Rightarrow> Some (Ok child)
           | _ \<Rightarrow> map_option spawn_proc (build_command server_env r req ScopeNone)))"

text \<open>\<open>None\<close> is a panic; the guard on the argument vector excludes it.\<close>

definition spawn ::
  "(command \<Rightarrow> ('child, 'io) result) \<Rightarrow> ('io \<Rightarrow> string) \<Rightarrow> (string \<Rightarrow> string) \<Rightarrow> (string \<rightharpoonup> string)
     \<Rightarrow> runner \<Rightarrow> job_request \<Rightarrow> ('child, reject_reason) result option" where
  "spawn spawn_proc show_io quoted server_env r req =
     (if jr_argv req = [] then Some (Err (RInternal ''empty argv''))
      else map_option
             (map_err (\<lambda>e. RInternal (''spawn '' @ quoted (hd (jr_argv req)) @ '' failed: '' @ show_io e)))
             (spawn_child spawn_proc server_env r req))"

section \<open>Supervision\<close>

datatype wait_status = WExited i32 | WSignaled i32 | WOther

definition status_of :: "wait_status \<Rightarrow> exit_status" where
  "status_of st = (case st of WExited c \<Rightarrow> Code c | WSignaled s \<Rightarrow> Signal s | WOther \<Rightarrow> Code (- 1))"

datatype signal = SIGTERM | SIGKILL

text \<open>Waiting for the child after SIGTERM: its status, an error, or the grace period passed.\<close>

datatype 'io grace_wait = GraceExit wait_status | GraceError 'io | GraceElapsed

fun terminate :: "'io grace_wait \<Rightarrow> (wait_status, 'io) result \<Rightarrow> signal list \<times> wait_status" where
  "terminate (GraceExit st) final = ([SIGTERM], st)"
| "terminate _ final = ([SIGTERM, SIGKILL], (case final of Inr st \<Rightarrow> st | Inl e \<Rightarrow> WSignaled 9))"

text \<open>
  \<open>pump\<close>: one event per read, until end of file or an error; a list of reads that runs out
  before is a pipe that stays open and silent.
\<close>

fun pump :: "(u8 list \<Rightarrow> job_event) \<Rightarrow> (u8 list, 'io) result list \<Rightarrow> job_event list" where
  "pump mk [] = []"
| "pump mk (Inl e # rs) = []"
| "pump mk (Inr bytes # rs) = (if bytes = [] then [] else mk bytes # pump mk rs)"

fun interleave :: "bool list \<Rightarrow> 'a list \<Rightarrow> 'a list \<Rightarrow> 'a list" where
  "interleave sched [] ys = ys"
| "interleave sched xs [] = xs"
| "interleave [] xs ys = xs @ ys"
| "interleave (b # sched) (x # xs) (y # ys) =
     (if b then x # interleave sched xs (y # ys) else y # interleave sched (x # xs) ys)"

text \<open>
  What ends the wait: the child exits (or waiting fails), the job is cancelled, or the deadline
  passes. \<open>out_taken\<close> and \<open>err_taken\<close> say whether the child had the pipe.
\<close>

datatype 'io race =
    ChildWait "(wait_status, 'io) result"
  | Cancelled "'io grace_wait" "(wait_status, 'io) result"
  | Deadline "'io grace_wait" "(wait_status, 'io) result"

fun race_status :: "'io race \<Rightarrow> signal list \<times> wait_status" where
  "race_status (ChildWait (Inr st)) = ([], st)"
| "race_status (ChildWait (Inl e)) = ([], WExited 1)"
| "race_status (Cancelled g f) = terminate g f"
| "race_status (Deadline g f) = terminate g f"

text \<open>
  A pipe with its clock: each read with the milliseconds its event takes after the previous one.
  The clock starts when the final SIGKILL goes to the process group; what was read before
  has delay 0. \<open>read_by t\<close> are the reads done at time \<open>t\<close>, \<open>read_after t\<close> the others, and
  \<open>pump_ends\<close> is the time at which the pump's task is over.
\<close>

type_synonym 'io pipe = "(nat \<times> (u8 list, 'io) result) list"

fun read_by :: "nat \<Rightarrow> 'io pipe \<Rightarrow> (u8 list, 'io) result list" where
  "read_by t [] = []"
| "read_by t ((d, r) # rs) = (if d \<le> t then r # read_by (t - d) rs else [])"

fun read_after :: "nat \<Rightarrow> 'io pipe \<Rightarrow> (u8 list, 'io) result list" where
  "read_after t [] = []"
| "read_after t ((d, r) # rs) = (if d \<le> t then read_after (t - d) rs else map snd ((d, r) # rs))"

fun pump_ends :: "'io pipe \<Rightarrow> nat option" where
  "pump_ends [] = None"
| "pump_ends ((d, Inl e) # rs) = Some d"
| "pump_ends ((d, Inr b) # rs) = (if b = [] then Some d else map_option (\<lambda>t. d + t) (pump_ends rs))"

definition DRAIN_GRACE :: nat where "DRAIN_GRACE = 10000"

text \<open>
  One turn of the drain loop: the clock after waiting for a pump's task, at most \<open>DRAIN_GRACE\<close>.
  A pump that is still running then is detached: it goes on reading and sending.
\<close>

fun drain :: "nat \<Rightarrow> 'io pipe option \<Rightarrow> nat" where
  "drain now None = now"
| "drain now (Some rs) =
     (case pump_ends rs of
        Some t \<Rightarrow> if t \<le> now + DRAIN_GRACE then max now t else now + DRAIN_GRACE
      | None \<Rightarrow> now + DRAIN_GRACE)"

definition pumped :: "(u8 list \<Rightarrow> job_event) \<Rightarrow> nat \<Rightarrow> 'io pipe option \<Rightarrow> job_event list" where
  "pumped mk t p = (case p of None \<Rightarrow> [] | Some rs \<Rightarrow> pump mk (read_by t rs))"

definition pumped_late :: "(u8 list \<Rightarrow> job_event) \<Rightarrow> nat \<Rightarrow> 'io pipe option \<Rightarrow> job_event list" where
  "pumped_late mk t p =
     (case p of
        None \<Rightarrow> []
      | Some rs \<Rightarrow> (case pump_ends rs of
          Some e \<Rightarrow> if e \<le> t then [] else pump mk (read_after t rs)
        | None \<Rightarrow> pump mk (read_after t rs)))"

definition supervise ::
  "job_id \<Rightarrow> 'io race \<Rightarrow> bool list \<Rightarrow> bool list \<Rightarrow> 'io pipe option \<Rightarrow> 'io pipe option
     \<Rightarrow> job_event list \<times> signal list \<times> nat" where
  "supervise i rc sched sched' out err =
     (let (sigs, st) = race_status rc;
          exited_at = foldl drain 0 [out, err]
      in (Started i
            # interleave sched (pumped (Stdout i) exited_at out) (pumped (Stderr i) exited_at err)
            @ Exited i (status_of st)
            # interleave sched' (pumped_late (Stdout i) exited_at out) (pumped_late (Stderr i) exited_at err),
          sigs @ [SIGKILL], exited_at))"

section \<open>Facts\<close>

lemma inherit_env_lookup:
  "inherit_env server_env k = (if k \<in> set INHERITED_ENV then server_env k else None)"
proof -
  have "foldl (\<lambda>env key. case server_env key of Some v \<Rightarrow> env(key \<mapsto> v) | None \<Rightarrow> env) m ks k
      = (if k \<in> set ks \<and> server_env k \<noteq> None then server_env k else m k)" for ks m
    by (induction ks arbitrary: m) (auto split: option.splits)
  then show ?thesis by (auto simp: inherit_env_def)
qed

lemma filter_interleave_left:
  "\<forall>x \<in> set xs. P x \<Longrightarrow> \<forall>y \<in> set ys. \<not> P y \<Longrightarrow> filter P (interleave sched xs ys) = xs"
  by (induction sched xs ys rule: interleave.induct) (auto simp: filter_id_conv filter_empty_conv)

lemma filter_interleave_right:
  "\<forall>x \<in> set xs. \<not> P x \<Longrightarrow> \<forall>y \<in> set ys. P y \<Longrightarrow> filter P (interleave sched xs ys) = ys"
  by (induction sched xs ys rule: interleave.induct) (auto simp: filter_id_conv filter_empty_conv)

lemma set_interleave: "set (interleave sched xs ys) = set xs \<union> set ys"
  by (induction sched xs ys rule: interleave.induct) auto

lemma set_pump: "e \<in> set (pump mk rs) \<Longrightarrow> \<exists>b. e = mk b"
  by (induction mk rs rule: pump.induct) (auto split: if_splits)

fun out_bytes :: "job_event \<Rightarrow> u8 list" where
  "out_bytes (Stdout i b) = b"
| "out_bytes _ = []"

fun err_bytes :: "job_event \<Rightarrow> u8 list" where
  "err_bytes (Stderr i b) = b"
| "err_bytes _ = []"

fun pipe_bytes :: "(u8 list, 'io) result list \<Rightarrow> u8 list" where
  "pipe_bytes [] = []"
| "pipe_bytes (Inl e # rs) = []"
| "pipe_bytes (Inr b # rs) = (if b = [] then [] else b @ pipe_bytes rs)"

lemma pump_stdout: "concat (map out_bytes (pump (Stdout i) rs)) = pipe_bytes rs"
  by (induction rs rule: pipe_bytes.induct) auto

lemma pump_stderr: "concat (map err_bytes (pump (Stderr i) rs)) = pipe_bytes rs"
  by (induction rs rule: pipe_bytes.induct) auto

lemma interleave_bytes:
  assumes "\<forall>y \<in> set ys. f y = []"
  shows "concat (map f (interleave sched xs ys)) = concat (map f xs)"
    and "concat (map f (interleave sched ys xs)) = concat (map f xs)"
proof -
  show "concat (map f (interleave sched xs ys)) = concat (map f xs)"
    using assms by (induction sched xs ys rule: interleave.induct) auto
  show "concat (map f (interleave sched ys xs)) = concat (map f xs)"
    using assms by (induction sched ys xs rule: interleave.induct) auto
qed

text \<open>What a job's environment has to be, variable by variable.\<close>

definition job_env :: "(string \<rightharpoonup> string) \<Rightarrow> runner \<Rightarrow> job_request \<Rightarrow> string \<Rightarrow> string option" where
  "job_env server_env r req k =
     (if k = ''MAKEFLAGS'' \<or> k = ''CARGO_MAKEFLAGS'' then Some (rn_makeflags r)
      else if k = ''RUSTC_WRAPPER'' then Some ''kache''
      else if k = ''RBS_SHIM_ACTIVE'' then Some ''1''
      else (case jr_env req k of
              Some v \<Rightarrow> Some v
            | None \<Rightarrow> (if k \<in> set INHERITED_ENV then server_env k else None)))"

definition scope_args :: "u32 \<Rightarrow> priority \<Rightarrow> string list" where
  "scope_args g p = [''--user'', ''--scope'', ''--quiet'', ''-p'', ''MemoryMax='' @ show_nat (unat g) @ ''G'',
     ''-p'', ''CPUWeight='' @ show_nat (case p of Interactive \<Rightarrow> 200 | Agent \<Rightarrow> 100 | Background \<Rightarrow> 50)]"

lemma cpu_weight_cases: "cpu_weight p = (case p of Interactive \<Rightarrow> 200 | Agent \<Rightarrow> 100 | Background \<Rightarrow> 50)"
  by (cases p) auto

section \<open>Properties\<close>

text \<open>What a pipe delivers in all, and by a time.\<close>

definition all_bytes :: "'io pipe option \<Rightarrow> u8 list" where
  "all_bytes p = (case p of None \<Rightarrow> [] | Some rs \<Rightarrow> pipe_bytes (map snd rs))"

definition bytes_by :: "nat \<Rightarrow> 'io pipe option \<Rightarrow> u8 list" where
  "bytes_by t p = (case p of None \<Rightarrow> [] | Some rs \<Rightarrow> pipe_bytes (read_by t rs))"

definition ends_by :: "nat \<Rightarrow> 'io pipe option \<Rightarrow> bool" where
  "ends_by t p \<longleftrightarrow> (case p of None \<Rightarrow> True | Some rs \<Rightarrow> (case pump_ends rs of None \<Rightarrow> False | Some e \<Rightarrow> e \<le> t))"

lemma pump_read_split:
  "pump mk (read_by t rs) @ (case pump_ends rs of
       Some e \<Rightarrow> if e \<le> t then [] else pump mk (read_after t rs)
     | None \<Rightarrow> pump mk (read_after t rs)) = pump mk (map snd rs)"
proof (induction rs arbitrary: t rule: pump_ends.induct)
  case (3 d b rs)
  show ?case
  proof (cases "b = []")
    case False
    from 3 [OF False, of "t - d"] show ?thesis
      using False by (cases "pump_ends rs") (auto split: if_splits)
  qed auto
qed auto

lemma pumped_split:
  "pumped mk t p @ pumped_late mk t p = (case p of None \<Rightarrow> [] | Some rs \<Rightarrow> pump mk (map snd rs))"
  using pump_read_split [of mk t] by (cases p) (simp_all add: pumped_def pumped_late_def)

lemma pumped_late_ended: "ends_by t p \<Longrightarrow> pumped_late mk t p = []"
  by (auto simp: ends_by_def pumped_late_def split: option.splits)

lemma pumped_bytes:
  "concat (map out_bytes (pumped (Stdout i) t p)) = bytes_by t p"
  "concat (map err_bytes (pumped (Stderr i) t p)) = bytes_by t p"
  "bytes_by t p @ concat (map out_bytes (pumped_late (Stdout i) t p)) = all_bytes p"
  "bytes_by t p @ concat (map err_bytes (pumped_late (Stderr i) t p)) = all_bytes p"
proof -
  show o: "concat (map out_bytes (pumped (Stdout i) t p)) = bytes_by t p"
    and e: "concat (map err_bytes (pumped (Stderr i) t p)) = bytes_by t p"
    by (simp_all add: pumped_def bytes_by_def pump_stdout pump_stderr split: option.split)
  show "bytes_by t p @ concat (map out_bytes (pumped_late (Stdout i) t p)) = all_bytes p"
    unfolding o [symmetric] all_bytes_def concat_append [symmetric] map_append [symmetric] pumped_split
    by (simp add: pump_stdout split: option.split)
  show "bytes_by t p @ concat (map err_bytes (pumped_late (Stderr i) t p)) = all_bytes p"
    unfolding e [symmetric] all_bytes_def concat_append [symmetric] map_append [symmetric] pumped_split
    by (simp add: pump_stderr split: option.split)
qed

lemma pumped_kind:
  "\<forall>e \<in> set (pumped mk t p). \<exists>b. e = mk b" "\<forall>e \<in> set (pumped_late mk t p). \<exists>b. e = mk b"
  by (auto simp: pumped_def pumped_late_def split: option.splits if_splits dest: set_pump)

lemma bytes_by_mono:
  assumes "t \<le> t' \<or> ends_by t' p"
  shows "prefix (bytes_by t p) (bytes_by t' p)"
proof (cases p)
  case (Some rs)
  have "prefix (pipe_bytes (read_by t rs)) (pipe_bytes (read_by t' rs))"
    if "t \<le> t' \<or> (case pump_ends rs of None \<Rightarrow> False | Some e \<Rightarrow> e \<le> t')" for rs :: "'a pipe"
    using that
  proof (induction rs arbitrary: t t' rule: pump_ends.induct)
    case (3 d b rs)
    then have "t - d \<le> t' - d \<or> (case pump_ends rs of None \<Rightarrow> False | Some e \<Rightarrow> e \<le> t' - d)" if "b \<noteq> []"
      using that by (cases "pump_ends rs") auto
    with 3 show ?case by (auto split: option.splits)
  qed auto
  with Some assms show ?thesis by (simp add: bytes_by_def ends_by_def)
qed (simp add: bytes_by_def)

lemma drain_bounds: "now \<le> drain now p" "drain now p \<le> now + DRAIN_GRACE"
  by (cases "(now, p)" rule: drain.cases; auto split: option.split)+

lemma drain_ended: "ends_by (now + DRAIN_GRACE) p \<Longrightarrow> ends_by (drain now p) p"
  by (cases "(now, p)" rule: drain.cases) (auto simp: ends_by_def split: option.splits)

lemma drain_waits: "\<not> ends_by (drain now p) p \<Longrightarrow> drain now p = now + DRAIN_GRACE"
  by (cases "(now, p)" rule: drain.cases) (auto simp: ends_by_def split: option.splits if_splits)

lemma ends_by_mono: "ends_by t p \<Longrightarrow> t \<le> t' \<Longrightarrow> ends_by t' p"
  by (auto simp: ends_by_def split: option.splits)

lemma drained:
  fixes out err :: "'io pipe option"
  defines "at \<equiv> foldl drain 0 [out, err]"
  shows "at \<le> 2 * DRAIN_GRACE" "prefix (bytes_by DRAIN_GRACE out) (bytes_by at out)" "prefix (bytes_by DRAIN_GRACE err) (bytes_by at err)"
    "ends_by DRAIN_GRACE out \<Longrightarrow> ends_by at out" "ends_by DRAIN_GRACE err \<Longrightarrow> ends_by at err"
proof -
  have at: "at = drain (drain 0 out) err" by (simp add: at_def)
  have le: "drain 0 out \<le> at" "drain 0 out \<le> DRAIN_GRACE" "at \<le> drain 0 out + DRAIN_GRACE"
    unfolding at using drain_bounds [of 0 out] drain_bounds [of "drain 0 out" err] by simp_all
  then show "at \<le> 2 * DRAIN_GRACE" by simp
  have "DRAIN_GRACE \<le> at \<or> ends_by at out"
    using drain_waits [of 0 out] ends_by_mono [of "drain 0 out" out at] le by (cases "ends_by (drain 0 out) out") simp_all
  then show "prefix (bytes_by DRAIN_GRACE out) (bytes_by at out)" by (rule bytes_by_mono)
  have "DRAIN_GRACE \<le> at \<or> ends_by at err" using drain_waits [of "drain 0 out" err] unfolding at by auto
  then show "prefix (bytes_by DRAIN_GRACE err) (bytes_by at err)" by (rule bytes_by_mono)
  show "ends_by at out" if "ends_by DRAIN_GRACE out"
    using drain_ended [of 0 out] that le ends_by_mono by auto
  show "ends_by at err" if "ends_by DRAIN_GRACE err"
    unfolding at using drain_ended [of "drain 0 out" err] ends_by_mono [OF that] by simp
qed

lemma interleaved_output:
  assumes "\<forall>e \<in> set xs. \<exists>b. e = Stdout i b" and "\<forall>e \<in> set ys. \<exists>b. e = Stderr i b"
  shows "list_all (\<lambda>e. \<exists>b. e = Stdout i b \<or> e = Stderr i b) (interleave sched xs ys)"
    and "concat (map out_bytes (interleave sched xs ys)) = concat (map out_bytes xs)"
    and "concat (map err_bytes (interleave sched xs ys)) = concat (map err_bytes ys)"
proof -
  have "\<forall>y \<in> set ys. out_bytes y = []" and "\<forall>x \<in> set xs. err_bytes x = []" using assms by force+
  then show "concat (map out_bytes (interleave sched xs ys)) = concat (map out_bytes xs)"
    "concat (map err_bytes (interleave sched xs ys)) = concat (map err_bytes ys)"
    by (simp_all add: interleave_bytes)
  show "list_all (\<lambda>e. \<exists>b. e = Stdout i b \<or> e = Stderr i b) (interleave sched xs ys)"
    using assms by (auto simp: set_interleave list_all_iff)
qed

lemma supervise_shape:
  assumes "supervise i rc sched sched' out err = (evs, sigs, at)"
  obtains outs late where "evs = Started i # outs @ Exited i (status_of (snd (race_status rc))) # late"
    and "sigs = fst (race_status rc) @ [SIGKILL]" and "at = foldl drain 0 [out, err]"
    and "list_all (\<lambda>e. \<exists>b. e = Stdout i b \<or> e = Stderr i b) outs" and "list_all (\<lambda>e. \<exists>b. e = Stdout i b \<or> e = Stderr i b) late"
    and "concat (map out_bytes outs) = bytes_by at out" and "concat (map err_bytes outs) = bytes_by at err"
    and "concat (map out_bytes outs) @ concat (map out_bytes late) = all_bytes out"
    and "concat (map err_bytes outs) @ concat (map err_bytes late) = all_bytes err"
    and "ends_by at out \<and> ends_by at err \<longrightarrow> late = []"
proof -
  let ?at = "foldl drain 0 [out, err]"
  let ?outs = "interleave sched (pumped (Stdout i) ?at out) (pumped (Stderr i) ?at err)"
  let ?late = "interleave sched' (pumped_late (Stdout i) ?at out) (pumped_late (Stderr i) ?at err)"
  have eq: "evs = Started i # ?outs @ Exited i (status_of (snd (race_status rc))) # ?late"
    "sigs = fst (race_status rc) @ [SIGKILL]" "at = ?at"
    using assms by (auto simp: supervise_def Let_def split: prod.splits)
  note o = interleaved_output [of "pumped (Stdout i) ?at out" i "pumped (Stderr i) ?at err" sched, OF pumped_kind(1) pumped_kind(1)]
    and l = interleaved_output [of "pumped_late (Stdout i) ?at out" i "pumped_late (Stderr i) ?at err" sched', OF pumped_kind(2) pumped_kind(2)]
  have "ends_by at out \<and> ends_by at err \<longrightarrow> ?late = []" by (simp add: pumped_late_ended eq(3))
  then show thesis
    by (rule that [OF eq o(1) l(1), rotated -1]) (simp_all only: eq(3) o l pumped_bytes)
qed

text \<open>
  C17. The events of a supervised job, however it ends, however its two output pipes interleave
  and however long a stray process holds them open. \<open>Started\<close> comes first and \<open>Exited\<close> once, at
  most twenty seconds after the last signal to the process group; all other events are output
  of this job, each stream's bytes in order and none lost from the channel. Before \<open>Exited\<close>
  comes at least what a stream delivers in the first ten seconds, and when both pipes end
  within them, all of it, and \<open>Exited\<close> is the last event; otherwise the rest follows it. The
  status is the process's own, code 1 when waiting for it fails, and what ended it when it had to
  be terminated; the signals are none before its exit, or SIGTERM and, after the grace
  period, SIGKILL; and the last one is always SIGKILL, for what is left of the group.
\<close>
theorem supervise_event_protocol:
  assumes "supervise i rc sched sched' out err = (evs, sigs, at)"
  shows "\<exists>outs late st. evs = Started i # outs @ Exited i st # late
     \<and> list_all (\<lambda>e. \<exists>b. e = Stdout i b \<or> e = Stderr i b) outs \<and> list_all (\<lambda>e. \<exists>b. e = Stdout i b \<or> e = Stderr i b) late
     \<and> concat (map out_bytes outs) @ concat (map out_bytes late) = all_bytes out
     \<and> concat (map err_bytes outs) @ concat (map err_bytes late) = all_bytes err
     \<and> prefix (bytes_by 10000 out) (concat (map out_bytes outs)) \<and> prefix (bytes_by 10000 err) (concat (map err_bytes outs))
     \<and> (ends_by 10000 out \<and> ends_by 10000 err \<longrightarrow> late = []) \<and> at \<le> 20000
     \<and> (case rc of
          ChildWait w \<Rightarrow> st = (case w of Inr ws \<Rightarrow> status_of ws | Inl _ \<Rightarrow> Code 1) \<and> sigs = [SIGKILL]
        | Cancelled g w \<Rightarrow> (case g of
              GraceExit ws \<Rightarrow> st = status_of ws \<and> sigs = [SIGTERM, SIGKILL]
            | _ \<Rightarrow> st = (case w of Inr ws \<Rightarrow> status_of ws | Inl _ \<Rightarrow> Signal 9) \<and> sigs = [SIGTERM, SIGKILL, SIGKILL])
        | Deadline g w \<Rightarrow> (case g of
              GraceExit ws \<Rightarrow> st = status_of ws \<and> sigs = [SIGTERM, SIGKILL]
            | _ \<Rightarrow> st = (case w of Inr ws \<Rightarrow> status_of ws | Inl _ \<Rightarrow> Signal 9) \<and> sigs = [SIGTERM, SIGKILL, SIGKILL]))"
proof -
  obtain outs late where sh: "evs = Started i # outs @ Exited i (status_of (snd (race_status rc))) # late"
      "sigs = fst (race_status rc) @ [SIGKILL]" "at = foldl drain 0 [out, err]"
      "list_all (\<lambda>e. \<exists>b. e = Stdout i b \<or> e = Stderr i b) outs" "list_all (\<lambda>e. \<exists>b. e = Stdout i b \<or> e = Stderr i b) late"
      "concat (map out_bytes outs) = bytes_by at out" "concat (map err_bytes outs) = bytes_by at err"
      "concat (map out_bytes outs) @ concat (map out_bytes late) = all_bytes out"
      "concat (map err_bytes outs) @ concat (map err_bytes late) = all_bytes err"
      "ends_by at out \<and> ends_by at err \<longrightarrow> late = []"
    by (rule supervise_shape [OF assms])
  note d = drained [where out = out and err = err, folded sh(3), unfolded DRAIN_GRACE_def]
  have st: "status_of (WSignaled 9) = Signal 9" "status_of (WExited 1) = Code 1" by (simp_all add: status_of_def)
  show ?thesis
    by (intro exI [of _ outs] exI [of _ late] exI conjI, rule sh(1))
      (use sh d st in \<open>auto split: race.split grace_wait.split sum.split\<close>)
qed

theorem supervise_event_protocol_witness:
  "\<exists>outs. fst (supervise (JobId 1) (ChildWait (Inr (WExited 3)) :: unit race) [] []
        (Some [(0, Inr [104]), (4000, Inr [105]), (9, Inr [])]) (Some [(2, Inr [63]), (1, Inl ())]))
      = Started (JobId 1) # outs @ [Exited (JobId 1) (Code 3)]
    \<and> concat (map out_bytes outs) = [104, 105] \<and> concat (map err_bytes outs) = [63]"
proof -
  let ?out = "Some [(0, Inr [104]), (4000, Inr [105]), (9, Inr [])] :: unit pipe option"
  let ?err = "Some [(2, Inr [63]), (1, Inl ())] :: unit pipe option"
  obtain evs sigs at where sv: "supervise (JobId 1) (ChildWait (Inr (WExited 3))) [] [] ?out ?err = (evs, sigs, at)"
    by (rule prod_cases3)
  have "all_bytes ?out = [104, 105]" "all_bytes ?err = [63]" "ends_by 10000 ?out" "ends_by 10000 ?err"
    by (simp_all add: all_bytes_def ends_by_def)
  with supervise_event_protocol [OF sv] show ?thesis
    unfolding sv by (auto simp: status_of_def)
qed

text \<open>
  A pipe that a stray process keeps open: the pump is given up after ten seconds, and what it
  reads then comes after \<open>Exited\<close>.
\<close>

lemma supervise_held_open:
  "supervise (JobId 1) (ChildWait (Inr (WExited 3)) :: unit race) [] []
      (Some [(0, Inr [104]), (4000, Inr [105]), (9000, Inr [33])]) None
   = ([Started (JobId 1), Stdout (JobId 1) [104], Stdout (JobId 1) [105], Exited (JobId 1) (Code 3),
       Stdout (JobId 1) [33]], [SIGKILL], 10000)"
  by (simp add: supervise_def pumped_def pumped_late_def status_of_def DRAIN_GRACE_def)

text \<open>
  The environment and the command line of a job. Nothing of the server's environment
  reaches a job but seven named variables; the request's variables override those, and the
  jobserver, the compiler wrapper and the shim guard override the request. Under systemd the
  job's own arguments follow the scope limits; a job never spawns with an index panic.
\<close>
lemma job_command_spec:
  "(case build_command server_env r req sc of
      None \<Rightarrow> sc = ScopeNone \<and> jr_argv req = []
    | Some c \<Rightarrow>
        cm_cwd c = jr_cwd req
        \<and> (\<forall>k. cm_env c k = job_env server_env r req k)
        \<and> (case sc of
             ScopeNone \<Rightarrow> cm_program c # cm_args c = jr_argv req
           | Systemd g \<Rightarrow> cm_program c = ''systemd-run''
               \<and> cm_args c = scope_args g (jr_priority req) @ ''--'' # jr_argv req))
   \<and> spawn spawn_proc show_io quoted server_env r req \<noteq> None"
proof
  show "spawn spawn_proc show_io quoted server_env r req \<noteq> None"
    by (auto simp: spawn_def spawn_child_def build_command_def split: scope.splits list.splits option.splits sum.splits)
  have env: "(((inherit_env server_env) ++ jr_env req)
             (''MAKEFLAGS'' \<mapsto> rn_makeflags r, ''CARGO_MAKEFLAGS'' \<mapsto> rn_makeflags r,
              ''RUSTC_WRAPPER'' \<mapsto> ''kache'', ''RBS_SHIM_ACTIVE'' \<mapsto> ''1'')) k = job_env server_env r req k" for k
    by (simp add: map_add_def inherit_env_lookup job_env_def split: option.split)
  show "case build_command server_env r req sc of
      None \<Rightarrow> sc = ScopeNone \<and> jr_argv req = []
    | Some c \<Rightarrow>
        cm_cwd c = jr_cwd req
        \<and> (\<forall>k. cm_env c k = job_env server_env r req k)
        \<and> (case sc of
             ScopeNone \<Rightarrow> cm_program c # cm_args c = jr_argv req
           | Systemd g \<Rightarrow> cm_program c = ''systemd-run''
               \<and> cm_args c = scope_args g (jr_priority req) @ ''--'' # jr_argv req)"
  proof (cases sc)
    case ScopeNone
    then show ?thesis
      by (cases "jr_argv req") (simp_all add: build_command_def env del: fun_upd_apply)
  next
    case (Systemd g)
    then show ?thesis
      by (simp add: build_command_def env scope_args_def cpu_weight_cases del: fun_upd_apply)
  qed
qed

end
