(* ===== verification/Server.thy ===== *)
theory Server
  imports Scheduler Runner
begin

text \<open>
  The shared state of the server and the per-connection protocol machine:
  \<open>crates/rbs-server/src/socket.rs\<close>. This theory has the handlers as functions that run
  without interruption; \<open>Server_Steps\<close> splits them at their lock acquisitions and interleaves
  them.

  The one-shot channel of a queued job is a state per job identifier. The map of waiters keeps
  the sending half, the connection keeps the receiving half: \<open>send\<close> succeeds exactly while the
  receiver has not been dropped, which is the state \<open>Open\<close>. What the outside world does in a
  call (memory snapshots, spawning, the toolchain probe, whether a write succeeds) is an
  argument.
\<close>

section \<open>Shared state\<close>

datatype chan = NoChan | Open | Sent | Consumed | Closed

record shared =
  sh_sched :: scheduler
  sh_waiters :: "job_id set"
  sh_chan :: "job_id \<Rightarrow> chan"
  sh_next_id :: u64

definition shared_new :: "scheduler \<Rightarrow> shared" where
  "shared_new sc = \<lparr> sh_sched = sc, sh_waiters = {}, sh_chan = (\<lambda>_. NoChan), sh_next_id = 1 \<rparr>"

definition next_id :: "'a shared_scheme \<Rightarrow> job_id \<times> 'a shared_scheme" where
  "next_id s = (JobId (sh_next_id s), s\<lparr>sh_next_id := sh_next_id s + 1\<rparr>)"

section \<open>Waking released jobs\<close>

text \<open>The part of \<open>wake\<close> under the lock of the waiters: who could not be reached.\<close>

fun deliver_all :: "'a shared_scheme \<Rightarrow> job_id list \<Rightarrow> job_id list \<times> 'a shared_scheme" where
  "deliver_all s [] = ([], s)"
| "deliver_all s (i # ids) =
     (let delivered = (i \<in> sh_waiters s \<and> sh_chan s i = Open);
          s1 = s\<lparr>sh_waiters := sh_waiters s - {i},
                 sh_chan := (if delivered then (sh_chan s)(i := Sent) else sh_chan s)\<rparr>;
          r = deliver_all s1 ids
      in (if delivered then fst r else i # fst r, snd r))"

fun finish_orphans :: "'a shared_scheme \<Rightarrow> snapshot \<Rightarrow> job_id list \<Rightarrow> job_id list \<times> 'a shared_scheme" where
  "finish_orphans s snap [] = ([], s)"
| "finish_orphans s snap (i # ids) =
     (let f = finish (sh_sched s) snap;
          r = finish_orphans (s\<lparr>sh_sched := snd f\<rparr>) snap ids
      in (fst f @ fst r, snd r))"

lemma deliver_all_sched [simp]: "sh_sched (snd (deliver_all s ids)) = sh_sched s"
  by (induction s ids rule: deliver_all.induct) (auto simp: Let_def)

lemma deliver_all_length: "length (fst (deliver_all s ids)) \<le> length ids"
  by (induction s ids rule: deliver_all.induct) (auto simp: Let_def le_SucI)

lemma finish_orphans_queue:
  "queued_ids (sh_sched s) = fst (finish_orphans s snap ids) @ queued_ids (sh_sched (snd (finish_orphans s snap ids)))"
proof (induction s snap ids rule: finish_orphans.induct)
  case (1 s snap)
  then show ?case by simp
next
  case (2 s snap i ids)
  obtain rel sc where f: "finish (sh_sched s) snap = (rel, sc)" by force
  from sched.finish_law [OF f] have "queued_ids (sh_sched s) = rel @ queued_ids sc" by simp
  with 2 [OF refl] f show ?case by (simp add: Let_def)
qed

function wake :: "'a shared_scheme \<Rightarrow> job_id list \<Rightarrow> snapshot \<Rightarrow> 'a shared_scheme" where
  "wake s released snap =
     (if released = [] then s
      else (let d = deliver_all s released;
                f = finish_orphans (snd d) snap (fst d)
            in wake (snd f) (fst f) snap))"
  by pat_completeness auto
termination
proof (relation "measure (\<lambda>(s, released, snap). length released + length (queued_ids (sh_sched s)))")
  fix s :: "'a shared_scheme" and released snap d f
  assume "released \<noteq> []" and d: "d = deliver_all s released" and f: "f = finish_orphans (snd d) snap (fst d)"
  have "length (queued_ids (sh_sched s)) = length (fst f) + length (queued_ids (sh_sched (snd f)))"
    using arg_cong [OF finish_orphans_queue [of "snd d" snap "fst d"], of length] d f by simp
  with \<open>released \<noteq> []\<close>
  show "((snd f, fst f, snap), s, released, snap) \<in> measure (\<lambda>(s, released, snap). length released + length (queued_ids (sh_sched s)))"
    by simp
qed simp

declare wake.simps [simp del]

definition job_finished :: "'a shared_scheme \<Rightarrow> snapshot \<Rightarrow> 'a shared_scheme" where
  "job_finished s snap =
     (let f = finish (sh_sched s) snap in wake (s\<lparr>sh_sched := snd f\<rparr>) (fst f) snap)"

definition shared_poll :: "'a shared_scheme \<Rightarrow> snapshot \<Rightarrow> 'a shared_scheme" where
  "shared_poll s snap =
     (let p = poll (sh_sched s) snap in wake (s\<lparr>sh_sched := snd p\<rparr>) (fst p) snap)"

section \<open>The server around a connection\<close>

record ('child, 'io) server_ctx =
  cx_identity :: server_identity
  cx_runner :: runner
  cx_jobserver :: job_server
  cx_is_dir :: "path \<Rightarrow> bool"
  cx_exec :: "'io exec"
  cx_fingerprint_join :: "string option"
  cx_show_toolchain_error :: "'io toolchain_error \<Rightarrow> string"
  cx_spawn_proc :: "command \<Rightarrow> ('child, 'io) result"
  cx_show_io :: "'io \<Rightarrow> string"
  cx_quoted :: "string \<Rightarrow> string"
  cx_env :: "string \<rightharpoonup> string"

definition status ::
  "('child, 'io) server_ctx \<Rightarrow> 'a shared_scheme \<Rightarrow> snapshot \<Rightarrow> u64 \<Rightarrow> server_status" where
  "status cx s snap uptime =
     (let running = sc_running (sh_sched s) in
      \<lparr> st_identity = cx_identity cx,
        st_capacity =
          \<lparr> tokens_total = js_total (cx_jobserver cx),
            tokens_free = js_tokens_free (cx_jobserver cx) running,
            cap_mem_available_bytes = mem_available_bytes snap,
            cap_load1 = load1 snap,
            cap_accepting = accepting (sh_sched s) snap \<rparr>,
        st_queued = queued (sh_sched s), st_running = running, st_uptime_secs = uptime \<rparr>)"

text \<open>
  \<open>launch\<close>: the job is spawned, or its slot is given back and the reason returned. A panic of
  the runner (\<open>None\<close>) cannot happen.
\<close>

definition launch ::
  "('child, 'io) server_ctx \<Rightarrow> 'a shared_scheme \<Rightarrow> snapshot \<Rightarrow> job_request
     \<Rightarrow> ('child, reject_reason) result \<times> 'a shared_scheme" where
  "launch cx s snap req =
     (case spawn (cx_spawn_proc cx) (cx_show_io cx) (cx_quoted cx) (cx_env cx) (cx_runner cx) req of
        Some (Inr child) \<Rightarrow> (Ok child, s)
      | Some (Inl reason) \<Rightarrow> (Err reason, job_finished s snap)
      | None \<Rightarrow> (Err (RInternal []), s))"

section \<open>Connections\<close>

datatype active = ANone | AQueued job_id job_request | ARunning job_id bool

fun active_id :: "active \<Rightarrow> job_id option" where
  "active_id ANone = None"
| "active_id (AQueued i req) = Some i"
| "active_id (ARunning i c) = Some i"

text \<open>\<open>cn_wr\<close> says for each write whether it succeeds; \<open>cn_out\<close> is what has been written.\<close>

record conn =
  cn_active :: active
  cn_out :: "server_message list"
  cn_wr :: "nat \<Rightarrow> bool"

datatype conn_error = WriteFailed | ReadFailed

type_synonym 'a conn_state = "conn \<times> 'a shared_scheme"
type_synonym 'a handled = "(unit, conn_error) result \<times> conn \<times> 'a shared_scheme"

definition write_msg :: "server_message \<Rightarrow> conn \<Rightarrow> (unit, conn_error) result \<times> conn" where
  "write_msg m c =
     (if cn_wr c (length (cn_out c)) then (Ok (), c\<lparr>cn_out := cn_out c @ [m]\<rparr>) else (Err WriteFailed, c))"

definition write_error :: "proto_error_code \<Rightarrow> string \<Rightarrow> conn \<Rightarrow> (unit, conn_error) result \<times> conn" where
  "write_error code message c = write_msg (SError \<lparr> pe_code = code, pe_message = message \<rparr>) c"

definition send_event :: "job_event \<Rightarrow> conn \<Rightarrow> (unit, conn_error) result \<times> conn" where
  "send_event ev c = write_msg (SEvent ev) c"

definition with_shared :: "(unit, conn_error) result \<times> conn \<Rightarrow> 'a shared_scheme \<Rightarrow> 'a handled" where
  "with_shared rc s = (fst rc, snd rc, s)"

definition start ::
  "('child, 'io) server_ctx \<Rightarrow> snapshot \<Rightarrow> job_id \<Rightarrow> job_request \<Rightarrow> conn \<Rightarrow> 'a shared_scheme \<Rightarrow> 'a handled" where
  "start cx snap i req c s =
     (case launch cx s snap req of
        (Inr child, s') \<Rightarrow> (Ok (), c\<lparr>cn_active := ARunning i False\<rparr>, s')
      | (Inl reason, s') \<Rightarrow> with_shared (send_event (Rejected i reason) (c\<lparr>cn_active := ANone\<rparr>)) s')"

definition handle_submit ::
  "('child, 'io) server_ctx \<Rightarrow> snapshot \<Rightarrow> snapshot \<Rightarrow> job_request \<Rightarrow> conn \<Rightarrow> 'a shared_scheme \<Rightarrow> 'a handled" where
  "handle_submit cx snap snap' req c s =
     (if active_id (cn_active c) \<noteq> None then
        with_shared (write_error PUnexpectedMessage ''a job is already active on this connection'' c) s
      else
        (let (i, s1) = next_id s in
         case validate_cwd (cx_is_dir cx) (jr_cwd req) of
           Inl reason \<Rightarrow> with_shared (send_event (Rejected i reason) c) s1
         | Inr _ \<Rightarrow>
        (case check_toolchain (cx_exec cx) (cx_fingerprint_join cx) (cx_show_toolchain_error cx) (cx_runner cx) req of
           Inl reason \<Rightarrow> with_shared (send_event (Rejected i reason) c) s1
         | Inr _ \<Rightarrow>
             (let (d, sc) = admit (sh_sched s1) i (jr_priority req) snap; s2 = s1\<lparr>sh_sched := sc\<rparr> in
              case d of
                Accept \<Rightarrow> start cx snap' i req c s2
              | Queue pos \<Rightarrow>
                  with_shared (send_event (Queued i pos) (c\<lparr>cn_active := AQueued i req\<rparr>))
                    (s2\<lparr>sh_waiters := insert i (sh_waiters s2), sh_chan := (sh_chan s2)(i := Open)\<rparr>)
              | Reject CauseSaturated \<Rightarrow> with_shared (send_event (Rejected i Saturated) c) s2))))"

definition dequeue :: "snapshot \<Rightarrow> job_id \<Rightarrow> 'a shared_scheme \<Rightarrow> 'a shared_scheme" where
  "dequeue snap i s =
     (let (was_queued, sc) = remove_queued (sh_sched s) i;
          s1 = s\<lparr>sh_sched := sc, sh_waiters := sh_waiters s - {i}\<rparr>;
          got = (\<not> was_queued \<and> sh_chan s1 i = Sent);
          s2 = s1\<lparr>sh_chan := (sh_chan s1)(i := Closed)\<rparr>
      in if got then job_finished s2 snap else s2)"

definition handle_cancel :: "snapshot \<Rightarrow> job_id \<Rightarrow> conn \<Rightarrow> 'a shared_scheme \<Rightarrow> 'a handled" where
  "handle_cancel snap i c s =
     (case cn_active c of
        ARunning a cancelled \<Rightarrow>
          (if a = i then (Ok (), c\<lparr>cn_active := ARunning i True\<rparr>, s)
           else with_shared (write_error PUnexpectedMessage
                  (''job '' @ show_nat (unat (job_num i)) @ '' is not active on this connection'') c) s)
      | AQueued a req \<Rightarrow>
          (if a = i then with_shared (send_event (Exited i (Signal 15)) (c\<lparr>cn_active := ANone\<rparr>)) (dequeue snap i s)
           else with_shared (write_error PUnexpectedMessage
                  (''job '' @ show_nat (unat (job_num i)) @ '' is not active on this connection'') c) s)
      | ANone \<Rightarrow> with_shared (write_error PUnexpectedMessage
                  (''job '' @ show_nat (unat (job_num i)) @ '' is not active on this connection'') c) s)"

definition handle_msg ::
  "('child, 'io) server_ctx \<Rightarrow> snapshot \<Rightarrow> snapshot \<Rightarrow> u64 \<Rightarrow> client_message \<Rightarrow> conn \<Rightarrow> 'a shared_scheme \<Rightarrow> 'a handled" where
  "handle_msg cx snap snap' uptime m c s =
     (case m of
        CHello v \<Rightarrow> with_shared (write_error PUnexpectedMessage ''duplicate hello'' c) s
      | CStatus \<Rightarrow> with_shared (write_msg (SStatus (status cx s snap uptime)) c) s
      | CSubmit req \<Rightarrow> handle_submit cx snap snap' req c s
      | CCancel i \<Rightarrow> handle_cancel snap i c s)"

text \<open>The first message of a connection; \<open>Ok True\<close> lets the connection go on.\<close>

definition handshake ::
  "('child, 'io) server_ctx \<Rightarrow> (client_message option, conn_error) result \<Rightarrow> conn \<Rightarrow> (bool, conn_error) result \<times> conn" where
  "handshake cx first c =
     (case first of
        Inl e \<Rightarrow> (Err e, c)
      | Inr None \<Rightarrow> (Ok False, c)
      | Inr (Some (CHello v)) \<Rightarrow>
          (if v = PROTOCOL_VERSION then
             (let r = write_msg (SHello PROTOCOL_VERSION (cx_identity cx)) c
              in (and_then (fst r) (\<lambda>_. Ok True), snd r))
           else
             (let r = write_error PVersionMismatch
                        (''server speaks protocol '' @ show_nat (unat PROTOCOL_VERSION) @ '', client sent '' @ show_nat (unat v)) c
              in (and_then (fst r) (\<lambda>_. Ok False), snd r)))
      | Inr (Some _) \<Rightarrow>
          (let r = write_error PUnexpectedMessage ''first message must be hello'' c
           in (and_then (fst r) (\<lambda>_. Ok False), snd r)))"

text \<open>
  One turn of the loop of \<open>run\<close>. What the select statement picked is the event: a message, the
  end of the stream or a read error, the release of the queued job, an event of the running job
  or the end of its channel. The result says whether the loop goes on (\<open>Ok True\<close>).
\<close>

datatype conn_input =
    InMsg client_message
  | InEof
  | InReadError
  | InReleased
  | InEvent job_event
  | InChannelClosed

fun input_enabled :: "conn_input \<Rightarrow> conn \<Rightarrow> 'a shared_scheme \<Rightarrow> bool" where
  "input_enabled InReleased c s =
     (case cn_active c of AQueued i req \<Rightarrow> sh_chan s i = Sent \<or> (sh_chan s i = Open \<and> i \<notin> sh_waiters s) | _ \<Rightarrow> False)"
| "input_enabled (InEvent e) c s = (case cn_active c of ARunning i k \<Rightarrow> True | _ \<Rightarrow> False)"
| "input_enabled InChannelClosed c s = (case cn_active c of ARunning i k \<Rightarrow> True | _ \<Rightarrow> False)"
| "input_enabled _ c s = True"

definition continue :: "'a handled \<Rightarrow> (bool, conn_error) result \<times> conn \<times> 'a shared_scheme" where
  "continue h = (and_then (fst h) (\<lambda>_. Ok True), snd h)"

definition run_turn ::
  "('child, 'io) server_ctx \<Rightarrow> snapshot \<Rightarrow> snapshot \<Rightarrow> u64 \<Rightarrow> conn_input \<Rightarrow> conn \<Rightarrow> 'a shared_scheme
     \<Rightarrow> (bool, conn_error) result \<times> conn \<times> 'a shared_scheme" where
  "run_turn cx snap snap' uptime inp c s =
     (case inp of
        InMsg m \<Rightarrow> continue (handle_msg cx snap snap' uptime m c s)
      | InEof \<Rightarrow> (Ok False, c, s)
      | InReadError \<Rightarrow> (Err ReadFailed, c, s)
      | InReleased \<Rightarrow>
          (case cn_active c of
             AQueued i req \<Rightarrow>
               (let c1 = c\<lparr>cn_active := ANone\<rparr> in
                if sh_chan s i = Sent then continue (start cx snap' i req c1 (s\<lparr>sh_chan := (sh_chan s)(i := Consumed)\<rparr>))
                else continue (with_shared (send_event (Rejected i (RInternal ''scheduler dropped job'')) c1) s))
           | _ \<Rightarrow> (Ok True, c, s))
      | InEvent ev \<Rightarrow>
          (let r = send_event ev c in
           case fst r of
             Inl e \<Rightarrow> (Err e, snd r, s)
           | Inr _ \<Rightarrow> (Ok True, (if is_terminal ev then (snd r)\<lparr>cn_active := ANone\<rparr> else snd r), s))
      | InChannelClosed \<Rightarrow> (Ok True, c\<lparr>cn_active := ANone\<rparr>, s))"

definition cleanup :: "snapshot \<Rightarrow> conn \<Rightarrow> 'a shared_scheme \<Rightarrow> conn \<times> 'a shared_scheme" where
  "cleanup snap c s =
     (c\<lparr>cn_active := ANone\<rparr>,
      (case cn_active c of AQueued i req \<Rightarrow> dequeue snap i s | _ \<Rightarrow> s))"

section \<open>Binding the socket\<close>

text \<open>The outcomes of the system calls are arguments, in the order the code makes them.\<close>

definition bind ::
  "(path \<Rightarrow> 'io option) \<Rightarrow> (path \<Rightarrow> 'io remove_outcome) \<Rightarrow> (path \<Rightarrow> ('l, 'io) result) \<Rightarrow> (path \<Rightarrow> 'io option)
     \<Rightarrow> path \<Rightarrow> ('l, ('io, 'je) server_error) result" where
  "bind create_dir_all remove_file listen chmod p =
     and_then (ok_or (NoParent p) (path_parent p)) (\<lambda>dir.
     and_then (case create_dir_all dir of Some e \<Rightarrow> Err (CreateDir dir e) | None \<Rightarrow> Ok ()) (\<lambda>_.
     and_then (case remove_file p of RemoveFailed e \<Rightarrow> Err (RemoveStale p e) | _ \<Rightarrow> Ok ()) (\<lambda>_.
     and_then (map_err (Bind p) (listen p)) (\<lambda>listener.
       (case chmod p of Some e \<Rightarrow> Err (Chmod p e) | None \<Rightarrow> Ok listener)))))"

section \<open>Slots across \<open>wake\<close>\<close>

lemma finite_job_ids [simp]: "finite (A :: job_id set)"
proof -
  have "UNIV = range JobId" by (metis job_id.exhaust surj_def)
  then have "finite (UNIV :: job_id set)" by (metis finite finite_imageI)
  then show ?thesis by (rule finite_subset [rotated]) simp
qed

definition sent_count :: "'a shared_scheme \<Rightarrow> nat" where
  "sent_count s = card {i. sh_chan s i = Sent}"

lemma sent_count_upd:
  "sh_chan s i \<noteq> Sent \<Longrightarrow> card {j. ((sh_chan s)(i := Sent)) j = Sent} = Suc (sent_count s)"
proof -
  assume "sh_chan s i \<noteq> Sent"
  moreover have "{j. ((sh_chan s)(i := Sent)) j = Sent} = insert i {j. sh_chan s j = Sent}" by auto
  ultimately show ?thesis by (simp add: sent_count_def)
qed

lemma deliver_all_sent:
  "sent_count (snd (deliver_all s ids)) + length (fst (deliver_all s ids)) = sent_count s + length ids"
proof (induction s ids rule: deliver_all.induct)
  case (1 s)
  then show ?case by simp
next
  case (2 s i ids)
  show ?case
  proof (cases "i \<in> sh_waiters s \<and> sh_chan s i = Open")
    case True
    then have "sent_count (s\<lparr>sh_waiters := sh_waiters s - {i}, sh_chan := (sh_chan s)(i := Sent)\<rparr>) = Suc (sent_count s)"
      using sent_count_upd [of s i] by (simp add: sent_count_def)
    with 2 [OF refl refl] True show ?thesis by (simp add: Let_def)
  next
    case False
    have "sent_count (s\<lparr>sh_waiters := sh_waiters s - {i}\<rparr>) = sent_count s" by (simp add: sent_count_def)
    with 2 [OF refl refl] False show ?thesis by (auto simp: Let_def)
  qed
qed

lemma finish_orphans_running:
  "length ids \<le> sc_running (sh_sched s) \<Longrightarrow>
     sc_running (sh_sched (snd (finish_orphans s snap ids))) + length ids
       = sc_running (sh_sched s) + length (fst (finish_orphans s snap ids))
   \<and> sh_chan (snd (finish_orphans s snap ids)) = sh_chan s"
proof (induction s snap ids rule: finish_orphans.induct)
  case (1 s snap)
  then show ?case by simp
next
  case (2 s snap i ids)
  obtain rel sc where f: "finish (sh_sched s) snap = (rel, sc)" by force
  have "sc_running sc = sc_running (sh_sched s) - 1 + length rel" using sched.finish_law [OF f] by simp
  with 2(1) [OF refl] 2(2) f show ?case by (simp add: Let_def)
qed

lemma wake_running:
  "length released \<le> sc_running (sh_sched s) \<Longrightarrow>
     sc_running (sh_sched (wake s released snap)) + sent_count s + length released
       = sc_running (sh_sched s) + sent_count (wake s released snap)"
proof (induction s released snap rule: wake.induct)
  case (1 s released snap)
  show ?case
  proof (cases "released = []")
    case True
    then show ?thesis by (simp add: wake.simps)
  next
    case False
    let ?d = "deliver_all s released"
    let ?f = "finish_orphans (snd ?d) snap (fst ?d)"
    have d: "sent_count (snd ?d) + length (fst ?d) = sent_count s + length released"
      by (rule deliver_all_sent)
    have l: "length (fst ?d) \<le> sc_running (sh_sched (snd ?d))"
      using 1(2) deliver_all_length [of s released] by simp
    note f = finish_orphans_running [OF l, of snap]
    have "length (fst ?f) \<le> sc_running (sh_sched (snd ?f))" using f l by simp
    from 1(1) [OF False refl refl this]
    have "sc_running (sh_sched (wake (snd ?f) (fst ?f) snap)) + sent_count (snd ?f) + length (fst ?f)
        = sc_running (sh_sched (snd ?f)) + sent_count (wake (snd ?f) (fst ?f) snap)" .
    moreover have "sent_count (snd ?f) = sent_count (snd ?d)" using f by (simp add: sent_count_def)
    moreover have "wake s released snap = wake (snd ?f) (fst ?f) snap"
      using False by (subst wake.simps) (simp add: Let_def)
    ultimately show ?thesis using d f by simp
  qed
qed

section \<open>Properties of the shared state\<close>

text \<open>
  Waking always ends and no slot is lost or invented: when a running job ends, exactly one
  slot is freed, and each slot the scheduler hands on is either delivered to a waiting
  connection or given back. After the call, the number of running jobs less the number of
  delivered but not yet consumed releases is exactly one lower than before.
\<close>
lemma job_finished_accounting:
  assumes "0 < sc_running (sh_sched s)"
  shows "sc_running (sh_sched (job_finished s snap)) + sent_count s + 1
           = sc_running (sh_sched s) + sent_count (job_finished s snap)"
proof -
  obtain rel sc where f: "finish (sh_sched s) snap = (rel, sc)" by force
  have "sc_running sc = sc_running (sh_sched s) - 1 + length rel" using sched.finish_law [OF f] by simp
  moreover have "length rel \<le> sc_running (sh_sched (s\<lparr>sh_sched := sc\<rparr>))" using calculation by simp
  note wake_running [OF this, of snap]
  moreover have "sent_count (s\<lparr>sh_sched := sc\<rparr>) = sent_count s" by (simp add: sent_count_def)
  ultimately show ?thesis using assms f by (simp add: job_finished_def Let_def)
qed

section \<open>The event protocol of a connection\<close>

text \<open>
  A connection's turns, with other connections changing the shared state arbitrarily between
  them. The counter of job identifiers never hands out an identifier this connection has seen
  before, and the events of a running job carry its identifier and are those a supervisor sends.
\<close>

fun msg_job :: "server_message \<Rightarrow> job_id option" where
  "msg_job (SEvent e) = Some (event_id e)"
| "msg_job _ = None"

definition seen_ids :: "conn \<Rightarrow> job_id set" where
  "seen_ids c = {i. Some i \<in> msg_job ` set (cn_out c)} \<union> set_option (active_id (cn_active c))"

fun input_sound :: "conn_input \<Rightarrow> conn \<Rightarrow> bool" where
  "input_sound (InEvent e) c =
     (case cn_active c of
        ARunning i k \<Rightarrow> event_id e = i \<and> (case e of Queued j p \<Rightarrow> False | _ \<Rightarrow> True)
      | _ \<Rightarrow> False)"
| "input_sound InReleased c = (case cn_active c of AQueued i req \<Rightarrow> True | _ \<Rightarrow> False)"
| "input_sound _ c = True"

inductive conn_reach :: "('child, 'io) server_ctx \<Rightarrow> conn \<Rightarrow> bool" for cx where
  conn_init: "conn_reach cx \<lparr> cn_active = ANone, cn_out = [], cn_wr = wr \<rparr>"
| conn_turn: "conn_reach cx c \<Longrightarrow> input_sound inp c \<Longrightarrow> JobId (sh_next_id s) \<notin> seen_ids c \<Longrightarrow>
    run_turn cx snap snap' uptime inp c (s :: shared) = (r, c', s') \<Longrightarrow> conn_reach cx c'"

definition closed_after :: "server_message list \<Rightarrow> bool" where
  "closed_after out \<longleftrightarrow>
     (\<forall>pre e post. out = pre @ SEvent e # post \<longrightarrow> is_terminal e \<longrightarrow> Some (event_id e) \<notin> msg_job ` set post)"

definition conn_inv :: "conn \<Rightarrow> bool" where
  "conn_inv c \<longleftrightarrow> closed_after (cn_out c) \<and>
     (\<forall>i e. active_id (cn_active c) = Some i \<longrightarrow> SEvent e \<in> set (cn_out c) \<longrightarrow> event_id e = i \<longrightarrow> \<not> is_terminal e)"

lemma closed_after_snoc:
  "closed_after (out @ [m]) \<longleftrightarrow>
     closed_after out \<and> (\<forall>e. SEvent e \<in> set out \<longrightarrow> is_terminal e \<longrightarrow> msg_job m \<noteq> Some (event_id e))"
proof
  assume l: "closed_after (out @ [m])"
  have "closed_after out"
    unfolding closed_after_def
  proof (intro allI impI)
    fix pre e post
    assume "out = pre @ SEvent e # post" and "is_terminal e"
    with l [unfolded closed_after_def, rule_format, of pre e "post @ [m]"]
    show "Some (event_id e) \<notin> msg_job ` set post" by auto
  qed
  moreover have "msg_job m \<noteq> Some (event_id e)" if "SEvent e \<in> set out" "is_terminal e" for e
  proof -
    from that(1) obtain pre post where "out = pre @ SEvent e # post" by (auto dest: split_list)
    with l [unfolded closed_after_def, rule_format, of pre e "post @ [m]"] that(2)
    show ?thesis by force
  qed
  ultimately show "closed_after out \<and> (\<forall>e. SEvent e \<in> set out \<longrightarrow> is_terminal e \<longrightarrow> msg_job m \<noteq> Some (event_id e))" by blast
next
  assume r: "closed_after out \<and> (\<forall>e. SEvent e \<in> set out \<longrightarrow> is_terminal e \<longrightarrow> msg_job m \<noteq> Some (event_id e))"
  show "closed_after (out @ [m])"
    unfolding closed_after_def
  proof (intro allI impI)
    fix pre e post
    assume eq: "out @ [m] = pre @ SEvent e # post" and t: "is_terminal e"
    show "Some (event_id e) \<notin> msg_job ` set post"
    proof (cases post rule: rev_cases)
      case Nil
      then show ?thesis by simp
    next
      case (snoc post' m')
      with eq have o: "out = pre @ SEvent e # post'" and "m' = m" by auto
      with r t have "Some (event_id e) \<notin> msg_job ` set post'" and "msg_job m \<noteq> Some (event_id e)"
        by (auto simp: closed_after_def)
      with snoc \<open>m' = m\<close> show ?thesis by auto
    qed
  qed
qed

definition no_terminal :: "conn \<Rightarrow> job_id \<Rightarrow> bool" where
  "no_terminal c i \<longleftrightarrow> (\<forall>e. SEvent e \<in> set (cn_out c) \<longrightarrow> event_id e = i \<longrightarrow> \<not> is_terminal e)"

lemma conn_inv_alt:
  "conn_inv c \<longleftrightarrow> closed_after (cn_out c) \<and> (\<forall>i. active_id (cn_active c) = Some i \<longrightarrow> no_terminal c i)"
  by (auto simp: conn_inv_def no_terminal_def)

lemma no_terminal_active [simp]: "no_terminal (c\<lparr>cn_active := a\<rparr>) i = no_terminal c i"
  by (simp add: no_terminal_def)

lemma conn_inv_active: "conn_inv c \<Longrightarrow> (\<forall>i. active_id a = Some i \<longrightarrow> no_terminal c i) \<Longrightarrow> conn_inv (c\<lparr>cn_active := a\<rparr>)"
  by (simp add: conn_inv_alt)

lemma fresh_no_terminal: "i \<notin> seen_ids c \<Longrightarrow> no_terminal c i"
  by (force simp: seen_ids_def no_terminal_def)

lemma write_msg_inv:
  assumes "conn_inv c" and "\<forall>i. msg_job m = Some i \<longrightarrow> no_terminal c i"
    and "\<forall>e. m = SEvent e \<longrightarrow> is_terminal e \<longrightarrow> active_id (cn_active c) \<noteq> Some (event_id e)"
  shows "conn_inv (snd (write_msg m c))"
  using assms
  by (auto simp: write_msg_def conn_inv_alt closed_after_snoc no_terminal_def)

lemma write_error_inv: "conn_inv c \<Longrightarrow> conn_inv (snd (write_error code message c))"
  by (simp add: write_error_def write_msg_inv)

lemma send_event_inv:
  assumes "conn_inv c" and "no_terminal c (event_id e)"
    and "is_terminal e \<Longrightarrow> active_id (cn_active c) \<noteq> Some (event_id e)"
  shows "conn_inv (snd (send_event e c))"
  using assms by (auto simp: send_event_def intro!: write_msg_inv)

lemma with_shared_conn [simp]: "fst (snd (with_shared rc s)) = snd rc"
  by (simp add: with_shared_def)

lemmas conn_ops_inv = write_error_inv send_event_inv conn_inv_active write_msg_inv

lemma start_inv:
  "conn_inv c \<Longrightarrow> no_terminal c i \<Longrightarrow> conn_inv (fst (snd (start cx snap i req c s)))"
  by (auto simp: start_def intro!: conn_ops_inv split: prod.splits sum.splits)

lemma handle_submit_inv:
  "conn_inv c \<Longrightarrow> JobId (sh_next_id s) \<notin> seen_ids c \<Longrightarrow> conn_inv (fst (snd (handle_submit cx snap snap' req c s)))"
  by (auto simp: handle_submit_def next_id_def fresh_no_terminal start_inv Let_def intro!: conn_ops_inv
      split: prod.splits sum.splits decision.splits reject_cause.splits)

lemma handle_cancel_inv: "conn_inv c \<Longrightarrow> conn_inv (fst (snd (handle_cancel snap i c s)))"
  by (auto simp: handle_cancel_def conn_inv_alt [of c] intro!: conn_ops_inv split: active.splits)

lemma run_turn_inv:
  assumes "conn_inv c" and "input_sound inp c" and "JobId (sh_next_id s) \<notin> seen_ids c"
  shows "conn_inv (fst (snd (run_turn cx snap snap' uptime inp c s)))"
proof (cases inp)
  case (InMsg m)
  with assms show ?thesis
    by (cases m) (auto simp: run_turn_def continue_def handle_msg_def handle_submit_inv handle_cancel_inv
        intro!: conn_ops_inv)
next
  case InReleased
  then obtain i req where a: "cn_active c = AQueued i req" using assms(2) by (auto split: active.splits)
  then have "no_terminal c i" using assms(1) by (simp add: conn_inv_alt)
  with a InReleased assms(1) show ?thesis
    by (auto simp: run_turn_def continue_def Let_def intro!: start_inv conn_ops_inv)
next
  case (InEvent e)
  then obtain i k where a: "cn_active c = ARunning i k" "event_id e = i" using assms(2) by (auto split: active.splits)
  then have nt: "no_terminal c i" using assms(1) by (simp add: conn_inv_alt)
  have "conn_inv (snd (send_event e (c\<lparr>cn_active := ANone\<rparr>)))"
    using assms(1) a nt by (intro send_event_inv conn_inv_active) auto
  moreover have "conn_inv (snd (send_event e c))" if "\<not> is_terminal e"
    using assms(1) a nt that by (intro send_event_inv) auto
  ultimately show ?thesis
    using InEvent assms(1)
    by (auto simp: run_turn_def Let_def send_event_def write_msg_def conn_inv_alt no_terminal_def split: if_splits)
qed (use assms in \<open>auto simp: run_turn_def intro!: conn_inv_active\<close>)

text \<open>
  C16. A job's terminal event is its last: on every connection, whatever messages the client
  sends, however the job ends and whatever other connections do, once \<open>Exited\<close> or \<open>Rejected\<close>
  has been written for a job, nothing is written for that job again.
\<close>
theorem terminal_event_is_last:
  assumes "conn_reach cx c" and "cn_out c = pre @ SEvent e # post" and "is_terminal e"
  shows "Some (event_id e) \<notin> msg_job ` set post"
proof -
  have "conn_inv c"
    using assms(1)
  proof (induction rule: conn_reach.induct)
    case (conn_init wr)
    then show ?case by (simp add: conn_inv_def closed_after_def)
  next
    case (conn_turn c inp s snap snap' uptime r c' s')
    then show ?case using run_turn_inv [of c inp s cx snap snap' uptime] by simp
  qed
  then show ?thesis using assms(2,3) by (simp add: conn_inv_def closed_after_def)
qed

text \<open>A server context whose probes fail and a request with a relative directory, for examples.\<close>

definition example_ctx :: "(unit, unit) server_ctx" where
  "example_ctx = \<lparr> cx_identity = \<lparr> si_hostname = ''h'', si_version = ''1'' \<rparr>,
     cx_runner = \<lparr> rn_makeflags = [], rn_scope = ScopeNone, rn_timeout = None, rn_hostname = ''h'' \<rparr>,
     cx_jobserver = \<lparr> js_path = [], js_total = 1, js_fifo = [] \<rparr>,
     cx_is_dir = (\<lambda>_. True), cx_exec = (\<lambda>_ _ _. SpawnFailed ()), cx_fingerprint_join = None, cx_show_toolchain_error = (\<lambda>_. []),
     cx_spawn_proc = (\<lambda>_. Inr ()), cx_show_io = (\<lambda>_. []), cx_quoted = id, cx_env = Map.empty \<rparr>"

definition example_request :: job_request where
  "example_request = \<lparr> jr_cwd = ''relative'', jr_argv = [''cargo''], jr_env = Map.empty,
     jr_toolchain = \<lparr> rustc_commit = [], rustc_version = [], fp_host = [], cargo_version = [], toolchain_name = [] \<rparr>,
     jr_toolchain_override = None, jr_priority = Agent,
     jr_client = \<lparr> ci_hostname = [], ci_pid = 1, ci_label = None \<rparr>, jr_tty = False \<rparr>"

lemma example_turn:
  "fst (snd (run_turn example_ctx UNKNOWN UNKNOWN 0 (InMsg (CSubmit example_request))
     \<lparr> cn_active = ANone, cn_out = [], cn_wr = (\<lambda>_. True) \<rparr>
     (shared_new (scheduler_new \<lparr> max_jobs = 1, min_mem_available_bytes = 0, queue_limit = 1 \<rparr>)))) =
   \<lparr> cn_active = ANone, cn_out = [SEvent (Rejected (JobId 1) (RInternal ''cwd relative is not absolute''))], cn_wr = (\<lambda>_. True) \<rparr>"
  by (simp add: run_turn_def handle_msg_def handle_submit_def next_id_def validate_cwd_def
      example_request_def example_ctx_def is_absolute_def starts_with_def SLASH_def send_event_def write_msg_def
      with_shared_def continue_def) (simp add: shared_new_def)

theorem terminal_event_is_last_witness:
  "Some (JobId 1) \<notin> msg_job ` set ([] :: server_message list)
   \<and> conn_reach example_ctx
       \<lparr> cn_active = ANone, cn_out = [SEvent (Rejected (JobId 1) (RInternal ''cwd relative is not absolute''))], cn_wr = (\<lambda>_. True) \<rparr>"
proof
  let ?fresh = "\<lparr> cn_active = ANone, cn_out = [], cn_wr = (\<lambda>_. True) \<rparr>"
  let ?e = "Rejected (JobId 1) (RInternal ''cwd relative is not absolute'')"
  let ?c = "\<lparr> cn_active = ANone, cn_out = [SEvent ?e], cn_wr = (\<lambda>_. True) \<rparr>"
  let ?s = "shared_new (scheduler_new \<lparr> max_jobs = 1, min_mem_available_bytes = 0, queue_limit = 1 \<rparr>)"
  let ?t = "run_turn example_ctx UNKNOWN UNKNOWN 0 (InMsg (CSubmit example_request)) ?fresh ?s"
  have c: "fst (snd ?t) = ?c" by (rule example_turn)
  have "conn_reach example_ctx (fst (snd ?t))"
    by (rule conn_turn [where c = ?fresh and inp = "InMsg (CSubmit example_request)" and s = ?s
          and snap = UNKNOWN and snap' = UNKNOWN and uptime = 0 and r = "fst ?t" and s' = "snd (snd ?t)"])
      (simp_all add: conn_init seen_ids_def)
  then show r: "conn_reach example_ctx ?c" unfolding c .
  show "Some (JobId 1) \<notin> msg_job ` set ([] :: server_message list)"
    using terminal_event_is_last [OF r, of "[]" ?e "[]"] by simp
qed

end
