(* ===== verification/Server_Steps.thy ===== *)
theory Server_Steps
  imports Server
begin

text \<open>
  The server under interleaving. Every connection, every job supervisor and the periodic poll
  run concurrently and share the scheduler and the map of waiters, each behind its own lock.
  A step is one critical section (or one receive on a one-shot channel) of \<open>socket.rs\<close>; any
  task may take the next step. The ghost fields record where each job is in its connection's
  code, which released identifiers some \<open>wake\<close> still holds, and how many calls of \<open>finish\<close>
  have been decided but not made.

  \<^item> \<open>s_fetch\<close>: \<open>next_id\<close>. \<open>s_refuse\<close>: a request that fails validation.
  \<^item> \<open>s_accept\<close>, \<open>s_queue\<close>, \<open>s_saturated\<close>: the call of \<open>admit\<close> in \<open>handle_submit\<close>.
  \<^item> \<open>s_register\<close>: the insertion into the waiters that follows it.
  \<^item> \<open>s_job_end\<close>: a job ends or fails to start and \<open>job_finished\<close> is entered.
  \<^item> \<open>s_finish\<close>, \<open>s_poll\<close>: the calls of the scheduler; \<open>s_deliver\<close>, \<open>s_orphan\<close>: the body of
    \<open>wake\<close> for one identifier.
  \<^item> \<open>s_consume\<close>: the connection receives its release. \<open>s_withdraw\<close>, \<open>s_unregister\<close>,
    \<open>s_settle\<close>: the three parts of \<open>dequeue\<close>.
\<close>

datatype phase = Fresh | Fetched | Admitted | Waiting | Running | Withdrawing bool | Withdrawn bool | Done

record srv = shared +
  sv_phase :: "job_id \<Rightarrow> phase"
  sv_pending :: "job_id multiset"
  sv_owed :: nat

datatype label =
    LFetch job_id | LRefuse job_id | LAccept job_id | LQueue job_id | LSaturated job_id
  | LRegister job_id | LJobEnd job_id | LFinish | LPoll | LDeliver job_id | LOrphan job_id
  | LConsume job_id | LWithdraw job_id | LUnregister job_id | LSettle job_id

abbreviation set_phase :: "job_id \<Rightarrow> phase \<Rightarrow> srv \<Rightarrow> srv" where
  "set_phase i ph s \<equiv> s\<lparr>sv_phase := (sv_phase s)(i := ph)\<rparr>"

inductive srv_step :: "srv \<Rightarrow> label \<Rightarrow> srv \<Rightarrow> bool" where
  s_fetch: "next_id s = (i, s1) \<Longrightarrow> sv_phase s i = Fresh \<Longrightarrow> srv_step s (LFetch i) (set_phase i Fetched s1)"
| s_refuse: "sv_phase s i = Fetched \<Longrightarrow> srv_step s (LRefuse i) (set_phase i Done s)"
| s_accept: "sv_phase s i = Fetched \<Longrightarrow> admit (sh_sched s) i p snap = (Accept, sc) \<Longrightarrow>
    srv_step s (LAccept i) (set_phase i Running (s\<lparr>sh_sched := sc\<rparr>))"
| s_queue: "sv_phase s i = Fetched \<Longrightarrow> admit (sh_sched s) i p snap = (Queue pos, sc) \<Longrightarrow>
    srv_step s (LQueue i) (set_phase i Admitted (s\<lparr>sh_sched := sc\<rparr>))"
| s_saturated: "sv_phase s i = Fetched \<Longrightarrow> admit (sh_sched s) i p snap = (Reject c, sc) \<Longrightarrow>
    srv_step s (LSaturated i) (set_phase i Done (s\<lparr>sh_sched := sc\<rparr>))"
| s_register: "sv_phase s i = Admitted \<Longrightarrow>
    srv_step s (LRegister i)
      (set_phase i Waiting (s\<lparr>sh_waiters := insert i (sh_waiters s), sh_chan := (sh_chan s)(i := Open)\<rparr>))"
| s_job_end: "sv_phase s i = Running \<Longrightarrow>
    srv_step s (LJobEnd i) (set_phase i Done (s\<lparr>sv_owed := sv_owed s + 1\<rparr>))"
| s_finish: "0 < sv_owed s \<Longrightarrow> finish (sh_sched s) snap = (rel, sc) \<Longrightarrow>
    srv_step s LFinish (s\<lparr>sh_sched := sc, sv_pending := sv_pending s + mset rel, sv_owed := sv_owed s - 1\<rparr>)"
| s_poll: "poll (sh_sched s) snap = (rel, sc) \<Longrightarrow>
    srv_step s LPoll (s\<lparr>sh_sched := sc, sv_pending := sv_pending s + mset rel\<rparr>)"
| s_deliver: "i \<in># sv_pending s \<Longrightarrow> i \<in> sh_waiters s \<Longrightarrow> sh_chan s i = Open \<Longrightarrow>
    srv_step s (LDeliver i)
      (s\<lparr>sh_waiters := sh_waiters s - {i}, sh_chan := (sh_chan s)(i := Sent), sv_pending := sv_pending s - {#i#}\<rparr>)"
| s_orphan: "i \<in># sv_pending s \<Longrightarrow> \<not> (i \<in> sh_waiters s \<and> sh_chan s i = Open) \<Longrightarrow>
    srv_step s (LOrphan i)
      (s\<lparr>sh_waiters := sh_waiters s - {i}, sv_pending := sv_pending s - {#i#}, sv_owed := sv_owed s + 1\<rparr>)"
| s_consume: "sv_phase s i = Waiting \<Longrightarrow> sh_chan s i = Sent \<Longrightarrow>
    srv_step s (LConsume i) (set_phase i Running (s\<lparr>sh_chan := (sh_chan s)(i := Consumed)\<rparr>))"
| s_withdraw: "sv_phase s i = Waiting \<Longrightarrow> remove_queued (sh_sched s) i = (b, sc) \<Longrightarrow>
    srv_step s (LWithdraw i) (set_phase i (Withdrawing b) (s\<lparr>sh_sched := sc\<rparr>))"
| s_unregister: "sv_phase s i = Withdrawing b \<Longrightarrow>
    srv_step s (LUnregister i) (set_phase i (Withdrawn b) (s\<lparr>sh_waiters := sh_waiters s - {i}\<rparr>))"
| s_settle: "sv_phase s i = Withdrawn b \<Longrightarrow>
    srv_step s (LSettle i)
      (set_phase i Done (s\<lparr>sh_chan := (sh_chan s)(i := Closed),
                          sv_owed := sv_owed s + (if \<not> b \<and> sh_chan s i = Sent then 1 else 0)\<rparr>))"

inductive_cases srv_stepE: "srv_step s l s'"

definition srv_init :: "limits \<Rightarrow> srv" where
  "srv_init lim = \<lparr> sh_sched = scheduler_new lim, sh_waiters = {}, sh_chan = (\<lambda>_. NoChan), sh_next_id = 1,
     sv_phase = (\<lambda>_. Fresh), sv_pending = {#}, sv_owed = 0 \<rparr>"

inductive srv_reach :: "limits \<Rightarrow> label list \<Rightarrow> srv \<Rightarrow> bool" for lim where
  r_init: "srv_reach lim [] (srv_init lim)"
| r_step: "srv_reach lim tr s \<Longrightarrow> srv_step s l s' \<Longrightarrow> srv_reach lim (tr @ [l]) s'"

section \<open>Where a job can be\<close>

definition in_queue :: "scheduler \<Rightarrow> job_id \<Rightarrow> bool" where
  "in_queue sc i \<longleftrightarrow> i \<in> set (queued_ids sc)"

fun phase_ok :: "phase \<Rightarrow> bool \<Rightarrow> bool \<Rightarrow> bool \<Rightarrow> chan \<Rightarrow> bool" where
  "phase_ok Fresh q p w ch = (\<not> q \<and> \<not> p \<and> \<not> w \<and> ch = NoChan)"
| "phase_ok Fetched q p w ch = (\<not> q \<and> \<not> p \<and> \<not> w \<and> ch = NoChan)"
| "phase_ok Admitted q p w ch = (\<not> w \<and> ch = NoChan)"
| "phase_ok Waiting q p w ch = (ch = Open \<and> w \<or> ch = Sent \<and> \<not> w \<and> \<not> q \<and> \<not> p)"
| "phase_ok Running q p w ch = (\<not> q \<and> \<not> p \<and> \<not> w \<and> (ch = NoChan \<or> ch = Consumed))"
| "phase_ok (Withdrawing b) q p w ch = (\<not> q \<and> (if b then ch = Open \<and> \<not> p else ch = Open \<or> ch = Sent \<and> \<not> p))"
| "phase_ok (Withdrawn b) q p w ch = (\<not> q \<and> \<not> w \<and> (if b then ch = Open \<and> \<not> p else ch = Open \<or> ch = Sent \<and> \<not> p))"
| "phase_ok Done q p w ch = (\<not> q \<and> \<not> w \<and> ch \<noteq> Sent)"

definition place_ok :: "srv \<Rightarrow> bool" where
  "place_ok s \<longleftrightarrow>
     distinct (queued_ids (sh_sched s))
     \<and> (\<forall>i. count (sv_pending s) i \<le> 1)
     \<and> (\<forall>i. i \<in># sv_pending s \<longrightarrow> \<not> in_queue (sh_sched s) i)
     \<and> (\<forall>i. phase_ok (sv_phase s i) (in_queue (sh_sched s) i) (i \<in># sv_pending s) (i \<in> sh_waiters s) (sh_chan s i))"

text \<open>Slots: what runs, what has been delivered, what \<open>wake\<close> holds and what is to be finished.\<close>

definition in_phase :: "srv \<Rightarrow> phase \<Rightarrow> nat" where
  "in_phase s ph = card {i. sv_phase s i = ph}"

definition slots_ok :: "srv \<Rightarrow> bool" where
  "slots_ok s \<longleftrightarrow>
     sc_running (sh_sched s) = in_phase s Running + sent_count s + size (sv_pending s) + sv_owed s
     \<and> sc_running (sh_sched s) \<le> slots (sh_sched s)"

lemma card_fun_upd:
  fixes f :: "job_id \<Rightarrow> 'b"
  shows "card {j. (f(i := x)) j = v} + (if f i = v then 1 else 0) = card {j. f j = v} + (if x = v then 1 else 0)"
proof -
  let ?A = "{j. j \<noteq> i \<and> f j = v}"
  have "{j. (f(i := x)) j = v} = (if x = v then insert i ?A else ?A)"
    and "{j. f j = v} = (if f i = v then insert i ?A else ?A)" by auto
  then show ?thesis by simp
qed

lemma queue_prefix_facts:
  assumes "queued_ids sc = rel @ queued_ids sc'" and "distinct (queued_ids sc)"
  shows "distinct (queued_ids sc')" and "count (mset rel) i \<le> 1"
    and "i \<in> set rel \<Longrightarrow> i \<in> set (queued_ids sc) \<and> i \<notin> set (queued_ids sc')"
    and "i \<in> set (queued_ids sc') \<Longrightarrow> i \<in> set (queued_ids sc)"
proof -
  have d: "distinct rel" "distinct (queued_ids sc')" "set rel \<inter> set (queued_ids sc') = {}"
    using assms(2) unfolding assms(1) by auto
  then show "distinct (queued_ids sc')" by simp
  show "count (mset rel) i \<le> 1" using d(1) by (auto simp: distinct_count_atmost_1)
  show "i \<in> set (queued_ids sc) \<and> i \<notin> set (queued_ids sc')" if "i \<in> set rel"
    using that d(3) assms(1) by auto
  show "i \<in> set (queued_ids sc)" if "i \<in> set (queued_ids sc')"
    using that assms(1) by (metis UnI2 set_append)
qed

text \<open>The queue after each scheduler operation.\<close>

lemma in_queue_accept: "admit sc i p snap = (Accept, sc') \<Longrightarrow> in_queue sc' j = in_queue sc j"
  by (drule sched.accept_law) (simp add: in_queue_def)

lemma in_queue_queue: "admit sc i p snap = (Queue n, sc') \<Longrightarrow> in_queue sc' j \<longleftrightarrow> j = i \<or> in_queue sc j"
proof -
  assume "admit sc i p snap = (Queue n, sc')"
  then have "mset (queued_ids sc') = add_mset i (mset (queued_ids sc))" using sched.queue_law by blast
  then show ?thesis unfolding in_queue_def by (metis insert_iff set_mset_add_mset_insert set_mset_mset)
qed

lemma in_queue_finish: "finish sc snap = (rel, sc') \<Longrightarrow> in_queue sc j \<longleftrightarrow> j \<in> set rel \<or> in_queue sc' j"
proof -
  assume "finish sc snap = (rel, sc')"
  then have "queued_ids sc = rel @ queued_ids sc'" using sched.finish_law by blast
  then show ?thesis unfolding in_queue_def by (metis Un_iff set_append)
qed

lemma in_queue_poll: "poll sc snap = (rel, sc') \<Longrightarrow> in_queue sc j \<longleftrightarrow> j \<in> set rel \<or> in_queue sc' j"
proof -
  assume "poll sc snap = (rel, sc')"
  then have "queued_ids sc = rel @ queued_ids sc'" using sched.poll_law by blast
  then show ?thesis unfolding in_queue_def by (metis Un_iff set_append)
qed

lemma in_queue_remove:
  assumes "remove_queued sc i = (b, sc')"
  shows "b = in_queue sc i" and "j \<noteq> i \<Longrightarrow> in_queue sc' j = in_queue sc j"
proof -
  note r = sched.remove_law [OF assms]
  show "b = in_queue sc i" using r unfolding in_queue_def by blast
  assume "j \<noteq> i"
  then have "j \<in># mset (queued_ids sc') \<longleftrightarrow> j \<in># mset (queued_ids sc)"
    using r by (metis insert_iff set_mset_add_mset_insert)
  then show "in_queue sc' j = in_queue sc j" by (simp add: in_queue_def)
qed

text \<open>A step that concerns one job leaves every other job where it is.\<close>

lemma place_ok_one:
  assumes "place_ok s" and "distinct (queued_ids (sh_sched s'))"
    and "\<forall>j. count (sv_pending s') j \<le> count (sv_pending s) j"
    and "\<forall>j. j \<noteq> i \<longrightarrow> in_queue (sh_sched s') j = in_queue (sh_sched s) j \<and> (j \<in># sv_pending s') = (j \<in># sv_pending s)
        \<and> (j \<in> sh_waiters s') = (j \<in> sh_waiters s) \<and> sh_chan s' j = sh_chan s j \<and> sv_phase s' j = sv_phase s j"
    and "i \<in># sv_pending s' \<longrightarrow> \<not> in_queue (sh_sched s') i"
    and "phase_ok (sv_phase s' i) (in_queue (sh_sched s') i) (i \<in># sv_pending s') (i \<in> sh_waiters s') (sh_chan s' i)"
  shows "place_ok s'"
  unfolding place_ok_def
proof (intro conjI allI)
  fix j
  show "count (sv_pending s') j \<le> 1"
    using assms(1,3) le_trans unfolding place_ok_def by blast
  show "j \<in># sv_pending s' \<longrightarrow> \<not> in_queue (sh_sched s') j"
    using assms(1,4,5) unfolding place_ok_def by (cases "j = i") auto
  show "phase_ok (sv_phase s' j) (in_queue (sh_sched s') j) (j \<in># sv_pending s') (j \<in> sh_waiters s') (sh_chan s' j)"
    using assms(1,4,6) unfolding place_ok_def by (cases "j = i") auto
qed (fact assms(2))

lemma place_ok_phase:
  "place_ok s \<Longrightarrow> phase_ok (sv_phase s i) (in_queue (sh_sched s) i) (i \<in># sv_pending s) (i \<in> sh_waiters s) (sh_chan s i)"
  by (simp add: place_ok_def)

lemma phase_ok_release:
  "phase_ok ph q p w ch \<Longrightarrow> (q \<and> \<not> p \<and> \<not> q' \<and> p' \<or> q' = q \<and> p' = p) \<Longrightarrow> phase_ok ph q' p' w ch"
  by (cases ph) auto

lemma place_ok_release:
  assumes "place_ok s" and "queued_ids (sh_sched s) = rel @ queued_ids sc"
  shows "place_ok (s\<lparr>sh_sched := sc, sv_pending := sv_pending s + mset rel, sv_owed := n\<rparr>)"
  unfolding place_ok_def
proof (intro conjI allI)
  have d: "distinct (queued_ids (sh_sched s))" using assms(1) by (simp add: place_ok_def)
  note f = queue_prefix_facts [OF assms(2) d]
  show "distinct (queued_ids (sh_sched (s\<lparr>sh_sched := sc, sv_pending := sv_pending s + mset rel, sv_owed := n\<rparr>)))"
    using f(1) by simp
  fix j
  have pq: "j \<in># sv_pending s \<longrightarrow> \<not> in_queue (sh_sched s) j" and c: "count (sv_pending s) j \<le> 1"
    using assms(1) by (auto simp: place_ok_def)
  have q: "in_queue (sh_sched s) j \<longleftrightarrow> j \<in> set rel \<or> in_queue sc j" unfolding in_queue_def assms(2) by auto
  have r: "j \<in> set rel \<Longrightarrow> \<not> in_queue sc j" using f(3) [of j] by (simp add: in_queue_def)
  show "count (sv_pending (s\<lparr>sh_sched := sc, sv_pending := sv_pending s + mset rel, sv_owed := n\<rparr>)) j \<le> 1"
  proof (cases "j \<in> set rel")
    case True
    then have "count (sv_pending s) j = 0" using pq q by (auto simp: not_in_iff)
    then show ?thesis using f(2) [of j] by simp
  next
    case False
    then have z: "count (mset rel) j = 0" by (simp add: count_mset_0_iff)
    show ?thesis using c by (simp add: z)
  qed
  show "j \<in># sv_pending (s\<lparr>sh_sched := sc, sv_pending := sv_pending s + mset rel, sv_owed := n\<rparr>) \<longrightarrow>
      \<not> in_queue (sh_sched (s\<lparr>sh_sched := sc, sv_pending := sv_pending s + mset rel, sv_owed := n\<rparr>)) j"
    using pq q r by auto
  show "phase_ok (sv_phase (s\<lparr>sh_sched := sc, sv_pending := sv_pending s + mset rel, sv_owed := n\<rparr>) j)
      (in_queue (sh_sched (s\<lparr>sh_sched := sc, sv_pending := sv_pending s + mset rel, sv_owed := n\<rparr>)) j)
      (j \<in># sv_pending (s\<lparr>sh_sched := sc, sv_pending := sv_pending s + mset rel, sv_owed := n\<rparr>))
      (j \<in> sh_waiters (s\<lparr>sh_sched := sc, sv_pending := sv_pending s + mset rel, sv_owed := n\<rparr>))
      (sh_chan (s\<lparr>sh_sched := sc, sv_pending := sv_pending s + mset rel, sv_owed := n\<rparr>) j)"
    using phase_ok_release [OF place_ok_phase [OF assms(1), of j], of "in_queue sc j" "j \<in># sv_pending s \<or> j \<in> set rel"]
      pq q r by auto
qed

text \<open>A step that moves one job to another phase and touches neither the queue nor what is pending.\<close>

lemma place_ok_own:
  assumes "place_ok s" and "s' = set_phase i x s2" and "sh_sched s2 = sh_sched s" and "sv_pending s2 = sv_pending s"
    and "sv_phase s2 = sv_phase s" and "\<forall>j. j \<noteq> i \<longrightarrow> (j \<in> sh_waiters s2) = (j \<in> sh_waiters s) \<and> sh_chan s2 j = sh_chan s j"
    and "phase_ok (sv_phase s i) (in_queue (sh_sched s) i) (i \<in># sv_pending s) (i \<in> sh_waiters s) (sh_chan s i)
      \<Longrightarrow> phase_ok x (in_queue (sh_sched s) i) (i \<in># sv_pending s) (i \<in> sh_waiters s2) (sh_chan s2 i)"
  shows "place_ok s'"
  using assms(2-6) assms(7) [OF place_ok_phase [OF assms(1)]] assms(1)
  by (intro place_ok_one [OF assms(1), of s' i]) (auto simp: place_ok_def)

text \<open>A step that takes one job from what is pending.\<close>

lemma place_ok_taken:
  assumes "place_ok s" and "i \<in># sv_pending s" and "ch = sh_chan s i \<or> sh_chan s i = Open \<and> i \<in> sh_waiters s \<and> ch = Sent"
    and "ch = Sent \<or> \<not> (i \<in> sh_waiters s \<and> sh_chan s i = Open)"
  shows "place_ok (s\<lparr>sh_waiters := sh_waiters s - {i}, sh_chan := (sh_chan s)(i := ch), sv_pending := sv_pending s - {#i#}, sv_owed := n\<rparr>)"
proof -
  have "count (sv_pending s) i \<le> 1" using assms(1) by (simp add: place_ok_def)
  then have "i \<notin># sv_pending s - {#i#}" by (auto simp: in_diff_count)
  then show ?thesis
    using assms place_ok_phase [OF assms(1), of i]
    by (intro place_ok_one [OF assms(1), of _ i])
      (cases "sv_phase s i"; auto simp: place_ok_def in_diff_count)+
qed

lemma place_step:
  assumes "place_ok s" and "srv_step s l s'"
  shows "place_ok s'"
  using assms(2)
proof cases
  case (s_queue i p snap pos sc)
  have ph: "\<not> in_queue (sh_sched s) i" "i \<notin># sv_pending s" "i \<notin> sh_waiters s" "sh_chan s i = NoChan"
    using place_ok_phase [OF assms(1), of i] s_queue by auto
  have "distinct (queued_ids sc)"
    using sched.queue_distinct [OF s_queue(4) ph(1) [unfolded in_queue_def]] assms(1) by (simp add: place_ok_def)
  then show ?thesis
    using s_queue ph in_queue_queue [OF s_queue(4)] by (intro place_ok_one [OF assms(1), of s' i]) auto
next
  case (s_accept i p snap sc)
  have "queued_ids sc = queued_ids (sh_sched s)" using sched.accept_law [OF s_accept(4)] by simp
  then have "distinct (queued_ids sc)" and "in_queue sc j \<longleftrightarrow> in_queue (sh_sched s) j" for j
    using assms(1) by (simp_all add: in_queue_def place_ok_def)
  then show ?thesis
    using s_accept assms(1) place_ok_phase [OF assms(1), of i]
    by (intro place_ok_one [OF assms(1), of s' i]) (auto simp: place_ok_def)
next
  case (s_saturated i p snap c sc)
  have "sc = sh_sched s" using sched.reject_law [OF s_saturated(4)] by simp
  then show ?thesis
    using s_saturated assms(1) place_ok_phase [OF assms(1), of i]
    by (intro place_ok_one [OF assms(1), of s' i]) (auto simp: place_ok_def)
next
  case (s_finish snap rel sc)
  have "queued_ids (sh_sched s) = rel @ queued_ids sc" using sched.finish_law [OF s_finish(4)] by simp
  from place_ok_release [OF assms(1) this] s_finish(2) show ?thesis by simp
next
  case (s_poll snap rel sc)
  have "queued_ids (sh_sched s) = rel @ queued_ids sc" using sched.poll_law [OF s_poll(3)] by simp
  from place_ok_release [OF assms(1) this, of "sv_owed s"] s_poll(2) show ?thesis by simp
next
  case (s_withdraw i b sc)
  note r = sched.remove_law [OF s_withdraw(4)] sched.remove_distinct [OF s_withdraw(4)]
  have d: "distinct (queued_ids (sh_sched s))" using assms(1) by (simp add: place_ok_def)
  note s = in_queue_remove(2) [OF s_withdraw(4)]
  have qi: "\<not> in_queue sc i" "b \<longleftrightarrow> in_queue (sh_sched s) i" "distinct (queued_ids sc)"
    using r(1) r(2) [OF d] unfolding in_queue_def by blast+
  have p: "in_queue (sh_sched s) i \<Longrightarrow> i \<notin># sv_pending s" using assms(1) by (auto simp: place_ok_def)
  show ?thesis
    using s_withdraw(1-3) place_ok_phase [OF assms(1), of i] qi p
    by (intro place_ok_one [OF assms(1), of s' i]) (auto simp: s)
next
  case (s_deliver i)
  then show ?thesis using place_ok_taken [OF assms(1), of i Sent "sv_owed s"] by simp
next
  case (s_orphan i)
  then show ?thesis using place_ok_taken [OF assms(1), of i "sh_chan s i" "sv_owed s + 1"] by simp
qed (erule place_ok_own [OF assms(1)]; auto simp: next_id_def)+

lemma slots_step:
  assumes "place_ok s" and "slots_ok s" and "srv_step s l s'"
  shows "slots_ok s'"
  using assms(3)
proof cases
  case (s_fetch i s1)
  then show ?thesis
    using assms(2) card_fun_upd [of "sv_phase s" i Fetched Running]
    by (auto simp: slots_ok_def in_phase_def sent_count_def next_id_def simp del: fun_upd_apply)
next
  case (s_refuse i)
  then show ?thesis
    using assms(2) card_fun_upd [of "sv_phase s" i Done Running]
    by (auto simp: slots_ok_def in_phase_def sent_count_def simp del: fun_upd_apply)
next
  case (s_accept i p snap sc)
  then show ?thesis
    using assms(2) card_fun_upd [of "sv_phase s" i Running Running] sched.accept_law [OF s_accept(4)]
    by (auto simp: slots_ok_def in_phase_def sent_count_def simp del: fun_upd_apply)
next
  case (s_queue i p snap pos sc)
  then show ?thesis
    using assms(2) card_fun_upd [of "sv_phase s" i Admitted Running] sched.queue_law [OF s_queue(4)]
    by (auto simp: slots_ok_def in_phase_def sent_count_def simp del: fun_upd_apply)
next
  case (s_saturated i p snap c sc)
  then show ?thesis
    using assms(2) card_fun_upd [of "sv_phase s" i Done Running] sched.reject_law [OF s_saturated(4)]
    by (auto simp: slots_ok_def in_phase_def sent_count_def simp del: fun_upd_apply)
next
  case (s_register i)
  then show ?thesis
    using assms(2) place_ok_phase [OF assms(1), of i]
      card_fun_upd [of "sv_phase s" i Waiting Running] card_fun_upd [of "sh_chan s" i Open Sent]
    by (auto simp: slots_ok_def in_phase_def sent_count_def simp del: fun_upd_apply)
next
  case (s_job_end i)
  then show ?thesis
    using assms(2) card_fun_upd [of "sv_phase s" i Done Running]
    by (auto simp: slots_ok_def in_phase_def sent_count_def simp del: fun_upd_apply)
next
  case (s_finish snap rel sc)
  then show ?thesis
    using assms(2) sched.finish_law [OF s_finish(4)]
    by (auto simp: slots_ok_def in_phase_def sent_count_def)
next
  case (s_poll snap rel sc)
  then show ?thesis
    using assms(2) sched.poll_law [OF s_poll(3)]
    by (auto simp: slots_ok_def in_phase_def sent_count_def)
next
  case (s_deliver i)
  then show ?thesis
    using assms(2) card_fun_upd [of "sh_chan s" i Sent Sent] size_Suc_Diff1 [of i "sv_pending s"]
    by (auto simp: slots_ok_def in_phase_def sent_count_def simp del: fun_upd_apply)
next
  case (s_orphan i)
  then show ?thesis
    using assms(2) size_Suc_Diff1 [of i "sv_pending s"]
    by (auto simp: slots_ok_def in_phase_def sent_count_def)
next
  case (s_consume i)
  then show ?thesis
    using assms(2) card_fun_upd [of "sv_phase s" i Running Running] card_fun_upd [of "sh_chan s" i Consumed Sent]
    by (auto simp: slots_ok_def in_phase_def sent_count_def simp del: fun_upd_apply)
next
  case (s_withdraw i b sc)
  then show ?thesis
    using assms(2) card_fun_upd [of "sv_phase s" i "Withdrawing b" Running] sched.remove_law [OF s_withdraw(4)]
    by (auto simp: slots_ok_def in_phase_def sent_count_def simp del: fun_upd_apply)
next
  case (s_unregister i b)
  then show ?thesis
    using assms(2) card_fun_upd [of "sv_phase s" i "Withdrawn b" Running]
    by (auto simp: slots_ok_def in_phase_def sent_count_def simp del: fun_upd_apply)
next
  case (s_settle i b)
  then show ?thesis
    using assms(2) place_ok_phase [OF assms(1), of i]
      card_fun_upd [of "sv_phase s" i Done Running] card_fun_upd [of "sh_chan s" i Closed Sent]
    by (auto simp: slots_ok_def in_phase_def sent_count_def simp del: fun_upd_apply)
qed

lemma srv_init_ok: "place_ok (srv_init lim) \<and> slots_ok (srv_init lim)"
  by (simp add: place_ok_def slots_ok_def srv_init_def scheduler_new_def in_queue_def in_phase_def sent_count_def)

lemma srv_reach_ok: "srv_reach lim tr s \<Longrightarrow> place_ok s \<and> slots_ok s"
  by (induction rule: srv_reach.induct) (auto simp: srv_init_ok intro: place_step slots_step)

lemma srv_step_slots: "srv_step s l s' \<Longrightarrow> slots (sh_sched s') = slots (sh_sched s)"
  by (cases rule: srv_step.cases)
    (auto simp: next_id_def dest: sched.accept_law sched.queue_law sched.reject_law sched.finish_law
      sched.poll_law sched.remove_law)

lemma srv_reach_slots: "srv_reach lim tr s \<Longrightarrow> slots (sh_sched s) = unat (max_jobs lim)"
  by (induction rule: srv_reach.induct) (auto simp: srv_init_def scheduler_new_def srv_step_slots)

section \<open>Paths, and the handlers as paths\<close>

inductive srv_path :: "srv \<Rightarrow> label list \<Rightarrow> srv \<Rightarrow> bool" where
  p_nil: "srv_path s [] s"
| p_cons: "srv_step s l s1 \<Longrightarrow> srv_path s1 ls s' \<Longrightarrow> srv_path s (l # ls) s'"

lemma srv_stepI: "srv_step s l s1 \<Longrightarrow> s1 = s2 \<Longrightarrow> srv_step s l s2"
  by simp

lemma srv_path_append: "srv_path s ls s1 \<Longrightarrow> srv_path s1 ls' s' \<Longrightarrow> srv_path s (ls @ ls') s'"
  by (induction rule: srv_path.induct) (auto intro: p_cons)

lemma srv_path_reach: "srv_path s ls s' \<Longrightarrow> srv_reach lim tr s \<Longrightarrow> srv_reach lim (tr @ ls) s'"
proof (induction arbitrary: tr rule: srv_path.induct)
  case (p_nil s)
  then show ?case by simp
next
  case (p_cons s l s1 ls s')
  have "srv_reach lim ((tr @ [l]) @ ls) s'" using p_cons by (blast intro: r_step)
  then show ?case by simp
qed

lemma deliver_all_path:
  "\<exists>ls. srv_path (s\<lparr>sv_pending := M + mset ids, sv_owed := n\<rparr>) ls
      ((snd (deliver_all s ids))\<lparr>sv_pending := M, sv_owed := n + length (fst (deliver_all s ids))\<rparr>)"
proof (induction s ids arbitrary: n rule: deliver_all.induct)
  case (1 s)
  then show ?case by (auto intro: p_nil)
next
  case (2 s i ids)
  let ?s = "s\<lparr>sv_pending := M + mset (i # ids), sv_owed := n\<rparr>"
  show ?case
  proof (cases "i \<in> sh_waiters s \<and> sh_chan s i = Open")
    case True
    let ?t = "s\<lparr>sh_waiters := sh_waiters s - {i}, sh_chan := (sh_chan s)(i := Sent)\<rparr>"
    have st: "srv_step ?s (LDeliver i) (?t\<lparr>sv_pending := M + mset ids, sv_owed := n\<rparr>)"
      using True by (intro srv_stepI [OF s_deliver]) simp_all
    obtain ls where "srv_path (?t\<lparr>sv_pending := M + mset ids, sv_owed := n\<rparr>) ls
        ((snd (deliver_all ?t ids))\<lparr>sv_pending := M, sv_owed := n + length (fst (deliver_all ?t ids))\<rparr>)"
      using 2 [OF refl refl, of n] True by auto
    from p_cons [OF st this] show ?thesis using True by (auto simp: Let_def)
  next
    case False
    let ?t = "s\<lparr>sh_waiters := sh_waiters s - {i}, sh_chan := sh_chan s\<rparr>"
    have st: "srv_step ?s (LOrphan i) (?t\<lparr>sv_pending := M + mset ids, sv_owed := n + 1\<rparr>)"
      using False by (intro srv_stepI [OF s_orphan]) simp_all
    obtain ls where "srv_path (?t\<lparr>sv_pending := M + mset ids, sv_owed := n + 1\<rparr>) ls
        ((snd (deliver_all ?t ids))\<lparr>sv_pending := M, sv_owed := n + 1 + length (fst (deliver_all ?t ids))\<rparr>)"
      using 2 [OF refl refl, of "n + 1"] False by auto
    from p_cons [OF st this] show ?thesis using False by (auto simp: Let_def)
  qed
qed

lemma finish_orphans_path:
  "\<exists>ls. srv_path (s\<lparr>sv_pending := M, sv_owed := n + length ids\<rparr>) ls
      ((snd (finish_orphans s snap ids))\<lparr>sv_pending := M + mset (fst (finish_orphans s snap ids)), sv_owed := n\<rparr>)"
proof (induction s snap ids arbitrary: M rule: finish_orphans.induct)
  case (1 s snap)
  then show ?case by (auto intro: p_nil)
next
  case (2 s snap i ids)
  let ?s = "s\<lparr>sv_pending := M, sv_owed := n + length (i # ids)\<rparr>"
  obtain rel sc where f: "finish (sh_sched s) snap = (rel, sc)" by force
  have st: "srv_step ?s LFinish (s\<lparr>sh_sched := sc, sv_pending := M + mset rel, sv_owed := n + length ids\<rparr>)"
    using f by (intro srv_stepI [OF s_finish]) simp_all
  obtain ls where "srv_path (s\<lparr>sh_sched := sc, sv_pending := M + mset rel, sv_owed := n + length ids\<rparr>) ls
      ((snd (finish_orphans (s\<lparr>sh_sched := sc\<rparr>) snap ids))
        \<lparr>sv_pending := M + mset rel + mset (fst (finish_orphans (s\<lparr>sh_sched := sc\<rparr>) snap ids)), sv_owed := n\<rparr>)"
    using 2 [OF refl, of "M + mset rel"] f by auto
  from p_cons [OF st this] show ?case using f by (auto simp: Let_def add.assoc)
qed

lemma wake_path:
  "\<exists>ls. srv_path (s\<lparr>sv_pending := M + mset released, sv_owed := n\<rparr>) ls
      ((wake s released snap)\<lparr>sv_pending := M, sv_owed := n\<rparr>)"
proof (induction s released snap rule: wake.induct)
  case (1 s released snap)
  show ?case
  proof (cases "released = []")
    case True
    then show ?thesis by (auto simp: wake.simps intro: p_nil)
  next
    case False
    let ?d = "deliver_all s released"
    let ?f = "finish_orphans (snd ?d) snap (fst ?d)"
    have w: "wake s released snap = wake (snd ?f) (fst ?f) snap"
      using False by (subst wake.simps) (simp add: Let_def)
    from deliver_all_path [where s = s and M = M and ids = released and n = n]
      finish_orphans_path [where s = "snd ?d" and M = M and n = n and ids = "fst ?d" and snap = snap]
      1 [OF False refl refl] show ?thesis
      unfolding w by (meson srv_path_append)
  qed
qed

lemma job_finished_path:
  fixes s :: srv
  shows "\<exists>ls. srv_path (s\<lparr>sv_owed := sv_owed s + 1\<rparr>) ls ((job_finished s snap)\<lparr>sv_pending := sv_pending s, sv_owed := sv_owed s\<rparr>)"
proof -
  obtain rel sc where f: "finish (sh_sched s) snap = (rel, sc)" by force
  have st: "srv_step (s\<lparr>sv_owed := sv_owed s + 1\<rparr>) LFinish
      (s\<lparr>sh_sched := sc, sv_pending := sv_pending s + mset rel, sv_owed := sv_owed s\<rparr>)"
    using f by (intro srv_stepI [OF s_finish]) simp_all
  show ?thesis
    using wake_path [where s = "s\<lparr>sh_sched := sc\<rparr>" and M = "sv_pending s" and released = rel and n = "sv_owed s" and snap = snap] p_cons [OF st] f
    by (auto simp: job_finished_def Let_def)
qed

lemma shared_poll_path:
  fixes s :: srv
  shows "\<exists>ls. srv_path s ls ((shared_poll s snap)\<lparr>sv_pending := sv_pending s, sv_owed := sv_owed s\<rparr>)"
proof -
  obtain rel sc where f: "poll (sh_sched s) snap = (rel, sc)" by force
  have st: "srv_step s LPoll (s\<lparr>sh_sched := sc, sv_pending := sv_pending s + mset rel, sv_owed := sv_owed s\<rparr>)"
    using f by (intro srv_stepI [OF s_poll]) simp_all
  show ?thesis
    using wake_path [where s = "s\<lparr>sh_sched := sc\<rparr>" and M = "sv_pending s" and released = rel and n = "sv_owed s" and snap = snap] p_cons [OF st] f
    by (auto simp: shared_poll_def Let_def)
qed

lemma dequeue_path:
  assumes "sv_phase s i = Waiting"
  shows "\<exists>ls. srv_path s ls ((dequeue snap i (set_phase i Done s))\<lparr>sv_pending := sv_pending s, sv_owed := sv_owed s\<rparr>)"
proof -
  obtain b sc where r: "remove_queued (sh_sched s) i = (b, sc)" by force
  let ?a = "set_phase i (Withdrawing b) (s\<lparr>sh_sched := sc\<rparr>)"
  let ?b = "set_phase i (Withdrawn b) (s\<lparr>sh_sched := sc, sh_waiters := sh_waiters s - {i}\<rparr>)"
  let ?c = "set_phase i Done (s\<lparr>sh_sched := sc, sh_waiters := sh_waiters s - {i}, sh_chan := (sh_chan s)(i := Closed)\<rparr>)"
  let ?n = "if \<not> b \<and> sh_chan s i = Sent then 1 else 0 :: nat"
  have st1: "srv_step s (LWithdraw i) ?a" using assms r by (intro s_withdraw)
  have st2: "srv_step ?a (LUnregister i) ?b" by (intro srv_stepI [OF s_unregister]) simp_all
  have st3: "srv_step ?b (LSettle i) (?c\<lparr>sv_owed := sv_owed s + ?n\<rparr>)"
    by (rule srv_stepI [OF s_settle [where b = b]], simp, rule srv.equality) simp_all
  have p: "srv_path s [LWithdraw i, LUnregister i, LSettle i] (?c\<lparr>sv_owed := sv_owed s + ?n\<rparr>)"
    by (rule p_cons [OF st1 p_cons [OF st2 p_cons [OF st3 p_nil]]])
  have d: "dequeue snap i (set_phase i Done s) = (if \<not> b \<and> sh_chan s i = Sent then job_finished ?c snap else ?c)"
  proof -
    have e: "(set_phase i Done s)\<lparr>sh_sched := sc, sh_waiters := sh_waiters s - {i}, sh_chan := (sh_chan s)(i := Closed)\<rparr> = ?c"
      by simp
    show ?thesis using r by (simp add: dequeue_def Let_def e)
  qed
  show ?thesis
  proof (cases "\<not> b \<and> sh_chan s i = Sent")
    case True
    with job_finished_path [of ?c snap] p d show ?thesis by (auto intro: srv_path_append)
  next
    case False
    then have "?c\<lparr>sv_owed := sv_owed s + ?n\<rparr> = ?c\<lparr>sv_pending := sv_pending s, sv_owed := sv_owed s\<rparr>" by auto
    with p d False show ?thesis by auto
  qed
qed

section \<open>Running a schedule\<close>

text \<open>
  An executable scheduler of steps, for concrete schedules: every job has priority \<open>Agent\<close> and
  every memory snapshot is \<open>UNKNOWN\<close>. Its steps are steps of the relation.
\<close>

fun srv_do :: "label \<Rightarrow> srv \<Rightarrow> srv option" where
  "srv_do (LFetch i) s =
     (if fst (next_id s) = i \<and> sv_phase s i = Fresh then Some (set_phase i Fetched (snd (next_id s))) else None)"
| "srv_do (LRefuse i) s = (if sv_phase s i = Fetched then Some (set_phase i Done s) else None)"
| "srv_do (LAccept i) s =
     (case admit (sh_sched s) i Agent UNKNOWN of
        (Accept, sc) \<Rightarrow> (if sv_phase s i = Fetched then Some (set_phase i Running (s\<lparr>sh_sched := sc\<rparr>)) else None)
      | _ \<Rightarrow> None)"
| "srv_do (LQueue i) s =
     (case admit (sh_sched s) i Agent UNKNOWN of
        (Queue n, sc) \<Rightarrow> (if sv_phase s i = Fetched then Some (set_phase i Admitted (s\<lparr>sh_sched := sc\<rparr>)) else None)
      | _ \<Rightarrow> None)"
| "srv_do (LRegister i) s =
     (if sv_phase s i = Admitted then
        Some (set_phase i Waiting (s\<lparr>sh_waiters := insert i (sh_waiters s), sh_chan := (sh_chan s)(i := Open)\<rparr>))
      else None)"
| "srv_do (LJobEnd i) s =
     (if sv_phase s i = Running then Some (set_phase i Done (s\<lparr>sv_owed := sv_owed s + 1\<rparr>)) else None)"
| "srv_do LFinish s =
     (if 0 < sv_owed s then
        (let f = finish (sh_sched s) UNKNOWN in
         Some (s\<lparr>sh_sched := snd f, sv_pending := sv_pending s + mset (fst f), sv_owed := sv_owed s - 1\<rparr>))
      else None)"
| "srv_do (LDeliver i) s =
     (if i \<in># sv_pending s \<and> i \<in> sh_waiters s \<and> sh_chan s i = Open then
        Some (s\<lparr>sh_waiters := sh_waiters s - {i}, sh_chan := (sh_chan s)(i := Sent), sv_pending := sv_pending s - {#i#}\<rparr>)
      else None)"
| "srv_do (LOrphan i) s =
     (if i \<in># sv_pending s \<and> \<not> (i \<in> sh_waiters s \<and> sh_chan s i = Open) then
        Some (s\<lparr>sh_waiters := sh_waiters s - {i}, sv_pending := sv_pending s - {#i#}, sv_owed := sv_owed s + 1\<rparr>)
      else None)"
| "srv_do (LConsume i) s =
     (if sv_phase s i = Waiting \<and> sh_chan s i = Sent then
        Some (set_phase i Running (s\<lparr>sh_chan := (sh_chan s)(i := Consumed)\<rparr>)) else None)"
| "srv_do _ s = None"

fun srv_run :: "label list \<Rightarrow> srv \<Rightarrow> srv option" where
  "srv_run [] s = Some s"
| "srv_run (l # ls) s = Option.bind (srv_do l s) (srv_run ls)"

lemma srv_do_step:
  assumes "srv_do l s = Some s'"
  shows "srv_step s l s'"
proof (cases l)
  case (LFetch i)
  with assms show ?thesis
    unfolding LFetch by (intro srv_stepI [OF s_fetch [of s i "snd (next_id s)"]]) (auto split: if_splits)
next
  case (LAccept i)
  with assms obtain sc where "admit (sh_sched s) i Agent UNKNOWN = (Accept, sc)" "sv_phase s i = Fetched"
      "s' = set_phase i Running (s\<lparr>sh_sched := sc\<rparr>)"
    by (auto split: if_splits prod.splits decision.splits)
  then show ?thesis unfolding LAccept by (simp only:) (rule s_accept)
next
  case (LQueue i)
  with assms obtain sc n where "admit (sh_sched s) i Agent UNKNOWN = (Queue n, sc)" "sv_phase s i = Fetched"
      "s' = set_phase i Admitted (s\<lparr>sh_sched := sc\<rparr>)"
    by (auto split: if_splits prod.splits decision.splits)
  then show ?thesis unfolding LQueue by (simp only:) (rule s_queue)
next
  case LFinish
  with assms show ?thesis
    unfolding LFinish
    by (intro srv_stepI [OF s_finish [of s UNKNOWN "fst (finish (sh_sched s) UNKNOWN)" "snd (finish (sh_sched s) UNKNOWN)"]])
      (auto simp: Let_def split: if_splits)
next
  case (LRefuse i)
  with assms show ?thesis
    unfolding LRefuse by (intro srv_stepI [OF s_refuse]) (auto split: if_splits prod.splits decision.splits)
next
  case (LRegister i)
  with assms show ?thesis
    unfolding LRegister by (intro srv_stepI [OF s_register]) (auto split: if_splits prod.splits decision.splits)
next
  case (LJobEnd i)
  with assms show ?thesis
    unfolding LJobEnd by (intro srv_stepI [OF s_job_end]) (auto split: if_splits prod.splits decision.splits)
next
  case (LDeliver i)
  with assms show ?thesis
    unfolding LDeliver by (intro srv_stepI [OF s_deliver]) (auto split: if_splits prod.splits decision.splits)
next
  case (LOrphan i)
  with assms show ?thesis
    unfolding LOrphan by (intro srv_stepI [OF s_orphan]) (auto split: if_splits prod.splits decision.splits)
next
  case (LConsume i)
  with assms show ?thesis
    unfolding LConsume by (intro srv_stepI [OF s_consume]) (auto split: if_splits prod.splits decision.splits)
qed (use assms in simp_all)

lemma srv_run_path: "srv_run ls s = Some s' \<Longrightarrow> srv_path s ls s'"
  by (induction ls arbitrary: s) (auto intro: p_nil p_cons srv_do_step simp: bind_eq_Some_conv)

definition one_slot :: limits where
  "one_slot = \<lparr> max_jobs = 1, min_mem_available_bytes = 0, queue_limit = 1 \<rparr>"

lemma u64_max_pos: "(0 :: u64) < - 1"
  by (simp add: word_gt_0)

lemmas srv_eval = u64_max_pos srv_init_def scheduler_new_def one_slot_def next_id_def admit_def accepting_def has_capacity_def
  finish_def poll_closed_form released_count_def mem_ok_def UNKNOWN_def insert_at_def Let_def in_queue_def

text \<open>
  The lost job: it waits on an open channel, but the scheduler no longer knows it and no \<open>wake\<close>
  holds it. Nothing can release it any more.
\<close>

definition lost :: "srv \<Rightarrow> job_id \<Rightarrow> bool" where
  "lost s i \<longleftrightarrow> \<not> in_queue (sh_sched s) i \<and> i \<notin># sv_pending s \<and> sh_chan s i = Open
     \<and> (sv_phase s i = Waiting \<or> sv_phase s i = Withdrawing False \<or> sv_phase s i = Withdrawn False)"

lemma lost_step:
  assumes "lost s i" and "srv_step s l s'"
  shows "lost s' i \<or> sv_phase s' i = Done"
  using assms(2)
proof cases
  case (s_accept j p snap sc)
  then show ?thesis using assms(1) in_queue_accept [OF s_accept(4), of i] by (auto simp: lost_def)
next
  case (s_queue j p snap pos sc)
  then show ?thesis using assms(1) in_queue_queue [OF s_queue(4), of i] by (auto simp: lost_def)
next
  case (s_withdraw j b sc)
  then show ?thesis
    using assms(1) in_queue_remove(1) [OF s_withdraw(4)] in_queue_remove(2) [OF s_withdraw(4), of i] sched.remove_law [OF s_withdraw(4)]
    by (cases "i = j") (auto simp: lost_def)
next
  case (s_finish snap rel sc)
  then show ?thesis using assms(1) in_queue_finish [OF s_finish(4), of i] by (auto simp: lost_def)
next
  case (s_poll snap rel sc)
  then show ?thesis using assms(1) in_queue_poll [OF s_poll(3), of i] by (auto simp: lost_def)
qed (use assms(1) in \<open>auto simp: lost_def next_id_def in_diff_count dest: sched.reject_law\<close>)

lemma done_step: "srv_step s l s' \<Longrightarrow> sv_phase s i = Done \<Longrightarrow> sv_phase s' i = Done"
  by (cases rule: srv_step.cases) (auto simp: next_id_def)

lemma lost_forever: "srv_path s ls s' \<Longrightarrow> lost s i \<or> sv_phase s i = Done \<Longrightarrow> lost s' i \<or> sv_phase s' i = Done"
  by (induction rule: srv_path.induct) (auto dest: lost_step done_step)

text \<open>Executions in which no release is dropped between a job's admission and its registration.\<close>

inductive srv_reach_tight :: "limits \<Rightarrow> srv \<Rightarrow> bool" for lim where
  t_init: "srv_reach_tight lim (srv_init lim)"
| t_step: "srv_reach_tight lim s \<Longrightarrow> srv_step s l s' \<Longrightarrow> (\<forall>i. l = LOrphan i \<longrightarrow> sv_phase s i \<noteq> Admitted) \<Longrightarrow>
    srv_reach_tight lim s'"

definition tracked :: "srv \<Rightarrow> job_id \<Rightarrow> bool" where
  "tracked s i \<longleftrightarrow>
     (sv_phase s i = Admitted \<or> sv_phase s i = Waiting \<and> sh_chan s i = Open \<longrightarrow>
      in_queue (sh_sched s) i \<or> i \<in># sv_pending s)"

lemma tracked_step:
  assumes "tracked s i" and "place_ok s" and "srv_step s l s'"
    and "\<forall>j. l = LOrphan j \<longrightarrow> sv_phase s j \<noteq> Admitted"
  shows "tracked s' i"
  using assms(3)
proof cases
  case (s_accept j p snap sc)
  then show ?thesis using assms(1) in_queue_accept [OF s_accept(4), of i] by (auto simp: tracked_def)
next
  case (s_queue j p snap pos sc)
  then show ?thesis using assms(1) in_queue_queue [OF s_queue(4), of i] by (auto simp: tracked_def)
next
  case (s_withdraw j b sc)
  then show ?thesis
    using assms(1) in_queue_remove(2) [OF s_withdraw(4), of i] by (cases "i = j") (auto simp: tracked_def)
next
  case (s_finish snap rel sc)
  then show ?thesis using assms(1) in_queue_finish [OF s_finish(4), of i] by (auto simp: tracked_def)
next
  case (s_poll snap rel sc)
  then show ?thesis using assms(1) in_queue_poll [OF s_poll(3), of i] by (auto simp: tracked_def)
next
  case (s_deliver j)
  then show ?thesis
    using assms(1) place_ok_phase [OF assms(2), of i] by (cases "i = j") (auto simp: tracked_def in_diff_count)
next
  case (s_orphan j)
  then show ?thesis
    using assms(1,4) place_ok_phase [OF assms(2), of i] by (cases "i = j") (auto simp: tracked_def in_diff_count)
qed (use assms(1) in \<open>auto simp: tracked_def next_id_def dest: sched.reject_law\<close>)

lemma srv_reach_tight_ok: "srv_reach_tight lim s \<Longrightarrow> place_ok s \<and> (\<forall>i. tracked s i)"
  by (induction rule: srv_reach_tight.induct)
    (auto simp: srv_init_ok intro: place_step tracked_step, simp add: tracked_def srv_init_def)

section \<open>Properties\<close>

text \<open>
  C15. The handlers run as paths of the step relation: finishing a job, polling, and withdrawing
  a queued job, as \<open>socket.rs\<close> writes them, are each a sequence of the critical sections the
  interleaving model allows, and end in the state the handler computes.
\<close>
theorem handlers_are_paths:
  "(\<exists>ls. srv_path (s\<lparr>sv_owed := sv_owed s + 1\<rparr>) ls ((job_finished s snap)\<lparr>sv_pending := sv_pending s, sv_owed := sv_owed s\<rparr>))
   \<and> (\<exists>ls. srv_path s ls ((shared_poll s snap)\<lparr>sv_pending := sv_pending s, sv_owed := sv_owed s\<rparr>))
   \<and> (if sv_phase s i = Waiting then
        \<exists>ls. srv_path s ls ((dequeue snap i (set_phase i Done s))\<lparr>sv_pending := sv_pending s, sv_owed := sv_owed s\<rparr>)
      else True)"
  using job_finished_path shared_poll_path dequeue_path by simp

text \<open>
  C10. Slots are accounted for in every interleaving: at every moment the scheduler's running
  count is exactly the jobs that run, the releases delivered to a connection that has not yet
  picked them up, the released jobs a \<open>wake\<close> still holds and the completions not yet reported;
  and it never exceeds \<open>max_jobs\<close>, so no more than \<open>max_jobs\<close> jobs ever run at once.
\<close>
theorem slot_accounting:
  assumes "srv_reach lim tr s"
  shows "sc_running (sh_sched s) = in_phase s Running + sent_count s + size (sv_pending s) + sv_owed s
       \<and> sc_running (sh_sched s) \<le> unat (max_jobs lim)
       \<and> in_phase s Running \<le> unat (max_jobs lim)"
  using srv_reach_ok [OF assms] srv_reach_slots [OF assms] by (auto simp: slots_ok_def)

theorem slot_accounting_witness:
  "\<exists>s. srv_reach one_slot [LFetch (JobId 1), LAccept (JobId 1)] s \<and> sc_running (sh_sched s) = 1
     \<and> in_phase s Running + sent_count s + size (sv_pending s) + sv_owed s = 1"
proof -
  have "\<exists>s. srv_run [LFetch (JobId 1), LAccept (JobId 1)] (srv_init one_slot) = Some s \<and> sc_running (sh_sched s) = 1"
    by (simp add: srv_eval)
  then obtain s where "srv_path (srv_init one_slot) [LFetch (JobId 1), LAccept (JobId 1)] s" and r: "sc_running (sh_sched s) = 1"
    using srv_run_path by blast
  from srv_path_reach [OF this(1) r_init]
  have "srv_reach one_slot [LFetch (JobId 1), LAccept (JobId 1)] s" by simp
  with slot_accounting [OF this] r show ?thesis by metis
qed

text \<open>
  C11. No slot leaks and nothing is left behind: in every interleaving, once every job that was
  ever submitted is done and no call is in flight, the scheduler counts no running job, its
  queue is empty, and no waiter is registered.
\<close>
theorem quiescent_is_clean:
  assumes "srv_reach lim tr s" and "\<forall>i. sv_phase s i = Fresh \<or> sv_phase s i = Done"
    and "sv_pending s = {#}" and "sv_owed s = 0"
  shows "sc_running (sh_sched s) = 0 \<and> sc_queue (sh_sched s) = [] \<and> sh_waiters s = {}"
proof -
  have ok: "place_ok s" "slots_ok s" using srv_reach_ok [OF assms(1)] by auto
  have ph: "\<not> in_queue (sh_sched s) i \<and> i \<notin> sh_waiters s \<and> sh_chan s i \<noteq> Sent \<and> sv_phase s i \<noteq> Running" for i
    using place_ok_phase [OF ok(1), of i] assms(2) [rule_format, of i] by auto
  then have "in_phase s Running = 0" and "sent_count s = 0" by (simp_all add: in_phase_def sent_count_def)
  moreover have "sc_queue (sh_sched s) = []"
    using ph unfolding in_queue_def by (cases "sc_queue (sh_sched s)") auto
  ultimately show ?thesis using ok(2) assms(3,4) ph by (auto simp: slots_ok_def)
qed

theorem quiescent_is_clean_witness:
  "\<exists>s. srv_reach one_slot [LFetch (JobId 1), LAccept (JobId 1), LJobEnd (JobId 1), LFinish] s
     \<and> sc_running (sh_sched s) = 0 \<and> sc_queue (sh_sched s) = [] \<and> sh_waiters s = {}"
proof -
  let ?tr = "[LFetch (JobId 1), LAccept (JobId 1), LJobEnd (JobId 1), LFinish]"
  have "\<exists>s. srv_run ?tr (srv_init one_slot) = Some s \<and> (\<forall>i. sv_phase s i = Fresh \<or> sv_phase s i = Done)
      \<and> sv_pending s = {#} \<and> sv_owed s = 0"
    by (simp add: srv_eval)
  then obtain s where p: "srv_path (srv_init one_slot) ?tr s"
      and h: "\<forall>i. sv_phase s i = Fresh \<or> sv_phase s i = Done" "sv_pending s = {#}" "sv_owed s = 0"
    using srv_run_path by blast
  from srv_path_reach [OF p r_init] have "srv_reach one_slot ?tr s" by simp
  with quiescent_is_clean [OF this h] show ?thesis by blast
qed

text \<open>
  C12. The branch "scheduler dropped job" is dead: in every interleaving, a connection that waits
  for its release either has its sender still registered or has had its release sent; the
  sender is never dropped under it. So the receive in \<open>run\<close> never fails.
\<close>
theorem waiting_sender_never_dropped:
  assumes "srv_reach lim tr s" and "sv_phase s i = Waiting"
  shows "sh_chan s i = Sent \<and> i \<notin> sh_waiters s \<or> sh_chan s i = Open \<and> i \<in> sh_waiters s"
  using srv_reach_ok [OF assms(1)] place_ok_phase [of s i] assms(2) by auto

text \<open>A schedule with one queued job, up to its registration.\<close>

definition queued_trace :: "label list" where
  "queued_trace = [LFetch (JobId 1), LAccept (JobId 1), LFetch (JobId 2), LQueue (JobId 2), LRegister (JobId 2)]"

lemma queued_trace_run:
  "\<exists>s. srv_run queued_trace (srv_init one_slot) = Some s \<and> sv_phase s (JobId 2) = Waiting \<and> sh_chan s (JobId 2) = Open"
  by (simp add: queued_trace_def srv_eval)

lemma queued_trace_reach:
  "\<exists>s. srv_reach one_slot queued_trace s \<and> sv_phase s (JobId 2) = Waiting \<and> sh_chan s (JobId 2) = Open"
proof -
  obtain s where p: "srv_path (srv_init one_slot) queued_trace s" and h: "sv_phase s (JobId 2) = Waiting" "sh_chan s (JobId 2) = Open"
    using queued_trace_run srv_run_path by blast
  from srv_path_reach [OF p r_init] h show ?thesis by auto
qed

theorem waiting_sender_never_dropped_witness:
  "\<exists>s. srv_reach one_slot queued_trace s \<and> sv_phase s (JobId 2) = Waiting \<and> JobId 2 \<in> sh_waiters s"
proof -
  obtain s where s: "srv_reach one_slot queued_trace s" "sv_phase s (JobId 2) = Waiting" "sh_chan s (JobId 2) = Open"
    using queued_trace_reach by blast
  with waiting_sender_never_dropped [OF s(1,2)] show ?thesis by auto
qed

text \<open>
  C13. A lost wakeup. With one slot and one queue place there is an execution in which the slot
  frees up between the admission of a job to the queue and the registration of its waiter: the
  release finds no waiter, the slot is given back as an orphan's, and the job then waits with
  the whole server idle. From there on, whatever happens, the job never runs: it stays waiting
  until its client gives up.
\<close>
theorem lost_wakeup:
  "\<exists>tr s. srv_reach one_slot tr s \<and> sv_phase s (JobId 2) = Waiting
     \<and> sc_running (sh_sched s) = 0 \<and> sv_pending s = {#} \<and> sv_owed s = 0
     \<and> \<not> (\<exists>ls s'. srv_path s ls s' \<and> sv_phase s' (JobId 2) = Running)"
proof -
  let ?tr = "[LFetch (JobId 1), LAccept (JobId 1), LFetch (JobId 2), LQueue (JobId 2), LJobEnd (JobId 1),
    LFinish, LOrphan (JobId 2), LFinish, LRegister (JobId 2)]"
  have "\<exists>s. srv_run ?tr (srv_init one_slot) = Some s \<and> sv_phase s (JobId 2) = Waiting
      \<and> sc_running (sh_sched s) = 0 \<and> sv_pending s = {#} \<and> sv_owed s = 0 \<and> lost s (JobId 2)"
    by (simp add: srv_eval lost_def)
  then obtain s where s: "srv_path (srv_init one_slot) ?tr s" "sv_phase s (JobId 2) = Waiting"
      "sc_running (sh_sched s) = 0" "sv_pending s = {#}" "sv_owed s = 0" "lost s (JobId 2)"
    using srv_run_path by blast
  have "srv_reach one_slot ?tr s" using srv_path_reach [OF s(1) r_init] by simp
  moreover have "sv_phase s' (JobId 2) \<noteq> Running" if "srv_path s ls s'" for ls s'
    using lost_forever [OF that, of "JobId 2"] s(6) by (auto simp: lost_def)
  ultimately show ?thesis using s(2-5) by blast
qed

text \<open>
  C14. That race is the only way to lose a job: in every execution in which no release is
  dropped between a job's admission and its registration, every job that waits for its release
  is in the queue, is held by a \<open>wake\<close> in progress, or has its release in its channel.
\<close>
theorem only_the_race_loses_jobs:
  assumes "srv_reach_tight lim s" and "sv_phase s i = Waiting"
  shows "in_queue (sh_sched s) i \<or> i \<in># sv_pending s \<or> sh_chan s i = Sent"
  using srv_reach_tight_ok [OF assms(1)] place_ok_phase [of s i] assms(2) by (auto simp: tracked_def)

lemma srv_reach_tight_run:
  "srv_run ls s = Some s' \<Longrightarrow> srv_reach_tight lim s \<Longrightarrow> list_all (\<lambda>l. \<forall>i. l \<noteq> LOrphan i) ls \<Longrightarrow> srv_reach_tight lim s'"
  by (induction ls arbitrary: s) (auto simp: bind_eq_Some_conv intro: t_step srv_do_step)

theorem only_the_race_loses_jobs_witness:
  "\<exists>s. srv_reach_tight one_slot s \<and> sv_phase s (JobId 2) = Waiting
     \<and> (in_queue (sh_sched s) (JobId 2) \<or> JobId 2 \<in># sv_pending s \<or> sh_chan s (JobId 2) = Sent)"
proof -
  obtain s where r: "srv_run queued_trace (srv_init one_slot) = Some s" and w: "sv_phase s (JobId 2) = Waiting"
    using queued_trace_run by blast
  have "srv_reach_tight one_slot s"
    by (rule srv_reach_tight_run [OF r t_init]) (simp add: queued_trace_def)
  with only_the_race_loses_jobs [OF this w] w show ?thesis by blast
qed

end
