(* ===== verification/Transport.thy ===== *)
theory Transport
  imports Frame Config
begin

text \<open>
  Client side of a connection: \<open>transport.rs\<close>, \<open>local.rs\<close> and \<open>self_spawn.rs\<close> of
  \<open>crates/rbs-client\<close>.

  A \<open>link\<close> is an open connection with everything its peer will ever do: the results of
  successive receives (\<open>Ok None\<close> is the end of the stream, and a list that runs out is a peer
  that keeps the connection open and stays silent, so that a receive waits for ever), which
  sends fail, how long the status exchange takes, whether and after how many sends the probe's
  deadline passes,
  and after how many received messages the user interrupts a submission. A send that blocks
  for ever is the send of a link that is silent from then on. Durations are natural
  numbers of nanoseconds. The \<open>Debug\<close> text of an unexpected message is the parameter \<open>dbg\<close>.
\<close>

section \<open>Connections\<close>

datatype ('io, 'je) transport_error =
    TConnect string 'io
  | TIo 'io
  | TFrame "'je frame_error"
  | TClosed
  | TProtocol string
  | TUnexpected string
  | TTimeout nat



record ('io, 'je) link =
  lk_recv :: "(server_message option, ('io, 'je) transport_error) result list"
  lk_send_err :: "nat \<Rightarrow> ('io, 'je) transport_error option"
  lk_sends :: nat
  lk_rtt :: nat
  lk_probe_elapsed :: "nat option"
  lk_interrupt :: "nat option"

definition from_millis :: "u64 \<Rightarrow> nat" where
  "from_millis ms = unat ms * 1000000"

text \<open>What a call sends is returned with its result, whether or not the send succeeded.\<close>

type_synonym ('io, 'je, 'a) sent =
  "client_message list \<times> ('io, 'je) link \<times> ('a, ('io, 'je) transport_error) result"

definition send :: "client_message \<Rightarrow> ('io, 'je) link \<Rightarrow> ('io, 'je, unit) sent" where
  "send m l = ([m], l\<lparr>lk_sends := Suc (lk_sends l)\<rparr>,
     (case lk_send_err l (lk_sends l) of Some e \<Rightarrow> Err e | None \<Rightarrow> Ok ()))"

text \<open>A call that waits for the peer: the result \<open>None\<close> is a wait that has no end.\<close>

type_synonym ('io, 'je, 'a) awaited =
  "client_message list \<times> ('io, 'je) link \<times> ('a, ('io, 'je) transport_error) result option"

definition recv ::
  "('io, 'je) link \<Rightarrow> ('io, 'je) link \<times> (server_message option, ('io, 'je) transport_error) result option" where
  "recv l = (case lk_recv l of [] \<Rightarrow> (l, None) | r # rs \<Rightarrow> (l\<lparr>lk_recv := rs\<rparr>, Some r))"

section \<open>Handshake and probe\<close>

definition hello :: "(server_message \<Rightarrow> string) \<Rightarrow> ('io, 'je) link \<Rightarrow> ('io, 'je, server_identity) awaited" where
  "hello dbg l =
     (case send (CHello PROTOCOL_VERSION) l of
        (ms, l1, Inl e) \<Rightarrow> (ms, l1, Some (Err e))
      | (ms, l1, Inr _) \<Rightarrow>
          (case recv l1 of (l2, r) \<Rightarrow>
             (ms, l2,
              map_option (\<lambda>got. and_then got (\<lambda>m. case m of
                  Some (SHello version server) \<Rightarrow>
                    (if version \<noteq> PROTOCOL_VERSION
                     then Err (TProtocol (''server speaks protocol v'' @ show_nat (unat version) @ '', client v''
                                          @ show_nat (unat PROTOCOL_VERSION)))
                     else Ok server)
                | Some (SError e) \<Rightarrow> Err (TProtocol (pe_message e))
                | Some other \<Rightarrow> Err (TUnexpected (dbg other))
                | None \<Rightarrow> Err TClosed)) r)))"

record probe_result =
  pr_status :: server_status
  pr_rtt :: nat

definition probe :: "(server_message \<Rightarrow> string) \<Rightarrow> ('io, 'je) link \<Rightarrow> ('io, 'je, probe_result) awaited" where
  "probe dbg l =
     (case hello dbg l of
        (ms, l1, None) \<Rightarrow> (ms, l1, None)
      | (ms, l1, Some (Inl e)) \<Rightarrow> (ms, l1, Some (Err e))
      | (ms, l1, Some (Inr _)) \<Rightarrow>
          (case send CStatus l1 of
             (ms', l2, Inl e) \<Rightarrow> (ms @ ms', l2, Some (Err e))
           | (ms', l2, Inr _) \<Rightarrow>
               (case recv l2 of (l3, r) \<Rightarrow>
                  (ms @ ms', l3,
                   map_option (\<lambda>got. and_then got (\<lambda>m. case m of
                       Some (SStatus status) \<Rightarrow> Ok \<lparr> pr_status = status, pr_rtt = lk_rtt l3 \<rparr>
                     | Some (SError e) \<Rightarrow> Err (TProtocol (pe_message e))
                     | Some other \<Rightarrow> Err (TUnexpected (dbg other))
                     | None \<Rightarrow> Err TClosed)) r))))"

text \<open>
  When the deadline passes the probe is dropped where it waits; a probe whose wait has no end
  always meets it.
\<close>

definition probe_with_timeout ::
  "(server_message \<Rightarrow> string) \<Rightarrow> nat \<Rightarrow> ('io, 'je) link \<Rightarrow> ('io, 'je, probe_result) sent" where
  "probe_with_timeout dbg timeout l =
     (case lk_probe_elapsed l of
        None \<Rightarrow> (case probe dbg l of (ms, l', r) \<Rightarrow> (ms, l', unwrap_or (Err (TTimeout timeout)) r))
      | Some k \<Rightarrow> (take k (fst (probe dbg l)), l, Err (TTimeout timeout)))"

section \<open>Opening connections\<close>

text \<open>
  \<open>ep_connect\<close> is what \<open>Transport::connect\<close> returns, \<open>ep_connect_elapsed\<close> whether it takes longer
  than the deadline of a caller that sets one.
\<close>

record ('io, 'je) endpoint =
  ep_describe :: string
  ep_connect :: "(('io, 'je) link, ('io, 'je) transport_error) result"
  ep_connect_elapsed :: bool

record ssh_transport =
  sh_host :: string
  sh_connect_timeout_ms :: u64
  sh_remote_bin :: string

definition div_ceil :: "nat \<Rightarrow> nat \<Rightarrow> nat" where
  "div_ceil a b = (if a mod b = 0 then a div b else Suc (a div b))"

definition ssh_argv :: "ssh_transport \<Rightarrow> string list" where
  "ssh_argv t =
     (let secs = max (div_ceil (unat (sh_connect_timeout_ms t)) 1000) 1 in
      [''ssh'', ''-o'', ''BatchMode=yes'', ''-o'', ''ConnectTimeout='' @ show_nat secs, sh_host t, sh_remote_bin t, ''proxy''])"

text \<open>A spawned program with its first argument, as \<open>self_spawn::command\<close> builds it.\<close>

record self_command =
  se_program :: path
  se_argv0 :: string
  se_args :: "string list"

definition SAFE_ARGV0 :: string where "SAFE_ARGV0 = ''rbs''"

definition self_spawn_command :: "path \<Rightarrow> self_command" where
  "self_spawn_command program = \<lparr> se_program = program, se_argv0 = SAFE_ARGV0, se_args = [] \<rparr>"

record local_transport =
  lt_socket :: path
  lt_autostart :: bool
  lt_exe :: path

text \<open>Milliseconds.\<close>

definition AUTOSTART_WAIT :: nat where "AUTOSTART_WAIT = 3000"
definition RETRY_EVERY :: nat where "RETRY_EVERY = 100"

definition spawn_server_command :: "local_transport \<Rightarrow> self_command" where
  "spawn_server_command t = (self_spawn_command (lt_exe t))\<lparr>se_args := [''server'', ''--socket'', lt_socket t]\<rparr>"

definition spawn_server ::
  "(path \<Rightarrow> 'io option) \<Rightarrow> (self_command \<Rightarrow> 'io option) \<Rightarrow> local_transport
     \<Rightarrow> (unit, ('io, 'je) transport_error) result" where
  "spawn_server create_dir_all spawn_detached t =
     and_then (case path_parent (lt_socket t) of
                 None \<Rightarrow> Ok ()
               | Some dir \<Rightarrow> (case create_dir_all dir of Some e \<Rightarrow> Err (TIo e) | None \<Rightarrow> Ok ())) (\<lambda>_.
       (case spawn_detached (spawn_server_command t) of
          Some e \<Rightarrow> Err (TConnect (lt_exe t @ '' server'') e)
        | None \<Rightarrow> Ok ()))"

text \<open>
  The retry loop: attempt \<open>k\<close> follows the \<open>(k+1)\<close>st sleep, and \<open>now k\<close> is the clock after it,
  in milliseconds from the spawn. \<open>None\<close> is a loop that does not end.
\<close>

partial_function (option) retry_connect ::
  "(nat \<Rightarrow> ('c, 'e) result) \<Rightarrow> (nat \<Rightarrow> nat) \<Rightarrow> nat \<Rightarrow> ('c, 'e) result option" where
  "retry_connect attempt now k =
     (case attempt k of
        Inr c \<Rightarrow> Some (Ok c)
      | Inl e \<Rightarrow> if AUTOSTART_WAIT \<le> now k then Some (Err e) else retry_connect attempt now (Suc k))"

definition local_connect ::
  "(path \<Rightarrow> 'io option) \<Rightarrow> (self_command \<Rightarrow> 'io option) \<Rightarrow> ('c, ('io, 'je) transport_error) result
     \<Rightarrow> (nat \<Rightarrow> ('c, ('io, 'je) transport_error) result) \<Rightarrow> (nat \<Rightarrow> nat) \<Rightarrow> local_transport
     \<Rightarrow> ('c, ('io, 'je) transport_error) result option" where
  "local_connect create_dir_all spawn_detached first attempt now t =
     (if is_ok first \<or> \<not> lt_autostart t then Some first
      else (case spawn_server create_dir_all spawn_detached t of
              Inl e \<Rightarrow> Some (Err e)
            | Inr _ \<Rightarrow> retry_connect attempt now 0))"

section \<open>Facts\<close>

lemma send_simps [simp]:
  "fst (send m l) = [m]" "lk_recv (fst (snd (send m l))) = lk_recv l"
  "lk_interrupt (fst (snd (send m l))) = lk_interrupt l"
  by (simp_all add: send_def)

lemma recv_interrupt [simp]: "lk_interrupt (fst (recv l)) = lk_interrupt l"
  by (simp add: recv_def split: list.split)

lemma hello_sends [simp]: "fst (hello dbg l) = [CHello PROTOCOL_VERSION]"
  by (auto simp: hello_def send_def split: prod.splits sum.splits option.splits)

lemma probe_sends: "set (fst (probe dbg l)) \<subseteq> {CHello PROTOCOL_VERSION, CStatus}"
proof -
  obtain ms l1 r where "hello dbg l = (ms, l1, r)" by (cases "hello dbg l") auto
  moreover from this have "ms = [CHello PROTOCOL_VERSION]" using hello_sends [of dbg l] by simp
  ultimately show ?thesis
    by (auto simp: probe_def send_def split: prod.splits sum.splits option.splits)
qed

lemma probe_with_timeout_sends: "set (fst (probe_with_timeout dbg t l)) \<subseteq> {CHello PROTOCOL_VERSION, CStatus}"
  using probe_sends [of dbg l]
  by (cases "lk_probe_elapsed l"; cases "probe dbg l") (auto simp: probe_with_timeout_def dest: in_set_takeD)

lemma retry_connect_at:
  assumes "\<forall>j < k. (\<exists>e. attempt (n + j) = Inl e) \<and> now (n + j) < AUTOSTART_WAIT"
    and "is_ok (attempt (n + k)) \<or> AUTOSTART_WAIT \<le> now (n + k)"
  shows "retry_connect attempt now n = Some (attempt (n + k))"
  using assms
proof (induction k arbitrary: n)
  case 0
  then show ?case by (subst retry_connect.simps) (auto split: sum.splits)
next
  case (Suc k)
  have "\<exists>e. attempt n = Inl e" and "now n < AUTOSTART_WAIT" using Suc.prems(1) by auto
  then have "retry_connect attempt now n = retry_connect attempt now (Suc n)"
    by (subst retry_connect.simps) auto
  also have "\<dots> = Some (attempt (Suc n + k))"
  proof (rule Suc.IH)
    show "\<forall>j < k. (\<exists>e. attempt (Suc n + j) = Inl e) \<and> now (Suc n + j) < AUTOSTART_WAIT"
      using Suc.prems(1) by (metis Suc_mono add_Suc_shift)
    show "is_ok (attempt (Suc n + k)) \<or> AUTOSTART_WAIT \<le> now (Suc n + k)"
      using Suc.prems(2) by simp
  qed
  finally show ?case by simp
qed

text \<open>The clock of the loop: each of its rounds sleeps for \<open>RETRY_EVERY\<close>.\<close>

definition clock_law :: "(nat \<Rightarrow> nat) \<Rightarrow> bool" where
  "clock_law now \<longleftrightarrow> (\<forall>k. RETRY_EVERY * Suc k \<le> now k)"

lemma retry_connect_returns:
  assumes "clock_law now"
  obtains k where "k < 30" and "retry_connect attempt now 0 = Some (attempt k)"
    and "is_ok (attempt k) \<or> AUTOSTART_WAIT \<le> now k"
    and "\<forall>j < k. \<not> is_ok (attempt j) \<and> now j < AUTOSTART_WAIT"
proof -
  let ?stop = "\<lambda>k. is_ok (attempt k) \<or> AUTOSTART_WAIT \<le> now k"
  have "RETRY_EVERY * Suc 29 \<le> now 29" using assms unfolding clock_law_def by blast
  then have end_stop: "?stop 29" by (simp add: RETRY_EVERY_def AUTOSTART_WAIT_def)
  define k where "k = (LEAST k. ?stop k)"
  have stop: "?stop k" unfolding k_def by (rule LeastI [of ?stop, OF end_stop])
  have le: "k \<le> 29" unfolding k_def by (rule Least_le [of ?stop, OF end_stop])
  have before: "\<forall>j < k. \<not> is_ok (attempt j) \<and> now j < AUTOSTART_WAIT"
    unfolding k_def by (metis (mono_tags, lifting) not_le not_less_Least)
  have "retry_connect attempt now 0 = Some (attempt (0 + k))"
  proof (rule retry_connect_at)
    show "\<forall>j < k. (\<exists>e. attempt (0 + j) = Inl e) \<and> now (0 + j) < AUTOSTART_WAIT"
      using before by (metis add_0 is_ok.elims(3))
    show "?stop (0 + k)" using stop by simp
  qed
  then show thesis using that [of k] le stop before by simp
qed

text \<open>
  C30. Starting the local server cannot hang. When every round of the retry loop takes at least
  its sleep, connecting returns: either without a loop (the socket answered, autostart is off,
  or the server could not be spawned) or after at most thirty attempts, with the result of
  the first one that succeeded or was past the deadline, all earlier ones having failed.
\<close>
theorem local_connect_terminates:
  assumes "clock_law now"
  shows "\<exists>r. local_connect mkdir spawn_detached first attempt now t = Some r
           \<and> (if is_ok first \<or> \<not> lt_autostart t then r = first
              else case spawn_server mkdir spawn_detached t of
                     Inl e \<Rightarrow> r = Err e
                   | Inr _ \<Rightarrow> (\<exists>k < 30. r = attempt k \<and> (is_ok (attempt k) \<or> AUTOSTART_WAIT \<le> now k)
                                \<and> (\<forall>j < k. \<not> is_ok (attempt j) \<and> now j < AUTOSTART_WAIT)))"
proof -
  obtain k where "k < 30" and "retry_connect attempt now 0 = Some (attempt k)"
    and "is_ok (attempt k) \<or> AUTOSTART_WAIT \<le> now k"
    and "\<forall>j < k. \<not> is_ok (attempt j) \<and> now j < AUTOSTART_WAIT"
    by (rule retry_connect_returns [OF assms])
  then show ?thesis
    by (auto simp: local_connect_def split: sum.splits)
qed

theorem local_connect_terminates_witness:
  "\<exists>k < 30. local_connect (\<lambda>_. None) (\<lambda>_. None) (Err (TIo ())) (\<lambda>k. if k < 2 then Err (TIo ()) else Ok k)
       (\<lambda>k. 100 * Suc k) \<lparr> lt_socket = ''/run/s'', lt_autostart = True, lt_exe = ''rbs'' \<rparr>
     = (Some (Ok k) :: (nat, (unit, unit) transport_error) result option)"
proof -
  let ?t = "\<lparr> lt_socket = ''/run/s'', lt_autostart = True, lt_exe = ''rbs'' \<rparr>"
  have "clock_law (\<lambda>k. 100 * Suc k)" by (simp add: clock_law_def RETRY_EVERY_def)
  from local_connect_terminates [OF this, of "\<lambda>_. None" "\<lambda>_. None" "Err (TIo ())"
      "\<lambda>k. if k < 2 then Err (TIo ()) else Ok k :: (nat, (unit, unit) transport_error) result" ?t]
  show ?thesis
    by (auto simp: spawn_server_def AUTOSTART_WAIT_def split: option.splits if_splits)
qed

end
