(* ===== verification/Real_Cargo.thy ===== *)
theory Real_Cargo
  imports Transport
begin

text \<open>
  Finding and running the real \<open>cargo\<close>: \<open>real_cargo.rs\<close>, and the dispatch of \<open>main.rs\<close> on the
  name the binary was called by. The file system is two functions: which paths are executable
  files, and how a path canonicalises.
\<close>

definition SHIM_ACTIVE_ENV :: string where "SHIM_ACTIVE_ENV = ''RBS_SHIM_ACTIVE''"

datatype 'io real_cargo_error = RcNotFound string | RcExec path 'io

definition shim_active :: "(string \<rightharpoonup> string) \<Rightarrow> bool" where
  "shim_active env \<longleftrightarrow> env SHIM_ACTIVE_ENV = Some ''1''"

definition same_dir :: "(path \<Rightarrow> path option) \<Rightarrow> path \<Rightarrow> path \<Rightarrow> bool" where
  "same_dir canonicalize a b \<longleftrightarrow>
     components (unwrap_or a (canonicalize a)) = components (unwrap_or b (canonicalize b))"

definition not_shim :: "(path \<Rightarrow> path option) \<Rightarrow> path option \<Rightarrow> path \<Rightarrow> bool" where
  "not_shim canonicalize shim_dir p =
     (case (path_parent p, shim_dir) of
        (Some dir, Some shim) \<Rightarrow> \<not> same_dir canonicalize dir shim
      | _ \<Rightarrow> True)"

definition split_paths :: "string \<Rightarrow> path list" where
  "split_paths = split_by (\<lambda>c. c = CHR '':'')"

definition preferred :: "path option \<Rightarrow> path option \<Rightarrow> path list" where
  "preferred cargo_home home =
     (case cargo_home of Some c \<Rightarrow> [path_join c ''bin/cargo''] | None \<Rightarrow> [])
     @ (case home of Some h \<Rightarrow> [path_join h ''.cargo/bin/cargo''] | None \<Rightarrow> [])"

definition resolve ::
  "(path \<Rightarrow> bool) \<Rightarrow> (path \<Rightarrow> path option) \<Rightarrow> path option \<Rightarrow> path option \<Rightarrow> string \<Rightarrow> path option \<Rightarrow> path option" where
  "resolve is_exec canonicalize cargo_home home search_path shim_dir =
     (case find (\<lambda>c. is_exec c \<and> not_shim canonicalize shim_dir c) (preferred cargo_home home) of
        Some c \<Rightarrow> Some c
      | None \<Rightarrow> find (\<lambda>c. is_exec c \<and> not_shim canonicalize shim_dir c)
                  (map (\<lambda>d. path_join d ''cargo'') (filter (\<lambda>d. d \<noteq> []) (split_paths search_path))))"

definition self_dir :: "path option \<Rightarrow> path option" where
  "self_dir current_exe = Option.bind current_exe path_parent"

definition find_cargo ::
  "(path \<Rightarrow> bool) \<Rightarrow> (path \<Rightarrow> path option) \<Rightarrow> (string \<rightharpoonup> string) \<Rightarrow> path option \<Rightarrow> (path, 'io real_cargo_error) result" where
  "find_cargo is_exec canonicalize env current_exe =
     (let shim_dir = self_dir current_exe in
      ok_or (RcNotFound (unwrap_or ''<unknown>'' shim_dir))
        (resolve is_exec canonicalize (env ''CARGO_HOME'') (env ''HOME'') (unwrap_or [] (env ''PATH'')) shim_dir))"

record cargo_command =
  cc_program :: path
  cc_args :: "string list"
  cc_env :: "string \<rightharpoonup> string"

definition cargo_command_for :: "(string \<rightharpoonup> string) \<Rightarrow> path \<Rightarrow> string list \<Rightarrow> cargo_command" where
  "cargo_command_for env cargo args =
     \<lparr> cc_program = cargo, cc_args = args,
       cc_env = ((if env ''RUSTC_WRAPPER'' = None then env(''RUSTC_WRAPPER'' \<mapsto> ''kache'') else env)
                  (SHIM_ACTIVE_ENV \<mapsto> ''1'')) \<rparr>"

text \<open>\<open>exec\<close> replaces the process: \<open>Ok\<close> is the command that now runs.\<close>

definition exec_cargo ::
  "(cargo_command \<Rightarrow> 'io option) \<Rightarrow> (string \<rightharpoonup> string) \<Rightarrow> path \<Rightarrow> string list
     \<Rightarrow> (cargo_command, 'io real_cargo_error) result" where
  "exec_cargo exec_err env cargo args =
     (case exec_err (cargo_command_for env cargo args) of
        Some e \<Rightarrow> Err (RcExec cargo e)
      | None \<Rightarrow> Ok (cargo_command_for env cargo args))"

definition exec_real_cargo ::
  "(path \<Rightarrow> bool) \<Rightarrow> (path \<Rightarrow> path option) \<Rightarrow> (cargo_command \<Rightarrow> 'io option) \<Rightarrow> (string \<rightharpoonup> string) \<Rightarrow> path option
     \<Rightarrow> string list \<Rightarrow> (cargo_command, 'io real_cargo_error) result" where
  "exec_real_cargo is_exec canonicalize exec_err env current_exe args =
     and_then (find_cargo is_exec canonicalize env current_exe) (\<lambda>cargo. exec_cargo exec_err env cargo args)"

text \<open>\<open>main.rs\<close>: whether this process is the shim.\<close>

definition invoked_as_cargo :: "string option \<Rightarrow> bool" where
  "invoked_as_cargo argv0 \<longleftrightarrow> Option.bind argv0 file_name = Some ''cargo''"

section \<open>Facts\<close>

definition path_candidates :: "string \<Rightarrow> path list" where
  "path_candidates search_path = map (\<lambda>d. path_join d ''cargo'') (filter (\<lambda>d. d \<noteq> []) (split_paths search_path))"

lemma find_append: "find P (xs @ ys) = (case find P xs of Some x \<Rightarrow> Some x | None \<Rightarrow> find P ys)"
  by (induction xs) auto

lemma resolve_find:
  "resolve is_exec canon ch h sp shim
     = find (\<lambda>c. is_exec c \<and> not_shim canon shim c) (preferred ch h @ path_candidates sp)"
  by (simp add: resolve_def find_append path_candidates_def)

lemma find_first:
  "find P xs = Some x \<Longrightarrow> \<exists>as bs. xs = as @ x # bs \<and> P x \<and> list_all (\<lambda>a. \<not> P a) as"
proof (induction xs)
  case Nil
  then show ?case by simp
next
  case (Cons y xs)
  show ?case
  proof (cases "P y")
    case True
    with Cons show ?thesis by (intro exI [of _ "[]"] exI [of _ xs]) simp
  next
    case False
    with Cons obtain as bs where "xs = as @ x # bs" and "P x" and "list_all (\<lambda>a. \<not> P a) as" by auto
    with False show ?thesis by (intro exI [of _ "y # as"] exI [of _ bs]) simp
  qed
qed

lemma safe_argv0_is_not_cargo: "\<not> invoked_as_cargo (Some SAFE_ARGV0)"
  by (simp add: invoked_as_cargo_def SAFE_ARGV0_def) code_simp

text \<open>
  The shim never runs itself. When the lookup of the real cargo succeeds, what runs is the
  first executable candidate in the order \<open>$CARGO_HOME\<close>, \<open>$HOME/.cargo\<close>, \<open>$PATH\<close> that does not
  live in the directory of the running binary; it runs with the guard variable set, so a cargo
  it starts in turn goes straight to the real one, and a wrapper the user configured is kept.
  The processes the client spawns from its own binary carry a name that is not dispatched to
  the shim.
\<close>
lemma exec_never_reenters_shim:
  "(case exec_real_cargo is_exec canon exec_err env exe args of
      Inl e \<Rightarrow> True
    | Inr c \<Rightarrow>
        not_shim canon (self_dir exe) (cc_program c) \<and> is_exec (cc_program c)
        \<and> (\<exists>as bs. preferred (env ''CARGO_HOME'') (env ''HOME'') @ path_candidates (unwrap_or [] (env ''PATH''))
                     = as @ cc_program c # bs
                   \<and> list_all (\<lambda>a. \<not> (is_exec a \<and> not_shim canon (self_dir exe) a)) as)
        \<and> cc_args c = args \<and> shim_active (cc_env c)
        \<and> cc_env c ''RUSTC_WRAPPER'' = Some (unwrap_or ''kache'' (env ''RUSTC_WRAPPER'')))
   \<and> \<not> invoked_as_cargo (Some (se_argv0 (self_spawn_command p)))"
proof
  show "\<not> invoked_as_cargo (Some (se_argv0 (self_spawn_command p)))"
    using safe_argv0_is_not_cargo by (simp add: self_spawn_command_def)
  show "case exec_real_cargo is_exec canon exec_err env exe args of
      Inl e \<Rightarrow> True
    | Inr c \<Rightarrow>
        not_shim canon (self_dir exe) (cc_program c) \<and> is_exec (cc_program c)
        \<and> (\<exists>as bs. preferred (env ''CARGO_HOME'') (env ''HOME'') @ path_candidates (unwrap_or [] (env ''PATH''))
                     = as @ cc_program c # bs
                   \<and> list_all (\<lambda>a. \<not> (is_exec a \<and> not_shim canon (self_dir exe) a)) as)
        \<and> cc_args c = args \<and> shim_active (cc_env c)
        \<and> cc_env c ''RUSTC_WRAPPER'' = Some (unwrap_or ''kache'' (env ''RUSTC_WRAPPER''))"
  proof (cases "exec_real_cargo is_exec canon exec_err env exe args")
    case (Inl e)
    then show ?thesis by simp
  next
    case (Inr c)
    then obtain cargo where f: "resolve is_exec canon (env ''CARGO_HOME'') (env ''HOME'') (unwrap_or [] (env ''PATH'')) (self_dir exe) = Some cargo"
      and c: "c = cargo_command_for env cargo args"
      by (auto simp: exec_real_cargo_def find_cargo_def exec_cargo_def Let_def split: option.splits)
    have "cc_program c = cargo" and "cc_args c = args" and "shim_active (cc_env c)"
      and "cc_env c ''RUSTC_WRAPPER'' = Some (unwrap_or ''kache'' (env ''RUSTC_WRAPPER''))"
      by (auto simp: c cargo_command_for_def shim_active_def SHIM_ACTIVE_ENV_def)
    with f Inr show ?thesis
      by (auto simp: resolve_find dest!: find_first)
  qed
qed

end
