(* ===== verification/Sync.thy ===== *)
theory Sync
  imports Toolchain Config
begin

text \<open>
  Mirroring the worktree and pulling artifacts: \<open>crates/rbs-sync\<close> (\<open>plan.rs\<close>, \<open>lib.rs\<close>).
  Running a program is a parameter from the program, its arguments and the optional working
  directory to what the process does.
\<close>

record rsync_plan =
  rp_rsync_path :: string
  rp_root :: path
  rp_host :: string
  rp_excludes :: "string list"
  rp_force_include :: "string list"

definition rsync_plan_new :: "sync_cfg \<Rightarrow> path \<Rightarrow> string \<Rightarrow> rsync_plan" where
  "rsync_plan_new cfg root host =
     \<lparr> rp_rsync_path = sy_rsync_path cfg, rp_root = root, rp_host = host,
       rp_excludes = sy_extra_excludes cfg, rp_force_include = sy_force_include cfg \<rparr>"

text \<open>\<open>str::trim_end_matches(char)\<close>.\<close>

definition trim_end_char :: "char \<Rightarrow> string \<Rightarrow> string" where
  "trim_end_char c s = rev (dropWhile (\<lambda>x. x = c) (rev s))"

definition root_no_slash :: "rsync_plan \<Rightarrow> string" where
  "root_no_slash p = (if length (rp_root p) > 1 then trim_end_char (CHR ''/'') (rp_root p) else rp_root p)"

definition rsync_source :: "rsync_plan \<Rightarrow> string" where
  "rsync_source p = root_no_slash p @ ''/''"

definition rsync_destination :: "rsync_plan \<Rightarrow> string" where
  "rsync_destination p = rp_host p @ '':'' @ root_no_slash p @ ''/''"

definition rsync_argv :: "rsync_plan \<Rightarrow> string list" where
  "rsync_argv p =
     [rp_rsync_path p, ''-a'', ''--delete'', ''--mkpath'']
     @ map (\<lambda>inc. ''--include='' @ inc) (rp_force_include p)
     @ [''--filter=:- .gitignore'', ''--exclude=.git/'', ''--exclude=target/'']
     @ map (\<lambda>ex. ''--exclude='' @ ex) (rp_excludes p)
     @ [rsync_source p, rsync_destination p]"

datatype 'io sync_error =
    SySpawn string 'io
  | SyFailed string string string
  | SyNoWorkspace path string

type_synonym 'io exec_in = "string \<Rightarrow> string list \<Rightarrow> path option \<Rightarrow> 'io proc_result"

definition run_captured ::
  "'io exec_in \<Rightarrow> string \<Rightarrow> string list \<Rightarrow> path option \<Rightarrow> (string, 'io sync_error) result" where
  "run_captured exec program args cwd =
     (case exec program args cwd of
        SpawnFailed e \<Rightarrow> Err (SySpawn program e)
      | ProcExit ok status out err \<Rightarrow>
          (if \<not> ok then Err (SyFailed program status (trim err)) else Ok out))"

definition sync_push :: "'io exec_in \<Rightarrow> sync_cfg \<Rightarrow> path \<Rightarrow> string \<Rightarrow> (unit, 'io sync_error) result" where
  "sync_push exec cfg root host =
     (let plan = rsync_plan_new cfg root host in
      and_then (run_captured exec (rp_rsync_path plan) (tl (rsync_argv plan)) None) (\<lambda>_. Ok ()))"

definition sync_pull :: "'io exec_in \<Rightarrow> path \<Rightarrow> (unit, 'io sync_error) result" where
  "sync_pull exec root = and_then (run_captured exec ''kache'' [''sync'', ''--pull''] (Some root)) (\<lambda>_. Ok ())"

definition manifest_to_root :: "path \<Rightarrow> path option" where
  "manifest_to_root manifest = (if manifest = [] then None else path_parent manifest)"

definition workspace_root ::
  "'io exec_in \<Rightarrow> ('io sync_error \<Rightarrow> string) \<Rightarrow> path \<Rightarrow> (path, 'io sync_error) result" where
  "workspace_root exec show_err cwd =
     and_then (map_err (\<lambda>e. SyNoWorkspace cwd (show_err e))
                 (run_captured exec ''cargo'' [''locate-project'', ''--workspace'', ''--message-format'', ''plain''] (Some cwd)))
       (\<lambda>out. (let manifest = trim out in
               ok_or (SyNoWorkspace cwd (''unexpected locate-project output `'' @ manifest @ ''`'')) (manifest_to_root manifest)))"

section \<open>Facts\<close>

lemma trim_end_char_id: "s = [] \<or> last s \<noteq> c \<Longrightarrow> trim_end_char c s = s"
  by (metis (mono_tags, lifting) dropWhile_eq_self_iff hd_rev rev_is_Nil_conv rev_rev_ident trim_end_char_def)

text \<open>
  The filter chain of rsync takes the first rule that matches: a forced include stands before
  the \<open>.gitignore\<close> rule and before every exclude, and the source and the destination are the
  last two arguments, naming the same path on both sides.
\<close>

lemma rsync_argv_layout:
  "\<exists>incs excs. rsync_argv p = [rp_rsync_path p, ''-a'', ''--delete'', ''--mkpath''] @ incs
       @ ''--filter=:- .gitignore'' # excs @ [root_no_slash p @ ''/'', rp_host p @ '':'' @ root_no_slash p @ ''/'']
     \<and> list_all (starts_with ''--include='') incs \<and> list_all (starts_with ''--exclude='') excs"
  by (rule exI [of _ "map (\<lambda>inc. ''--include='' @ inc) (rp_force_include p)"],
      rule exI [of _ "[''--exclude=.git/'', ''--exclude=target/''] @ map (\<lambda>ex. ''--exclude='' @ ex) (rp_excludes p)"])
    (simp add: rsync_argv_def rsync_source_def rsync_destination_def list_all_iff starts_with_def)

end
