(* ===== verification/Shim.thy ===== *)
theory Shim
  imports Real_Cargo Sync
begin

text \<open>
  The cargo shim: backend selection (\<open>backend.rs\<close>) and the flow of one invocation
  (\<open>shim.rs\<close>) of \<open>crates/rbs-client\<close>.

  The trait \<open>Hooks\<close> is the record \<open>hooks\<close>: what each side effect returns. The side effects
  themselves, in the order they happen, are the list of effects a run returns with its exit
  code; log lines are left out. A failed send is an effect too, since bytes may have left.
  The exit code \<open>None\<close> is a run that never returns, because it waits for a server that keeps
  the connection open and stays silent: neither the handshake with the local server nor a
  submission has a deadline. The processes a run waits for (the compiler, the real cargo, rsync,
  kache) are taken to end.
\<close>

section \<open>Backend selection (\<open>backend.rs\<close>)\<close>

datatype backend = BRemote | BLocal | BPlain

fun show_backend :: "backend \<Rightarrow> string" where
  "show_backend BRemote = ''remote''"
| "show_backend BLocal = ''local''"
| "show_backend BPlain = ''plain''"

datatype skip_reason =
    Disabled
  | ProbeFailed string
  | RttTooHigh (skip_rtt: nat) (skip_max: nat)
  | NotAccepting (skip_queued: usize) (skip_running: usize)

definition as_millis :: "nat \<Rightarrow> nat" where
  "as_millis d = d div 1000000"

fun show_skip_reason :: "skip_reason \<Rightarrow> string" where
  "show_skip_reason Disabled = ''disabled in config''"
| "show_skip_reason (ProbeFailed m) = ''probe failed: '' @ m"
| "show_skip_reason (RttTooHigh rtt mx) =
     ''link too slow: rtt '' @ show_nat (as_millis rtt) @ ''ms > max_rtt_ms '' @ show_nat (as_millis mx)"
| "show_skip_reason (NotAccepting q r) =
     ''server not accepting (queued '' @ show_nat q @ '', running '' @ show_nat r @ '')''"

record skip =
  sk_backend :: backend
  sk_reason :: skip_reason

record chain_decision =
  dc_chain :: "backend list"
  dc_skipped :: "skip list"

datatype remote_probe = ProbeOk probe_result | ProbeErr string

definition remote_skip :: "remote_probe option \<Rightarrow> config \<Rightarrow> skip_reason option" where
  "remote_skip remote cfg =
     (if \<not> rm_enabled (cfg_remote cfg) then Some Disabled
      else case remote of
        None \<Rightarrow> Some (ProbeFailed ''not probed'')
      | Some (ProbeErr m) \<Rightarrow> Some (ProbeFailed m)
      | Some (ProbeOk p) \<Rightarrow>
          (let mx = from_millis (rm_max_rtt_ms (cfg_remote cfg)) in
           if pr_rtt p > mx then Some (RttTooHigh (pr_rtt p) mx)
           else if \<not> cap_accepting (st_capacity (pr_status p))
           then Some (NotAccepting (st_queued (pr_status p)) (st_running (pr_status p)))
           else None))"

definition local_skip :: "bool \<Rightarrow> config \<Rightarrow> skip_reason option" where
  "local_skip local_available cfg =
     (if \<not> ls_enabled (cfg_local_server cfg) \<or> \<not> local_available then Some Disabled else None)"

definition consider_backend :: "backend \<Rightarrow> skip_reason option \<Rightarrow> chain_decision \<Rightarrow> chain_decision" where
  "consider_backend b sk d =
     (case sk of
        None \<Rightarrow> d\<lparr>dc_chain := dc_chain d @ [b]\<rparr>
      | Some r \<Rightarrow> d\<lparr>dc_skipped := dc_skipped d @ [\<lparr> sk_backend = b, sk_reason = r \<rparr>]\<rparr>)"

definition select :: "mode \<Rightarrow> remote_probe option \<Rightarrow> bool \<Rightarrow> config \<Rightarrow> chain_decision" where
  "select m remote local_available cfg =
     (let d = \<lparr> dc_chain = [], dc_skipped = [] \<rparr> in
      case m of
        Auto \<Rightarrow> consider_backend BPlain None (consider_backend BLocal (local_skip local_available cfg) (consider_backend BRemote (remote_skip remote cfg) d))
      | Remote \<Rightarrow> consider_backend BRemote (remote_skip remote cfg) d
      | Local \<Rightarrow> consider_backend BLocal (local_skip local_available cfg) d
      | Plain \<Rightarrow> consider_backend BPlain None d)"

section \<open>The invocation (\<open>shim.rs\<close>)\<close>

record shim_input =
  in_cwd :: path
  in_argv :: "string list"
  in_cfg :: config
  in_tty :: bool
  in_identity :: client_identity
  in_env :: "string \<rightharpoonup> string"
  in_cargo_policy :: bool
  in_pinned :: bool
  in_override :: "string option"

definition nth_opt :: "nat \<Rightarrow> 'a list \<Rightarrow> 'a option" where
  "nth_opt i xs = (if i < length xs then Some (xs ! i) else None)"

definition toolchain_override_token :: "string list \<Rightarrow> string option" where
  "toolchain_override_token argv =
     option_filter (\<lambda>s. s \<noteq> []) (Option.bind (nth_opt 1 argv) (strip_prefix ''+''))"

definition shim_input_from_env ::
  "(path \<Rightarrow> bool) \<Rightarrow> (string \<times> string) list \<Rightarrow> string \<Rightarrow> u32 \<Rightarrow> bool \<Rightarrow> path \<Rightarrow> string list \<Rightarrow> config \<Rightarrow> bool \<Rightarrow> shim_input" where
  "shim_input_from_env is_file vars hostname pid tty cwd argv cfg cargo_policy =
     \<lparr> in_cwd = cwd, in_argv = argv, in_cfg = cfg, in_tty = tty,
       in_identity = \<lparr> ci_hostname = hostname, ci_pid = pid,
                       ci_label = option_filter (\<lambda>l. l \<noteq> []) (map_of vars ''RBS_LABEL'') \<rparr>,
       in_env = filter_env vars (po_env_allowlist (cfg_policy cfg)),
       in_cargo_policy = cargo_policy,
       in_pinned = (find_toolchain_file is_file cwd \<noteq> None),
       in_override = toolchain_override_token argv \<rparr>"

definition subcommand :: "shim_input \<Rightarrow> string option" where
  "subcommand inp = nth_opt (if in_override inp \<noteq> None then 2 else 1) (in_argv inp)"

definition hard_mismatch :: "shim_input \<Rightarrow> bool" where
  "hard_mismatch inp \<longleftrightarrow> in_pinned inp \<or> in_override inp \<noteq> None"

definition COMPILING_SUBCOMMANDS :: "string list" where
  "COMPILING_SUBCOMMANDS = [''bench'', ''build'', ''check'', ''clippy'', ''doc'', ''run'', ''test'']"

definition wants_touch :: "shim_input \<Rightarrow> string option \<Rightarrow> bool" where
  "wants_touch inp sub \<longleftrightarrow>
     in_cargo_policy inp \<and> so_touch (cfg_store (in_cfg inp))
     \<and> (case sub of Some s \<Rightarrow> s \<in> set COMPILING_SUBCOMMANDS | None \<Rightarrow> False)"

definition PASSTHROUGH_SUBCOMMANDS :: "string list" where
  "PASSTHROUGH_SUBCOMMANDS =
     [''metadata'', ''locate-project'', ''pkgid'', ''tree'', ''search'', ''login'', ''logout'', ''install'',
      ''uninstall'', ''new'', ''init'', ''add'', ''remove'', ''rm'', ''update'', ''fetch'', ''generate-lockfile'',
      ''vendor'', ''publish'', ''package'', ''owner'', ''yank'', ''version'', ''help'', ''fmt'', ''read-manifest'',
      ''verify-project'', ''report'', ''config'', ''info'', ''clean'']"

definition is_passthrough :: "string option \<Rightarrow> bool" where
  "is_passthrough sub =
     (case sub of None \<Rightarrow> True | Some s \<Rightarrow> starts_with ''-'' s \<or> s \<in> set PASSTHROUGH_SUBCOMMANDS)"

section \<open>Effects\<close>

datatype effect =
    EFingerprint path "string option"
  | EWorkspaceRoot path
  | EConnect backend
  | ESend backend client_message
  | EPush path string
  | EPull path
  | ETouch path
  | EExec "string list"
  | EStdout "u8 list"
  | EStderr "u8 list"

definition as_bytes :: "string \<Rightarrow> u8 list" where
  "as_bytes = map (\<lambda>c. of_nat (of_char c))"

record ('io, 'je) hooks =
  hk_remote :: "('io, 'je) endpoint option"
  hk_local :: "('io, 'je) endpoint option"
  hk_fingerprint :: "path \<Rightarrow> string option \<Rightarrow> (toolchain_fingerprint, 'io toolchain_error) result"
  hk_workspace_root :: "path \<Rightarrow> (path, 'io sync_error) result"
  hk_push :: "path \<Rightarrow> string \<Rightarrow> (unit, 'io sync_error) result"
  hk_pull :: "path \<Rightarrow> (unit, 'io sync_error) result"
  hk_exec :: "string list \<Rightarrow> i32"
  hk_dbg :: "server_message \<Rightarrow> string"
  hk_show_error :: "('io, 'je) transport_error \<Rightarrow> string"

datatype ('io, 'je) outcome =
    OExited exit_status
  | OMismatch string toolchain_fingerprint toolchain_fingerprint
  | OSaturated
  | ORejected string
  | OTransport "('io, 'je) transport_error"
  | OSilent

type_synonym ran = "effect list \<times> i32 option"

definition prepend :: "'e list \<Rightarrow> 'e list \<times> 'a \<Rightarrow> 'e list \<times> 'a" where
  "prepend es r = (es @ fst r, snd r)"

section \<open>Submitting\<close>

definition reject_outcome :: "string \<Rightarrow> reject_reason \<Rightarrow> ('io, 'je) outcome" where
  "reject_outcome server_host reason =
     (case reason of
        ToolchainMismatch server client \<Rightarrow> OMismatch server_host server client
      | Saturated \<Rightarrow> OSaturated
      | RVersionMismatch \<Rightarrow> ORejected ''protocol version mismatch''
      | RInternal m \<Rightarrow> ORejected (''internal: '' @ m))"

text \<open>One event: what it writes, and the outcome when it ends the submission.\<close>

definition submit_event :: "string \<Rightarrow> job_event \<Rightarrow> effect list \<times> ('io, 'je) outcome option" where
  "submit_event server_host ev =
     (case ev of
        Queued i p \<Rightarrow> ([], None)
      | Started i \<Rightarrow> ([], None)
      | Stdout i bytes \<Rightarrow> ([EStdout bytes], None)
      | Stderr i bytes \<Rightarrow> ([EStderr bytes], None)
      | Exited i st \<Rightarrow> ([], Some (OExited st))
      | Rejected i reason \<Rightarrow> ([], Some (reject_outcome server_host reason)))"

text \<open>
  The loop of \<open>submit\<close>. \<open>interrupt\<close> counts the messages still received before the user
  interrupts; after the first interrupt the guard \<open>!cancelled\<close> keeps the branch disabled. When
  there is nothing more to receive the loop waits for ever: \<open>OSilent\<close>.
\<close>

function submit_loop ::
  "(server_message \<Rightarrow> string) \<Rightarrow> string \<Rightarrow> backend \<Rightarrow> ('io, 'je) transport_error option \<Rightarrow> nat option \<Rightarrow> job_id option
     \<Rightarrow> (server_message option, ('io, 'je) transport_error) result list \<Rightarrow> effect list \<times> ('io, 'je) outcome" where
  "submit_loop dbg sh be cerr interrupt jid ins =
     (if interrupt = Some 0 then
        (case jid of
           None \<Rightarrow> ([], OExited (Signal 2))
         | Some i \<Rightarrow>
             (case cerr of
                Some e \<Rightarrow> ([ESend be (CCancel i)], OTransport e)
              | None \<Rightarrow> prepend [ESend be (CCancel i)] (submit_loop dbg sh be cerr None jid ins)))
      else case ins of
        [] \<Rightarrow> ([], OSilent)
      | Inl e # rest \<Rightarrow> ([], OTransport e)
      | Inr None # rest \<Rightarrow> ([], OTransport TClosed)
      | Inr (Some (SError e)) # rest \<Rightarrow> ([], OTransport (TProtocol (pe_message e)))
      | Inr (Some (SHello v ident)) # rest \<Rightarrow> ([], OTransport (TUnexpected (dbg (SHello v ident))))
      | Inr (Some (SStatus st)) # rest \<Rightarrow> ([], OTransport (TUnexpected (dbg (SStatus st))))
      | Inr (Some (SEvent ev)) # rest \<Rightarrow>
          (case submit_event sh ev of
             (effs, Some out) \<Rightarrow> (effs, out)
           | (effs, None) \<Rightarrow>
               prepend effs
                 (submit_loop dbg sh be cerr (map_option (\<lambda>k. k - 1) interrupt)
                    (case jid of None \<Rightarrow> Some (event_id ev) | Some i \<Rightarrow> Some i) rest)))"
  by pat_completeness auto
termination
  by (relation "measure (\<lambda>(dbg, sh, be, cerr, interrupt, jid, ins). length ins + (if interrupt = None then 0 else 1))")
    auto

declare submit_loop.simps [simp del]

definition submit ::
  "('io, 'je) hooks \<Rightarrow> backend \<Rightarrow> job_request \<Rightarrow> string \<Rightarrow> ('io, 'je) link \<Rightarrow> effect list \<times> ('io, 'je) outcome" where
  "submit h be request server_host l =
     (case send (CSubmit request) l of
        (ms, l1, Inl e) \<Rightarrow> (map (ESend be) ms, OTransport e)
      | (ms, l1, Inr _) \<Rightarrow>
          prepend (map (ESend be) ms)
            (submit_loop (hk_dbg h) server_host be (lk_send_err l1 (lk_sends l1)) (lk_interrupt l1) None (lk_recv l1)))"

section \<open>The flow\<close>

definition job_env_of :: "(string \<rightharpoonup> string) \<Rightarrow> (string \<rightharpoonup> string)" where
  "job_env_of env = env(SHIM_ACTIVE_ENV \<mapsto> ''1'')"

definition probe_remote ::
  "('io, 'je) hooks \<Rightarrow> nat \<Rightarrow> ('io, 'je) endpoint
     \<Rightarrow> effect list \<times> (('io, 'je) link \<times> probe_result, ('io, 'je) transport_error) result" where
  "probe_remote h timeout t =
     (if ep_connect_elapsed t then ([EConnect BRemote], Err (TTimeout timeout))
      else case ep_connect t of
        Inl e \<Rightarrow> ([EConnect BRemote], Err e)
      | Inr l \<Rightarrow>
          (case probe_with_timeout (hk_dbg h) timeout l of
             (ms, l', r) \<Rightarrow> (EConnect BRemote # map (ESend BRemote) ms, and_then r (\<lambda>pr. Ok (l', pr)))))"

definition touch_effects :: "shim_input \<Rightarrow> path \<Rightarrow> effect list" where
  "touch_effects inp dir = (if wants_touch inp (subcommand inp) then [ETouch dir] else [])"

definition exec_effects :: "('io, 'je) hooks \<Rightarrow> shim_input \<Rightarrow> ran" where
  "exec_effects h inp = ([EExec (in_argv inp)], Some (hk_exec h (in_argv inp)))"

definition mismatch_of :: "shim_input \<Rightarrow> string \<Rightarrow> toolchain_fingerprint \<Rightarrow> toolchain_fingerprint \<Rightarrow> mismatch" where
  "mismatch_of inp server_host server client =
     \<lparr> mm_client_host = ci_hostname (in_identity inp), mm_client = client, mm_server_host = server_host, mm_server = server \<rparr>"

definition mismatch_error :: "mismatch \<Rightarrow> u8 list" where
  "mismatch_error m = as_bytes (''rbs: error: '' @ render m)"

definition mismatch_warning :: "mismatch \<Rightarrow> u8 list" where
  "mismatch_warning m =
     as_bytes (''rbs: warning: '' @ render m
       @ ''  note: this workspace has no rust-toolchain.toml; falling back to a local build. Pin the workspace to build remotely.''
       @ [NL])"

text \<open>What follows an outcome; \<open>next\<close> is the rest of the chain.\<close>

definition settle :: "shim_input \<Rightarrow> ('io, 'je) outcome \<Rightarrow> ran \<Rightarrow> ran" where
  "settle inp out nxt =
     (case out of
        OExited st \<Rightarrow> ((if success st then touch_effects inp (in_cwd inp) else []), Some (as_process_exit_code st))
      | OSilent \<Rightarrow> ([], None)
      | OMismatch server_host server client \<Rightarrow>
          (if hard_mismatch inp then ([EStderr (mismatch_error (mismatch_of inp server_host server client))], Some 1)
           else prepend [EStderr (mismatch_warning (mismatch_of inp server_host server client))] nxt)
      | OSaturated \<Rightarrow> nxt
      | ORejected m \<Rightarrow> nxt
      | OTransport e \<Rightarrow> nxt)"

definition links_locally :: "shim_input \<Rightarrow> ('io, 'je) outcome \<Rightarrow> bool" where
  "links_locally inp out \<longleftrightarrow>
     (case out of OExited st \<Rightarrow> success st | _ \<Rightarrow> False) \<and> in_cargo_policy inp
     \<and> subcommand inp = Some ''build'' \<and> po_post_build (cfg_policy (in_cfg inp)) = PullAndLink"

fun try_backends ::
  "('io, 'je) hooks \<Rightarrow> shim_input \<Rightarrow> job_request \<Rightarrow> (('io, 'je) link \<times> string) option \<Rightarrow> backend list \<Rightarrow> ran" where
  "try_backends h inp request remote_conn [] = ([], Some 1)"
| "try_backends h inp request remote_conn (BPlain # rest) =
     prepend (touch_effects inp (in_cwd inp)) (exec_effects h inp)"
| "try_backends h inp request remote_conn (BRemote # rest) =
     (case remote_conn of
        None \<Rightarrow> try_backends h inp request None rest
      | Some (l, server_host) \<Rightarrow>
          prepend [EWorkspaceRoot (in_cwd inp)]
          (case hk_workspace_root h (in_cwd inp) of
             Inl e \<Rightarrow> try_backends h inp request None rest
           | Inr root \<Rightarrow>
               (let host = rm_host (cfg_remote (in_cfg inp)) in
                case hk_push h root host of
                  Inl e \<Rightarrow> prepend [EPush root host] (try_backends h inp request None rest)
                | Inr _ \<Rightarrow>
                    (case submit h BRemote request server_host l of
                       (effs, out) \<Rightarrow>
                         (if links_locally inp out
                          then prepend (EPush root host # effs @ touch_effects inp root @ [EPull root]) (exec_effects h inp)
                          else prepend (EPush root host # effs) (settle inp out (try_backends h inp request None rest)))))))"
| "try_backends h inp request remote_conn (BLocal # rest) =
     (case hk_local h of
        None \<Rightarrow> try_backends h inp request remote_conn rest
      | Some t \<Rightarrow>
          (case ep_connect t of
             Inl e \<Rightarrow> prepend [EConnect BLocal] (try_backends h inp request remote_conn rest)
           | Inr l \<Rightarrow>
               (case hello (hk_dbg h) l of
                  (ms, l1, None) \<Rightarrow> (EConnect BLocal # map (ESend BLocal) ms, None)
                | (ms, l1, Some (Inl e)) \<Rightarrow>
                    prepend (EConnect BLocal # map (ESend BLocal) ms) (try_backends h inp request remote_conn rest)
                | (ms, l1, Some (Inr ident)) \<Rightarrow>
                    (case submit h BLocal request (si_hostname ident) l1 of
                       (effs, out) \<Rightarrow>
                         prepend (EConnect BLocal # map (ESend BLocal) ms @ effs)
                           (settle inp out (try_backends h inp request remote_conn rest))))))"

definition probe_step ::
  "('io, 'je) hooks \<Rightarrow> shim_input \<Rightarrow> effect list \<times> (('io, 'je) link \<times> string) option \<times> remote_probe option" where
  "probe_step h inp =
     (if po_mode (cfg_policy (in_cfg inp)) \<in> {Auto, Remote} \<and> rm_enabled (cfg_remote (in_cfg inp)) then
        (case hk_remote h of
           Some t \<Rightarrow>
             (case probe_remote h (from_millis (rm_connect_timeout_ms (cfg_remote (in_cfg inp)))) t of
                (effs, Inr (l, pr)) \<Rightarrow> (effs, Some (l, si_hostname (st_identity (pr_status pr))), Some (ProbeOk pr))
              | (effs, Inl e) \<Rightarrow> (effs, None, Some (ProbeErr (hk_show_error h e))))
         | None \<Rightarrow> ([], None, Some (ProbeErr ''no remote transport'')))
      else ([], None, None))"

definition request_of :: "shim_input \<Rightarrow> toolchain_fingerprint \<Rightarrow> job_request" where
  "request_of inp toolchain =
     \<lparr> jr_cwd = in_cwd inp, jr_argv = in_argv inp, jr_env = job_env_of (in_env inp), jr_toolchain = toolchain,
       jr_toolchain_override = in_override inp, jr_priority = po_priority (cfg_policy (in_cfg inp)),
       jr_client = in_identity inp, jr_tty = in_tty inp \<rparr>"

definition is_local_subcommand :: "shim_input \<Rightarrow> bool" where
  "is_local_subcommand inp \<longleftrightarrow>
     (case subcommand inp of Some s \<Rightarrow> s \<in> set (po_local_subcommands (cfg_policy (in_cfg inp))) | None \<Rightarrow> False)"

definition shim_run :: "('io, 'je) hooks \<Rightarrow> shim_input \<Rightarrow> ran" where
  "shim_run h inp =
     (let m = po_mode (cfg_policy (in_cfg inp)); sub = subcommand inp in
      if m = Plain then prepend (touch_effects inp (in_cwd inp)) (exec_effects h inp)
      else if in_cargo_policy inp \<and> is_passthrough sub then exec_effects h inp
      else if in_cargo_policy inp \<and> is_local_subcommand inp
      then prepend (touch_effects inp (in_cwd inp)) (exec_effects h inp)
      else prepend [EFingerprint (in_cwd inp) (in_override inp)]
       (case hk_fingerprint h (in_cwd inp) (in_override inp) of
        Inl e \<Rightarrow> (if m = Auto then prepend (touch_effects inp (in_cwd inp)) (exec_effects h inp) else ([], Some 1))
      | Inr toolchain \<Rightarrow>
          (case probe_step h inp of
             (effs, remote_conn, remote_probe) \<Rightarrow>
               (let d = select m remote_probe (hk_local h \<noteq> None) (in_cfg inp) in
                if dc_chain d = [] then (effs, Some 1)
                else prepend effs (try_backends h inp (request_of inp toolchain) remote_conn (dc_chain d))))))"

section \<open>Facts about submissions\<close>

lemma prepend_simps [simp]: "fst (prepend es r) = es @ fst r" "snd (prepend es r) = snd r"
  "prepend es (prepend es' r) = prepend (es @ es') r"
  by (simp_all add: prepend_def)

fun job_effect :: "backend \<Rightarrow> effect \<Rightarrow> bool" where
  "job_effect be (ESend b (CCancel i)) = (b = be)"
| "job_effect be (EStdout bs) = True"
| "job_effect be (EStderr bs) = True"
| "job_effect be e = False"

lemma submit_event_effects: "submit_event sh ev = (effs, o') \<Longrightarrow> list_all (job_effect be) effs"
  by (cases ev) (auto simp: submit_event_def)

text \<open>The cases of one turn of the loop.\<close>

lemma submit_loop_rule [case_names unassigned cancel_fails cancelled silent broken ended event]:
  fixes cerr :: "('io, 'je) transport_error option"
  assumes "\<And>ins. P (Some 0) None ins ([], OExited (Signal 2))"
    and "\<And>i e ins. cerr = Some e \<Longrightarrow> P (Some 0) (Some i) ins ([ESend be (CCancel i)], OTransport e)"
    and "\<And>i ins. P None (Some i) ins (submit_loop dbg sh be cerr None (Some i) ins)
           \<Longrightarrow> P (Some 0) (Some i) ins (prepend [ESend be (CCancel i)] (submit_loop dbg sh be cerr None (Some i) ins))"
    and "\<And>k jid. P k jid [] ([], OSilent)"
    and "\<And>k jid ins e. P k jid ins ([], OTransport e)"
    and "\<And>k jid ev ins effs out. submit_event sh ev = (effs, Some out) \<Longrightarrow> P k jid (Inr (Some (SEvent ev)) # ins) (effs, out)"
    and "\<And>k jid ev ins effs jid' k' r. k \<noteq> Some 0 \<Longrightarrow> submit_event sh ev = (effs, None :: ('io, 'je) outcome option) \<Longrightarrow> k' = map_option (\<lambda>k. k - 1) k
           \<Longrightarrow> P k' jid' ins r \<Longrightarrow> P k jid (Inr (Some (SEvent ev)) # ins) (prepend effs r)"
  shows "P k jid ins (submit_loop dbg sh be cerr k jid ins)"
proof -
  have "P k jid ins (submit_loop dbg' sh' be' cerr' k jid ins)"
    if "dbg' = dbg" and "sh' = sh" and "be' = be" and "cerr' = cerr" for dbg' sh' be' cerr'
    using that
  proof (induction dbg' sh' be' cerr' k jid ins rule: submit_loop.induct)
    case (1 dbg' sh' be' cerr' k jid ins)
    note [simp] = 1(3-6)
    show ?case
    proof (cases "k = Some 0")
      case True
      with assms(1-3) 1(1) show ?thesis
        by (subst submit_loop.simps) (auto split: option.splits)
    next
      case k: False
      show ?thesis
      proof (cases "\<exists>ev rest. ins = Inr (Some (SEvent ev)) # rest")
        case True
        then obtain ev rest where ins: "ins = Inr (Some (SEvent ev)) # rest" by blast
        obtain effs and o' :: "('io, 'je) outcome option" where ev: "submit_event sh ev = (effs, o')"
          by (rule prod.exhaust)
        show ?thesis
        proof (cases o')
          case (Some out)
          with k ins ev assms(6) show ?thesis by (subst submit_loop.simps) simp
        next
          case None
          with 1(2) k ins ev
          have "P (map_option (\<lambda>k. k - 1) k) (case jid of None \<Rightarrow> Some (event_id ev) | Some i \<Rightarrow> Some i) rest
              (submit_loop dbg sh be cerr (map_option (\<lambda>k. k - 1) k) (case jid of None \<Rightarrow> Some (event_id ev) | Some i \<Rightarrow> Some i) rest)"
            by simp
          from assms(7) [OF k _ refl this] None k ins ev show ?thesis
            by (subst submit_loop.simps) simp
        qed
      next
        case False
        with k assms(4,5) show ?thesis
          by (subst submit_loop.simps) (auto split: list.split sum.split option.split server_message.split)
      qed
    qed
  qed
  then show ?thesis by simp
qed

lemma submit_loop_effects: "list_all (job_effect be) (fst (submit_loop dbg sh be cerr k jid ins))"
proof (induction rule: submit_loop_rule [where P = "\<lambda>k jid ins r. list_all (job_effect be) (fst r)"])
  case (ended k jid ev ins effs out)
  then show ?case by (simp add: submit_event_effects)
next
  case (event k jid ev ins effs jid' k' r)
  then show ?case by (simp add: submit_event_effects)
qed simp_all

lemma submit_effects:
  "\<exists>es. fst (submit h be rq sh l) = ESend be (CSubmit rq) # es \<and> list_all (job_effect be) es"
  using submit_loop_effects by (auto simp: submit_def send_def split: option.splits)

definition exit_reported :: "('io, 'je) link \<Rightarrow> exit_status \<Rightarrow> bool" where
  "exit_reported l st \<longleftrightarrow>
     (\<exists>i. Inr (Some (SEvent (Exited i st))) \<in> set (lk_recv l)) \<or> st = Signal 2 \<and> lk_interrupt l \<noteq> None"

lemma submit_event_exit: "submit_event sh ev = (effs, Some (OExited st)) \<Longrightarrow> \<exists>i. ev = Exited i st"
  by (auto simp: submit_event_def reject_outcome_def split: job_event.splits reject_reason.splits)

lemma submit_loop_exit:
  "snd (submit_loop dbg sh be cerr k jid ins) = OExited st \<longrightarrow>
     (\<exists>i. Inr (Some (SEvent (Exited i st))) \<in> set ins) \<or> st = Signal 2 \<and> k \<noteq> None"
proof (induction rule: submit_loop_rule [where P = "\<lambda>k jid ins r. snd r = OExited st \<longrightarrow>
     (\<exists>i. Inr (Some (SEvent (Exited i st))) \<in> set ins) \<or> st = Signal 2 \<and> k \<noteq> None"])
  case (ended k jid ev ins effs out)
  then show ?case by (auto dest: submit_event_exit)
qed auto

lemma submit_exit: "snd (submit h be rq sh l) = OExited st \<Longrightarrow> exit_reported l st"
  by (auto simp: submit_def send_def exit_reported_def split: option.splits dest!: submit_loop_exit [THEN mp])

text \<open>
  A peer that leaves a connection open: of all it will ever send, nothing ends a submission,
  neither the end of the stream or an error of it nor an error message nor a job's last event.
\<close>

fun undecided :: "(server_message option, 'e) result \<Rightarrow> bool" where
  "undecided (Inr (Some (SEvent e))) = (\<not> is_terminal e)"
| "undecided (Inr (Some (SError e))) = False"
| "undecided (Inr (Some m)) = True"
| "undecided _ = False"

definition leaves_open :: "('io, 'je) link \<Rightarrow> bool" where
  "leaves_open l \<longleftrightarrow> list_all undecided (lk_recv l)"

lemma submit_event_silent:
  "submit_event sh ev = (effs, None) \<Longrightarrow> \<not> is_terminal ev" "submit_event sh ev \<noteq> (effs, Some OSilent)"
  by (cases ev; auto simp: submit_event_def reject_outcome_def split: reject_reason.splits)+

lemma submit_loop_silent:
  "snd (submit_loop dbg sh be cerr k jid ins) = OSilent \<longrightarrow> list_all undecided ins"
proof (induction rule: submit_loop_rule [where P = "\<lambda>k jid ins r. snd r = OSilent \<longrightarrow> list_all undecided ins"])
  case (ended k jid ev ins effs out)
  then show ?case using submit_event_silent(2) [of sh ev effs] by auto
next
  case (event k jid ev ins effs jid' k' r)
  then show ?case by (auto dest: submit_event_silent(1))
qed auto

lemma submit_silent: "snd (submit h be rq sh l) = OSilent \<Longrightarrow> leaves_open l"
  by (auto simp: submit_def send_def leaves_open_def split: option.splits dest!: submit_loop_silent [THEN mp])

text \<open>A connection after its handshake still has only what its peer sends.\<close>

definition link_later :: "('io, 'je) link \<Rightarrow> ('io, 'je) link \<Rightarrow> bool" where
  "link_later l l' \<longleftrightarrow> set (lk_recv l') \<subseteq> set (lk_recv l) \<and> lk_interrupt l' = lk_interrupt l"

lemma exit_reported_later: "link_later l l' \<Longrightarrow> exit_reported l' st \<Longrightarrow> exit_reported l st"
  by (auto simp: link_later_def exit_reported_def)

lemma link_later_refl [simp]: "link_later l l"
  by (simp add: link_later_def)

lemma link_later_trans: "link_later a b \<Longrightarrow> link_later b c \<Longrightarrow> link_later a c"
  by (auto simp: link_later_def)

lemma send_later: "link_later l (fst (snd (send m l)))"
  by (simp add: link_later_def)

lemma hello_silent: "hello dbg l = (ms, l', None) \<Longrightarrow> leaves_open l"
  by (auto simp: hello_def send_def recv_def leaves_open_def split: option.splits list.splits)

lemma hello_leaves_open:
  assumes "hello dbg l = (ms, l', Some (Inr ident))" and "leaves_open l'"
  shows "leaves_open l"
proof (cases "lk_recv l")
  case (Cons r rs)
  have "undecided r \<and> lk_recv l' = rs"
  proof (cases r)
    case (Inr m)
    with assms(1) Cons show ?thesis
      by (cases m) (auto simp: hello_def send_def recv_def split: option.splits server_message.splits if_splits)
  qed (use assms(1) Cons in \<open>auto simp: hello_def send_def recv_def split: option.splits\<close>)
  with Cons assms(2) show ?thesis by (simp add: leaves_open_def)
qed (simp add: leaves_open_def)

lemma probe_leaves_open:
  assumes "probe dbg l = (ms, l', Some (Inr pr))" and "leaves_open l'"
  shows "leaves_open l"
proof -
  obtain ms1 l1 ident where h: "hello dbg l = (ms1, l1, Some (Inr ident))"
    using assms(1) by (auto simp: probe_def split: prod.splits option.splits sum.splits)
  have "leaves_open l1"
  proof (cases "lk_recv l1")
    case (Cons r rs)
    have "undecided r \<and> lk_recv l' = rs"
    proof (cases r)
      case (Inr m)
      with assms(1) h Cons show ?thesis
        by (cases m) (auto simp: probe_def send_def recv_def split: option.splits server_message.splits)
    qed (use assms(1) h Cons in \<open>auto simp: probe_def send_def recv_def split: option.splits\<close>)
    with Cons assms(2) show ?thesis by (simp add: leaves_open_def)
  qed (simp add: leaves_open_def)
  then show ?thesis by (rule hello_leaves_open [OF h])
qed

lemma recv_later: "link_later l (fst (recv l))"
  by (auto simp: link_later_def recv_def split: list.splits)

lemma hello_later:
  assumes "hello dbg l = (ms, l', r)"
  shows "link_later l l'"
proof -
  let ?l1 = "fst (snd (send (CHello PROTOCOL_VERSION) l))"
  have "l' = ?l1 \<or> l' = fst (recv ?l1)"
    using assms by (auto simp: hello_def split: prod.splits sum.splits)
  then show ?thesis
    using send_later [of l "CHello PROTOCOL_VERSION"]
      link_later_trans [OF send_later [of l "CHello PROTOCOL_VERSION"] recv_later [of ?l1]]
    by (elim disjE) simp_all
qed

lemma probe_later:
  assumes "probe dbg l = (ms, l', r)"
  shows "link_later l l'"
proof -
  obtain ms1 l1 r1 where h: "hello dbg l = (ms1, l1, r1)" by (cases "hello dbg l") auto
  let ?l2 = "fst (snd (send CStatus l1))"
  have "l' = l1 \<or> l' = ?l2 \<or> l' = fst (recv ?l2)"
    using assms h by (auto simp: probe_def split: prod.splits sum.splits option.splits)
  then show ?thesis
    using hello_later [OF h]
      link_later_trans [OF hello_later [OF h] send_later [of l1 CStatus]]
      link_later_trans [OF link_later_trans [OF hello_later [OF h] send_later [of l1 CStatus]] recv_later [of ?l2]]
    by (elim disjE) simp_all
qed

lemma probe_with_timeout_later:
  "probe_with_timeout dbg t l = (ms, l', r) \<Longrightarrow> link_later l l'"
  by (auto simp: probe_with_timeout_def split: option.splits prod.splits dest: probe_later)

lemma probe_with_timeout_leaves_open:
  "probe_with_timeout dbg t l = (ms, l', Inr pr) \<Longrightarrow> leaves_open l' \<Longrightarrow> leaves_open l"
  by (cases "snd (snd (probe dbg l))")
    (auto simp: probe_with_timeout_def split: option.splits prod.splits dest: probe_leaves_open)

section \<open>The remote connection\<close>

text \<open>What the connection kept from the probe can still deliver.\<close>

definition conn_ok :: "('io, 'je) hooks \<Rightarrow> (('io, 'je) link \<times> string) option \<Rightarrow> bool" where
  "conn_ok h conn \<longleftrightarrow>
     (case conn of None \<Rightarrow> True
      | Some (l, sh) \<Rightarrow> \<exists>t l0. hk_remote h = Some t \<and> ep_connect t = Inr l0 \<and> link_later l0 l
          \<and> (leaves_open l \<longrightarrow> leaves_open l0))"

lemma probe_remote_conn:
  "probe_remote h timeout t = (effs, Inr (l, pr)) \<Longrightarrow>
     \<exists>l0. ep_connect t = Inr l0 \<and> link_later l0 l \<and> (leaves_open l \<longrightarrow> leaves_open l0)"
  by (auto simp: probe_remote_def split: if_splits sum.splits prod.splits elim!: and_then.elims
      dest: probe_with_timeout_later probe_with_timeout_leaves_open)

lemma probe_step_conn: "probe_step h inp = (effs, conn, pr) \<Longrightarrow> conn_ok h conn"
  by (auto simp: probe_step_def conn_ok_def split: if_splits option.splits sum.splits prod.splits dest: probe_remote_conn)

lemma conn_ok_None [simp]: "conn_ok h None"
  by (simp add: conn_ok_def)

definition reported :: "('io, 'je) hooks \<Rightarrow> exit_status \<Rightarrow> bool" where
  "reported h st \<longleftrightarrow>
     (\<exists>t l. (hk_remote h = Some t \<or> hk_local h = Some t) \<and> ep_connect t = Inr l \<and> exit_reported l st)"

lemma reported_remote:
  assumes "conn_ok h (Some (l, sh))" and "submit h be rq sh' l = (effs, OExited st)"
  shows "reported h st"
proof -
  have "exit_reported l st" using assms(2) by (intro submit_exit [of h be rq sh']) simp
  with assms(1) show ?thesis
    by (auto simp: conn_ok_def reported_def dest: exit_reported_later)
qed

lemma reported_local:
  assumes "hk_local h = Some t" and "ep_connect t = Inr l" and "hello dbg l = (ms, l1, r)"
    and "submit h be rq sh l1 = (effs, OExited st)"
  shows "reported h st"
proof -
  have "exit_reported l1 st" using assms(4) by (intro submit_exit [of h be rq sh]) simp
  with exit_reported_later [OF hello_later [OF assms(3)]] assms(1,2) show ?thesis
    by (auto simp: reported_def)
qed

section \<open>The chain of backends\<close>

lemma try_backends_rule [consumes 1, case_names none plain no_root push_fails link remote connect_fails silent_hello local_job]:
  fixes h :: "('io, 'je) hooks"
  assumes ok: "conn_ok h conn"
    and none: "\<And>c. BPlain \<notin> set chain \<Longrightarrow> P c ([], Some 1)"
    and plain: "\<And>c. P c (prepend (touch_effects inp (in_cwd inp)) (exec_effects h inp))"
    and no_root: "\<And>c r. P None r \<Longrightarrow> P c (prepend [EWorkspaceRoot (in_cwd inp)] r)"
    and push_fails: "\<And>c root r. P None r
          \<Longrightarrow> P c (prepend [EWorkspaceRoot (in_cwd inp), EPush root (rm_host (cfg_remote (in_cfg inp)))] r)"
    and link: "\<And>l sh root effs out. hk_workspace_root h (in_cwd inp) = Inr root
          \<Longrightarrow> hk_push h root (rm_host (cfg_remote (in_cfg inp))) = Inr ()
          \<Longrightarrow> submit h BRemote rq sh l = (effs, out) \<Longrightarrow> links_locally inp out
          \<Longrightarrow> P (Some (l, sh)) (prepend (EWorkspaceRoot (in_cwd inp) # EPush root (rm_host (cfg_remote (in_cfg inp)))
                 # effs @ touch_effects inp root @ [EPull root]) (exec_effects h inp))"
    and remote: "\<And>l sh root effs out r. conn_ok h (Some (l, sh)) \<Longrightarrow> hk_workspace_root h (in_cwd inp) = Inr root
          \<Longrightarrow> hk_push h root (rm_host (cfg_remote (in_cfg inp))) = Inr ()
          \<Longrightarrow> submit h BRemote rq sh l = (effs, out) \<Longrightarrow> P None r
          \<Longrightarrow> P (Some (l, sh)) (prepend (EWorkspaceRoot (in_cwd inp) # EPush root (rm_host (cfg_remote (in_cfg inp))) # effs)
                (settle inp out r))"
    and connect_fails: "\<And>c ms r. set ms \<subseteq> {CHello PROTOCOL_VERSION} \<Longrightarrow> P c r
          \<Longrightarrow> P c (prepend (EConnect BLocal # map (ESend BLocal) ms) r)"
    and silent_hello: "\<And>c t l l1. hk_local h = Some t \<Longrightarrow> ep_connect t = Inr l
          \<Longrightarrow> hello (hk_dbg h) l = ([CHello PROTOCOL_VERSION], l1, None)
          \<Longrightarrow> P c ([EConnect BLocal, ESend BLocal (CHello PROTOCOL_VERSION)], None)"
    and local_job: "\<And>c t l l1 ident sh effs out r. hk_local h = Some t \<Longrightarrow> ep_connect t = Inr l
          \<Longrightarrow> hello (hk_dbg h) l = ([CHello PROTOCOL_VERSION], l1, Some (Inr ident))
          \<Longrightarrow> submit h BLocal rq sh l1 = (effs, out) \<Longrightarrow> P c r
          \<Longrightarrow> P c (prepend (EConnect BLocal # ESend BLocal (CHello PROTOCOL_VERSION) # effs) (settle inp out r))"
  shows "P conn (try_backends h inp rq conn chain)"
proof -
  have "P c (try_backends h inp rq c bs)" if "conn_ok h c" and "BPlain \<in> set bs \<or> BPlain \<notin> set chain" for c bs
    using that
  proof (induction bs arbitrary: c)
    case Nil
    then show ?case using none by simp
  next
    case (Cons b bs)
    show ?case
    proof (cases b)
      case BPlain
      then show ?thesis using plain by simp
    next
      case BRemote
      with Cons.prems have IH: "P None (try_backends h inp rq None bs)" by (intro Cons.IH) auto
      show ?thesis
      proof (cases c)
        case None
        then show ?thesis using BRemote IH by simp
      next
        case (Some ls)
        obtain l sh where ls: "ls = (l, sh)" by force
        obtain effs out where sub: "submit h BRemote rq sh l = (effs, out)" by force
        show ?thesis
          using BRemote Some ls sub IH Cons.prems(1) link [OF _ _ sub] remote [OF _ _ _ sub IH] push_fails [OF IH] no_root [OF IH]
          by (auto simp: Let_def split: sum.split)
      qed
    next
      case BLocal
      with Cons.prems have IH: "P c (try_backends h inp rq c bs)" by (intro Cons.IH) auto
      show ?thesis
      proof (cases "hk_local h")
        case None
        then show ?thesis using BLocal IH by simp
      next
        case (Some t)
        show ?thesis
        proof (cases "ep_connect t")
          case (Inl e)
          then show ?thesis using BLocal Some connect_fails [OF _ IH, of "[]"] by simp
        next
          case (Inr l)
          obtain l1 r where hl: "hello (hk_dbg h) l = ([CHello PROTOCOL_VERSION], l1, r)"
            using hello_sends [of "hk_dbg h" l] by (cases "hello (hk_dbg h) l") auto
          show ?thesis
          proof (cases r)
            case None
            then show ?thesis using BLocal Some Inr hl silent_hello [OF Some Inr, of l1 c] by simp
          next
            case answer: (Some a)
            show ?thesis
            proof (cases a)
            case err: (Inl e)
            then show ?thesis using answer BLocal Some Inr hl connect_fails [OF _ IH, of "[CHello PROTOCOL_VERSION]"] by simp
          next
            case id: (Inr ident)
            obtain effs out where sub: "submit h BLocal rq (si_hostname ident) l1 = (effs, out)" by force
            then show ?thesis
              using answer BLocal Some Inr hl id local_job [OF Some Inr _ sub IH, of ident] by simp
            qed
          qed
        qed
      qed
    qed
  qed
  then show ?thesis using ok by blast
qed

section \<open>How a run ends\<close>

fun is_exec :: "effect \<Rightarrow> bool" where
  "is_exec (EExec a) = True"
| "is_exec _ = False"

fun is_touch :: "effect \<Rightarrow> bool" where
  "is_touch (ETouch d) = True"
| "is_touch _ = False"

definition ran_exec :: "('io, 'je) hooks \<Rightarrow> shim_input \<Rightarrow> ran \<Rightarrow> bool" where
  "ran_exec h inp r \<longleftrightarrow> (\<exists>es. fst r = es @ [EExec (in_argv inp)]) \<and> snd r = Some (hk_exec h (in_argv inp))"

definition ran_job :: "('io, 'je) hooks \<Rightarrow> ran \<Rightarrow> bool" where
  "ran_job h r \<longleftrightarrow> (\<exists>st. reported h st \<and> snd r = Some (as_process_exit_code st))"

definition refused :: "shim_input \<Rightarrow> ran \<Rightarrow> bool" where
  "refused inp r \<longleftrightarrow> hard_mismatch inp \<and> snd r = Some 1 \<and> (\<exists>es m. fst r = es @ [EStderr (mismatch_error m)])"

text \<open>A run that never returns waits for a server it has reached, which leaves the connection open.\<close>

definition kept_waiting :: "('io, 'je) hooks \<Rightarrow> bool" where
  "kept_waiting h \<longleftrightarrow>
     (\<exists>t l. (hk_remote h = Some t \<or> hk_local h = Some t) \<and> ep_connect t = Inr l \<and> leaves_open l)"

definition ended :: "('io, 'je) hooks \<Rightarrow> shim_input \<Rightarrow> ran \<Rightarrow> bool" where
  "ended h inp r \<longleftrightarrow> ran_exec h inp r \<or> ran_job h r \<or> refused inp r \<or> snd r = None \<and> kept_waiting h"

lemma ended_prepend [intro, simp]: "ended h inp r \<Longrightarrow> ended h inp (prepend es r)"
  unfolding ended_def ran_exec_def ran_job_def refused_def by (auto; metis append_assoc)

lemma ended_exec [simp]: "ended h inp (exec_effects h inp)"
  by (simp add: ended_def ran_exec_def exec_effects_def)

lemma waiting_remote:
  assumes "conn_ok h (Some (l, sh))" and "submit h be rq sh' l = (effs, OSilent)"
  shows "kept_waiting h"
  using assms submit_silent [of h be rq sh' l] by (auto simp: conn_ok_def kept_waiting_def)

lemma waiting_local:
  assumes "hk_local h = Some t" and "ep_connect t = Inr l" and "hello dbg l = (ms, l1, Some (Inr ident))"
    and "submit h be rq sh l1 = (effs, OSilent)"
  shows "kept_waiting h"
  using assms submit_silent [of h be rq sh l1] hello_leaves_open [OF assms(3)] by (auto simp: kept_waiting_def)

lemma ended_settle:
  assumes "\<And>st. out = OExited st \<Longrightarrow> reported h st" and "out = OSilent \<Longrightarrow> kept_waiting h" and "ended h inp r"
  shows "ended h inp (settle inp out r)"
proof (cases out)
  case (OExited st)
  with assms(1) have "ran_job h (settle inp out r)" by (auto simp: settle_def ran_job_def)
  then show ?thesis by (simp add: ended_def)
next
  case (OMismatch sh sv cl)
  then show ?thesis
  proof (cases "hard_mismatch inp")
    case True
    with OMismatch have "refused inp (settle inp out r)" by (auto simp: settle_def refused_def)
    then show ?thesis by (simp add: ended_def)
  qed (use assms(3) in \<open>simp add: settle_def\<close>)
next
  case OSilent
  with assms(2) show ?thesis by (simp add: settle_def ended_def)
qed (use assms(3) in \<open>simp_all add: settle_def\<close>)

lemma try_backends_ended:
  "conn_ok h conn \<Longrightarrow> BPlain \<in> set chain \<Longrightarrow> ended h inp (try_backends h inp rq conn chain)"
proof (induction rule: try_backends_rule)
  case (remote l sh root effs out r)
  then show ?case by (intro ended_prepend ended_settle) (auto intro: reported_remote waiting_remote)
next
  case (silent_hello c t l l1)
  then show ?case using hello_silent [OF silent_hello(3)] by (auto simp: ended_def kept_waiting_def)
next
  case (local_job c t l l1 ident sh effs out r)
  then show ?case by (intro ended_prepend ended_settle) (auto intro: reported_local waiting_local)
qed auto

lemma plain_in_auto_chain: "BPlain \<in> set (dc_chain (select Auto pr la cfg))"
  by (simp add: select_def consider_backend_def Let_def split: option.splits)

section \<open>What a run does\<close>

lemma job_effect_quiet:
  "list_all (job_effect be) es \<Longrightarrow> filter is_touch es = [] \<and> filter is_exec es = []"
  by (induction es) (auto elim: job_effect.elims)

lemma submit_quiet:
  assumes "submit h be rq sh l = (effs, out)"
  shows "filter is_touch effs = []" and "filter is_exec effs = []"
  using submit_effects [of h be rq sh l] assms by (auto dest: job_effect_quiet)

lemma probe_step_effects:
  "probe_step h inp = (effs, conn, pr) \<Longrightarrow> list_all (\<lambda>e. e \<in> {EConnect BRemote, ESend BRemote (CHello PROTOCOL_VERSION), ESend BRemote CStatus}) effs"
proof -
  have "set (fst (probe_remote h t ep)) \<subseteq> {EConnect BRemote, ESend BRemote (CHello PROTOCOL_VERSION), ESend BRemote CStatus}" for t ep
  proof (cases "ep_connect ep")
    case (Inr l)
    then show ?thesis
      using probe_with_timeout_sends [of "hk_dbg h" t l]
      by (auto simp: probe_remote_def split: prod.splits)
  qed (simp add: probe_remote_def)
  then have "set effs \<subseteq> {EConnect BRemote, ESend BRemote (CHello PROTOCOL_VERSION), ESend BRemote CStatus}"
    if "probe_remote h t ep = (effs, r)" for t ep r using that by (metis fst_conv)
  then show "probe_step h inp = (effs, conn, pr) \<Longrightarrow> ?thesis"
    by (fastforce simp: probe_step_def list_all_iff split: if_splits option.splits sum.splits prod.splits)
qed

lemma probe_step_quiet:
  assumes "probe_step h inp = (effs, conn, pr)"
  shows "filter is_touch effs = []" and "filter is_exec effs = []"
  using probe_step_effects [OF assms] by (auto simp: list_all_iff filter_empty_conv)

text \<open>At most one touch, only when it is wanted, and nothing after an exec.\<close>

definition disciplined :: "shim_input \<Rightarrow> effect list \<Rightarrow> bool" where
  "disciplined inp es \<longleftrightarrow>
     length (filter is_touch es) \<le> (if wants_touch inp (subcommand inp) then 1 else 0)
     \<and> filter is_exec (butlast es) = []"

lemma disciplined_prepend:
  assumes "filter is_touch es = []" and "filter is_exec es = []" and "disciplined inp (fst r)"
  shows "disciplined inp (fst (prepend es r))"
  using assms by (cases "fst r = []") (auto simp: disciplined_def butlast_append filter_empty_conv dest: in_set_butlastD)

lemma disciplined_exec: "disciplined inp (fst (prepend (touch_effects inp d) (exec_effects h inp)))"
  by (simp add: disciplined_def touch_effects_def exec_effects_def)

lemma disciplined_settle:
  assumes "disciplined inp (fst r)"
  shows "disciplined inp (fst (settle inp out r))"
  using assms disciplined_prepend [of "[EStderr x]" inp r for x]
  by (cases out) (auto simp: settle_def touch_effects_def, auto simp: disciplined_def)

lemma disciplined_link:
  assumes "filter is_touch es = []" and "filter is_exec es = []"
  shows "disciplined inp (fst (prepend (EWorkspaceRoot w # EPush a b # es @ touch_effects inp d @ [EPull d']) (exec_effects h inp)))"
  using assms by (simp add: disciplined_def touch_effects_def exec_effects_def butlast_append)

lemma try_backends_disciplined:
  "conn_ok h conn \<Longrightarrow> disciplined inp (fst (try_backends h inp rq conn chain))"
proof (induction rule: try_backends_rule)
  case (none c)
  then show ?case by (simp add: disciplined_def)
next
  case (plain c)
  then show ?case by (rule disciplined_exec)
next
  case (no_root c r)
  then show ?case by (intro disciplined_prepend) simp_all
next
  case (push_fails c root r)
  then show ?case by (intro disciplined_prepend) simp_all
next
  case (link l sh root effs out)
  then show ?case by (intro disciplined_link) (simp_all add: submit_quiet)
next
  case (remote l sh root effs out r)
  then show ?case by (intro disciplined_prepend disciplined_settle) (simp_all add: submit_quiet)
next
  case (connect_fails c ms r)
  then show ?case by (intro disciplined_prepend) (simp_all add: filter_empty_conv)
next
  case (silent_hello c t l l1)
  then show ?case by (simp add: disciplined_def)
next
  case (local_job c t l l1 ident sh effs out r)
  then show ?case by (intro disciplined_prepend disciplined_settle) (simp_all add: submit_quiet)
qed

section \<open>Submission to the remote\<close>

fun is_remote_submit :: "effect \<Rightarrow> bool" where
  "is_remote_submit (ESend BRemote (CSubmit rq)) = True"
| "is_remote_submit _ = False"

text \<open>At most one job goes to the remote, after the worktree has been mirrored there.\<close>

definition mirrored_first :: "('io, 'je) hooks \<Rightarrow> shim_input \<Rightarrow> job_request \<Rightarrow> effect list \<Rightarrow> bool" where
  "mirrored_first h inp rq es \<longleftrightarrow>
     (case filter is_remote_submit es of
        [] \<Rightarrow> True
      | [e] \<Rightarrow> e = ESend BRemote (CSubmit rq)
          \<and> (\<exists>root. hk_workspace_root h (in_cwd inp) = Inr root
               \<and> hk_push h root (rm_host (cfg_remote (in_cfg inp))) = Inr ()
               \<and> EPush root (rm_host (cfg_remote (in_cfg inp))) \<in> set (takeWhile (\<lambda>e. \<not> is_remote_submit e) es))
      | _ \<Rightarrow> False)"

definition no_remote_submit :: "effect list \<Rightarrow> bool" where
  "no_remote_submit es \<longleftrightarrow> filter is_remote_submit es = []"

lemma no_remote_submit_simps [simp]:
  "no_remote_submit []" "no_remote_submit (e # es) \<longleftrightarrow> \<not> is_remote_submit e \<and> no_remote_submit es"
  "no_remote_submit (as @ bs) \<longleftrightarrow> no_remote_submit as \<and> no_remote_submit bs"
  by (simp_all add: no_remote_submit_def)

lemma mirrored_none: "no_remote_submit es \<Longrightarrow> mirrored_first h inp rq es"
  by (simp add: no_remote_submit_def mirrored_first_def)

lemma mirrored_append: "no_remote_submit as \<Longrightarrow> mirrored_first h inp rq bs \<Longrightarrow> mirrored_first h inp rq (as @ bs)"
  by (auto simp: no_remote_submit_def mirrored_first_def filter_empty_conv split: list.splits)

lemma job_effect_no_submit: "list_all (job_effect be) es \<Longrightarrow> no_remote_submit es"
  by (induction es) (auto elim: job_effect.elims)

lemma submit_remote_mirrored:
  assumes "submit h BRemote rq sh l = (effs, out)" and "hk_workspace_root h (in_cwd inp) = Inr root"
    and "hk_push h root (rm_host (cfg_remote (in_cfg inp))) = Inr ()" and "no_remote_submit es"
  shows "mirrored_first h inp rq (EWorkspaceRoot w # EPush root (rm_host (cfg_remote (in_cfg inp))) # effs @ es)"
proof -
  obtain es' where "effs = ESend BRemote (CSubmit rq) # es'" and "no_remote_submit es'"
    using submit_effects [of h BRemote rq sh l] assms(1) by (auto dest: job_effect_no_submit)
  then show ?thesis using assms(2-4) by (simp add: mirrored_first_def no_remote_submit_def)
qed

lemma no_remote_submit_exec: "no_remote_submit (fst (exec_effects h inp))"
  by (simp add: exec_effects_def)

lemma no_remote_submit_touch: "no_remote_submit (touch_effects inp d)"
  by (simp add: touch_effects_def)

lemma no_remote_submit_settle: "no_remote_submit (fst r) \<Longrightarrow> no_remote_submit (fst (settle inp out r))"
  by (cases out) (auto simp: settle_def no_remote_submit_touch)

lemma submit_local_no_remote: "submit h BLocal rq sh l = (effs, out) \<Longrightarrow> no_remote_submit effs"
  using submit_effects [of h BLocal rq sh l] by (auto dest: job_effect_no_submit)

lemmas no_submit = no_remote_submit_exec no_remote_submit_touch no_remote_submit_settle submit_local_no_remote

lemma try_backends_mirrored:
  "conn_ok h conn \<Longrightarrow> (if conn = None then no_remote_submit (fst (try_backends h inp rq conn chain))
     else mirrored_first h inp rq (fst (try_backends h inp rq conn chain)))"
proof (induction rule: try_backends_rule [where P = "\<lambda>c r. if c = None then no_remote_submit (fst r) else mirrored_first h inp rq (fst r)"])
  case (plain c)
  then show ?case by (simp add: no_submit mirrored_none)
next
  case (link l sh root effs out)
  then show ?case
    using submit_remote_mirrored [OF link(3,1,2), of "touch_effects inp root @ EPull root # fst (exec_effects h inp)"]
    by (simp add: no_submit)
next
  case (remote l sh root effs out r)
  then show ?case
    using submit_remote_mirrored [OF remote(4,2,3), of "fst (settle inp out r)"] by (simp add: no_submit)
next
  case (connect_fails c ms r)
  then show ?case
    using mirrored_append [of "EConnect BLocal # map (ESend BLocal) ms" h inp rq "fst r"]
    by (auto simp: no_remote_submit_def filter_empty_conv)
next
  case (local_job c t l l1 ident sh effs out r)
  have "no_remote_submit (EConnect BLocal # ESend BLocal (CHello PROTOCOL_VERSION) # effs)"
    using submit_local_no_remote [OF \<open>submit h BLocal rq sh l1 = (effs, out)\<close>] by simp
  moreover have "mirrored_first h inp rq (fst (settle inp out r))" if "mirrored_first h inp rq (fst r)"
    using that mirrored_append [of "[EStderr x]" h inp rq "fst r" for x]
    by (cases out) (auto simp: settle_def no_submit mirrored_none)
  ultimately show ?case
    using local_job mirrored_append [of "EConnect BLocal # ESend BLocal (CHello PROTOCOL_VERSION) # effs" h inp rq "fst (settle inp out r)"]
    by (auto simp: no_submit)
qed (auto simp: mirrored_none intro: mirrored_append [of "[x]" for x, simplified])

section \<open>Properties of a run\<close>

abbreviation input_mode :: "shim_input \<Rightarrow> mode" where
  "input_mode inp \<equiv> po_mode (cfg_policy (in_cfg inp))"

definition stays_local :: "shim_input \<Rightarrow> bool" where
  "stays_local inp \<longleftrightarrow>
     input_mode inp = Plain \<or> in_cargo_policy inp \<and> (is_passthrough (subcommand inp) \<or> is_local_subcommand inp)"

lemma shim_run_cases:
  obtains (local_run) d where "shim_run h inp = prepend d (exec_effects h inp)"
      "d = [] \<or> d = touch_effects inp (in_cwd inp) \<or> d = EFingerprint (in_cwd inp) (in_override inp) # touch_effects inp (in_cwd inp)"
    | (no_fingerprint) "shim_run h inp = ([EFingerprint (in_cwd inp) (in_override inp)], Some 1)" "input_mode inp \<noteq> Auto"
    | (chain) effs conn pr tc where "probe_step h inp = (effs, conn, pr)" "hk_fingerprint h (in_cwd inp) (in_override inp) = Inr tc"
      "\<not> stays_local inp"
      "shim_run h inp = prepend (EFingerprint (in_cwd inp) (in_override inp) # effs) (try_backends h inp (request_of inp tc) conn
         (dc_chain (select (input_mode inp) pr (hk_local h \<noteq> None) (in_cfg inp))))"
proof (cases "stays_local inp")
  case True
  then have "shim_run h inp \<in> {prepend [] (exec_effects h inp), prepend (touch_effects inp (in_cwd inp)) (exec_effects h inp)}"
    by (auto simp: stays_local_def shim_run_def Let_def prepend_def)
  then show thesis using local_run by blast
next
  case stay: False
  show thesis
  proof (cases "hk_fingerprint h (in_cwd inp) (in_override inp)")
    case (Inl e)
    with stay show thesis
      using local_run [of "EFingerprint (in_cwd inp) (in_override inp) # touch_effects inp (in_cwd inp)"] no_fingerprint
      by (cases "input_mode inp = Auto") (auto simp: stays_local_def shim_run_def Let_def prepend_def)
  next
    case (Inr tc)
    obtain effs conn pr where p: "probe_step h inp = (effs, conn, pr)" by (rule prod_cases3)
    show thesis
    proof (rule chain [OF p Inr stay])
      show "shim_run h inp = prepend (EFingerprint (in_cwd inp) (in_override inp) # effs) (try_backends h inp (request_of inp tc) conn
         (dc_chain (select (input_mode inp) pr (hk_local h \<noteq> None) (in_cfg inp))))"
        using stay Inr p
        by (cases "dc_chain (select (input_mode inp) pr (hk_local h \<noteq> None) (in_cfg inp)) = []")
          (auto simp: stays_local_def shim_run_def Let_def prepend_def)
    qed
  qed
qed

text \<open>
  C24. In automatic mode an invocation always has a result of its own, unless a server keeps it
  waiting. It ends by running the
  real command on this machine, with that command's exit code; or with the exit code of a job,
  which a server reported on its connection (or the interrupt code, when the user interrupted
  before the job had an identifier); or, under a hard toolchain contract only, with code 1 and
  the mismatch report as the last thing written. A refused or lost connection, a failed or slow
  probe, a failed handshake, mirror or submission cannot make it end otherwise. It does not end
  only when a server it has connected to leaves the connection open and never sends what would
  end the submission: no error, no end of the stream and no last event of a job.
\<close>
theorem auto_always_builds:
  assumes "po_mode (cfg_policy (in_cfg inp)) = Auto"
  shows "case snd (shim_run h inp) of
      Some code \<Rightarrow> ran_exec h inp (shim_run h inp) \<or> ran_job h (shim_run h inp) \<or> refused inp (shim_run h inp)
    | None \<Rightarrow> (\<exists>t l. (hk_remote h = Some t \<or> hk_local h = Some t) \<and> ep_connect t = Inr l \<and> leaves_open l)"
proof -
  have "ended h inp (shim_run h inp)"
  proof (cases h inp rule: shim_run_cases)
    case (local_run d)
    then show ?thesis by simp
  next
    case (chain effs conn pr tc)
    have "BPlain \<in> set (dc_chain (select (input_mode inp) pr (hk_local h \<noteq> None) (in_cfg inp)))"
      using assms plain_in_auto_chain by simp
    with probe_step_conn [OF chain(1)]
    have "ended h inp (try_backends h inp (request_of inp tc) conn (dc_chain (select (input_mode inp) pr (hk_local h \<noteq> None) (in_cfg inp))))"
      by (rule try_backends_ended)
    then show ?thesis unfolding chain(4) by (rule ended_prepend)
  qed (use assms in simp)
  then show ?thesis
    by (auto simp: ended_def kept_waiting_def ran_exec_def ran_job_def refused_def split: option.split)
qed

text \<open>
  C26. Side effects of one invocation, in every mode and whatever the servers do: the store is
  touched at most once, and not at all unless the invocation compiles under cargo policy with
  touching enabled; and running the local command, which replaces the process, is the last
  effect if it happens, so nothing is expected to follow it.
\<close>
theorem shim_effect_discipline:
  "length (filter is_touch (fst (shim_run h inp))) \<le> (if wants_touch inp (subcommand inp) then 1 else 0)
   \<and> filter is_exec (butlast (fst (shim_run h inp))) = []"
proof -
  have "disciplined inp (fst (shim_run h inp))"
  proof (cases h inp rule: shim_run_cases)
    case (local_run d)
    then show ?thesis
      using disciplined_exec [of inp "in_cwd inp" h] by (auto simp: disciplined_def exec_effects_def)
  next
    case no_fingerprint
    then show ?thesis by (simp add: disciplined_def)
  next
    case (chain effs conn pr tc)
    show ?thesis
      unfolding chain(4) using probe_step_quiet [OF chain(1)] try_backends_disciplined [OF probe_step_conn [OF chain(1)]]
      by (intro disciplined_prepend) simp_all
  qed
  then show ?thesis by (simp only: disciplined_def)
qed

text \<open>
  C25. The remote builds what is here. At most one job is submitted to the remote; the worktree
  root was mirrored to the configured host, successfully, before it; and the job asks for this
  directory, this command line and this toolchain, in an environment that makes a nested cargo
  bypass the shim.
\<close>
theorem remote_job_after_mirror:
  "case filter is_remote_submit (fst (shim_run h inp)) of
     [] \<Rightarrow> True
   | [e] \<Rightarrow> (\<exists>tc root. e = ESend BRemote (CSubmit (request_of inp tc))
         \<and> hk_fingerprint h (in_cwd inp) (in_override inp) = Inr tc
         \<and> hk_workspace_root h (in_cwd inp) = Inr root
         \<and> hk_push h root (rm_host (cfg_remote (in_cfg inp))) = Inr ()
         \<and> EPush root (rm_host (cfg_remote (in_cfg inp))) \<in> set (takeWhile (\<lambda>e. \<not> is_remote_submit e) (fst (shim_run h inp)))
         \<and> jr_cwd (request_of inp tc) = in_cwd inp \<and> jr_argv (request_of inp tc) = in_argv inp
         \<and> shim_active (jr_env (request_of inp tc)))
   | _ \<Rightarrow> False"
proof (cases h inp rule: shim_run_cases)
  case (local_run d)
  then have "no_remote_submit (fst (shim_run h inp))" by (auto simp: no_submit)
  then show ?thesis by (simp add: no_remote_submit_def)
next
  case no_fingerprint
  then show ?thesis by simp
next
  case (chain effs conn pr tc)
  have "no_remote_submit (EFingerprint (in_cwd inp) (in_override inp) # effs)"
    using probe_step_effects [OF chain(1)] by (auto simp: no_remote_submit_def filter_empty_conv list_all_iff)
  moreover have "mirrored_first h inp (request_of inp tc) (fst (try_backends h inp (request_of inp tc) conn
       (dc_chain (select (input_mode inp) pr (hk_local h \<noteq> None) (in_cfg inp)))))"
    using try_backends_mirrored [OF probe_step_conn [OF chain(1)]] mirrored_none by (metis (full_types))
  ultimately have "mirrored_first h inp (request_of inp tc) (fst (shim_run h inp))"
    unfolding chain(4) prepend_simps by (rule mirrored_append)
  moreover have "shim_active (jr_env (request_of inp tc))" "jr_cwd (request_of inp tc) = in_cwd inp"
    "jr_argv (request_of inp tc) = in_argv inp"
    by (simp_all add: request_of_def job_env_of_def shim_active_def)
  ultimately show ?thesis
    using chain(2) unfolding mirrored_first_def by (auto split: list.splits)
qed

text \<open>
  What stays on this machine: in plain mode, and under cargo policy for every subcommand
  that does not build or that the configuration keeps local, no connection is opened, nothing
  is mirrored or sent, and the invocation is the real command with its own exit code; a store
  touch precedes it exactly for compiling subcommands.
\<close>
lemma local_invocations:
  assumes "stays_local inp"
  shows "shim_run h inp =
           ((if input_mode inp \<noteq> Plain \<and> in_cargo_policy inp \<and> is_passthrough (subcommand inp) then []
             else touch_effects inp (in_cwd inp)) @ [EExec (in_argv inp)],
            Some (hk_exec h (in_argv inp)))"
  using assms by (auto simp: stays_local_def shim_run_def Let_def prepend_def exec_effects_def)

section \<open>Examples\<close>

definition example_input :: "mode \<Rightarrow> string list \<Rightarrow> shim_input" where
  "example_input m args =
     \<lparr> in_cwd = ''/w'', in_argv = ''cargo'' # args,
       in_cfg = config_default\<lparr>cfg_policy := policy_default\<lparr>po_mode := m\<rparr>\<rparr>,
       in_tty = False, in_identity = \<lparr> ci_hostname = ''laptop'', ci_pid = 7, ci_label = None \<rparr>,
       in_env = Map.empty, in_cargo_policy = True, in_pinned = False, in_override = None \<rparr>"

definition example_fp :: toolchain_fingerprint where
  "example_fp = \<lparr> rustc_commit = ''abc'', rustc_version = ''1.90.0'', fp_host = ''x86_64'', cargo_version = [], toolchain_name = [] \<rparr>"

definition example_hooks :: "(unit, unit) hooks" where
  "example_hooks =
     \<lparr> hk_remote = Some \<lparr> ep_describe = ''node0'', ep_connect = Err (TIo ()), ep_connect_elapsed = False \<rparr>,
       hk_local = None, hk_fingerprint = (\<lambda>_ _. Ok example_fp), hk_workspace_root = Ok, hk_push = (\<lambda>_ _. Ok ()),
       hk_pull = (\<lambda>_. Ok ()), hk_exec = (\<lambda>_. 0), hk_dbg = (\<lambda>_. []), hk_show_error = (\<lambda>_. ''down'') \<rparr>"

theorem auto_always_builds_witness:
  "ran_exec example_hooks (example_input Auto [''build'']) (shim_run example_hooks (example_input Auto [''build'']))"
proof -
  let ?i = "example_input Auto [''build'']"
  have a: "po_mode (cfg_policy (in_cfg ?i)) = Auto" by (simp add: example_input_def)
  have "\<not> ran_job example_hooks r" for r
    by (simp add: ran_job_def reported_def example_hooks_def)
  moreover have "\<not> refused ?i r" for r
    by (simp add: refused_def hard_mismatch_def example_input_def)
  moreover have "\<not> (\<exists>t l. (hk_remote example_hooks = Some t \<or> hk_local example_hooks = Some t) \<and> ep_connect t = Inr l \<and> leaves_open l)"
    by (auto simp: example_hooks_def)
  ultimately show ?thesis
    using auto_always_builds [OF a, of example_hooks] by (cases "snd (shim_run example_hooks ?i)") (simp_all only: option.case simp_thms)
qed

end
