(* ===== verification/System.thy ===== *)
theory System
  imports Server_Steps Shim
begin

text \<open>
  The server and the client together: what a connection of the server writes is what the link
  of the client delivers. A job's output and exit code travel from the supervisor through the
  connection loop to the shim, and a toolchain refusal travels from the server's check to the
  report the user reads.
\<close>

section \<open>Forwarding\<close>

text \<open>
  The connection loop fed with the events of the running job. The loop takes an event only
  while the job is the connection's active one; with the job's last event it drops the
  receiving end of the channel, and a pump that still sends then sends to nobody.
\<close>

fun feed ::
  "('child, 'io) server_ctx \<Rightarrow> snapshot \<Rightarrow> u64 \<Rightarrow> job_event list \<Rightarrow> conn \<Rightarrow> 'a shared_scheme \<Rightarrow> conn \<times> 'a shared_scheme" where
  "feed cx snap uptime [] c s = (c, s)"
| "feed cx snap uptime (ev # evs) c s =
     (if input_enabled (InEvent ev) c s then
        (case run_turn cx snap snap uptime (InEvent ev) c s of
           (Inr True, c', s') \<Rightarrow> feed cx snap uptime evs c' s'
         | (_, c', s') \<Rightarrow> (c', s'))
      else feed cx snap uptime evs c s)"

lemma feed_writes:
  assumes "cn_wr c = (\<lambda>_. True)" and "cn_active c = ARunning i k" and "list_all (\<lambda>e. \<not> is_terminal e) evs"
  shows "feed cx snap uptime (evs @ rest) c s = feed cx snap uptime rest (c\<lparr>cn_out := cn_out c @ map SEvent evs\<rparr>) s"
  using assms
proof (induction evs arbitrary: c)
  case Nil
  then show ?case by simp
next
  case (Cons ev evs)
  then show ?case
    using Cons.IH [of "c\<lparr>cn_out := cn_out c @ [SEvent ev]\<rparr>"]
    by (simp add: run_turn_def send_event_def write_msg_def)
qed

lemma feed_nobody: "cn_active c = ANone \<Longrightarrow> feed cx snap uptime evs c s = (c, s)"
  by (induction evs) simp_all

lemma feed_terminal:
  assumes "cn_wr c = (\<lambda>_. True)" and "cn_active c = ARunning i k" and "is_terminal ev"
  shows "feed cx snap uptime (ev # late) c s = (c\<lparr>cn_out := cn_out c @ [SEvent ev], cn_active := ANone\<rparr>, s)"
  using assms by (simp add: run_turn_def send_event_def write_msg_def feed_nobody)

section \<open>Receiving\<close>

definition delivers :: "server_message list \<Rightarrow> ('io, 'je) link \<Rightarrow> bool" where
  "delivers ms l \<longleftrightarrow> lk_recv l = map (\<lambda>m. Inr (Some m)) ms \<and> lk_send_err l = (\<lambda>_. None) \<and> lk_interrupt l = None"

fun written_out :: "effect \<Rightarrow> u8 list" where
  "written_out (EStdout b) = b"
| "written_out _ = []"

fun written_err :: "effect \<Rightarrow> u8 list" where
  "written_err (EStderr b) = b"
| "written_err _ = []"

lemma submit_loop_output:
  fixes cerr :: "('io, 'je) transport_error option"
  assumes "submit_event sh e = (effs, None :: ('io, 'je) outcome option)"
  shows "submit_loop dbg sh be cerr None jid (Inr (Some (SEvent e)) # ins)
           = prepend effs (submit_loop dbg sh be cerr None (case jid of None \<Rightarrow> Some (event_id e) | Some j \<Rightarrow> Some j) ins)"
  using assms by (subst submit_loop.simps) simp

lemma submit_loop_outputs:
  fixes cerr :: "('io, 'je) transport_error option"
  assumes "list_all (\<lambda>e. \<exists>b. e = Stdout i b \<or> e = Stderr i b) outs"
  shows "\<exists>effs. submit_loop dbg sh be cerr None jid (map (\<lambda>e. Inr (Some (SEvent e))) outs @ rest)
             = prepend effs (submit_loop dbg sh be cerr None (if outs = [] then jid else (case jid of None \<Rightarrow> Some i | Some j \<Rightarrow> Some j)) rest)
           \<and> concat (map written_out effs) = concat (map out_bytes outs)
           \<and> concat (map written_err effs) = concat (map err_bytes outs)"
  using assms
proof (induction outs arbitrary: jid)
  case Nil
  then show ?case by (intro exI [of _ "[]"]) (simp add: prepend_def)
next
  case (Cons e outs)
  let ?j = "case jid of None \<Rightarrow> Some i | Some j \<Rightarrow> Some j"
  obtain effs where effs:
    "submit_loop dbg sh be cerr None ?j (map (\<lambda>e. Inr (Some (SEvent e))) outs @ rest)
       = prepend effs (submit_loop dbg sh be cerr None (if outs = [] then ?j else (case ?j of None \<Rightarrow> Some i | Some j \<Rightarrow> Some j)) rest)"
    "concat (map written_out effs) = concat (map out_bytes outs)" "concat (map written_err effs) = concat (map err_bytes outs)"
    using Cons.IH [of ?j] Cons.prems by auto
  have j: "(if outs = [] then ?j else (case ?j of None \<Rightarrow> Some i | Some j \<Rightarrow> Some j)) = ?j"
    by (auto split: option.split)
  have e: "event_id e = i" using Cons.prems by auto
  have "\<exists>w. submit_event sh e = ([w], None :: ('io, 'je) outcome option) \<and> written_out w = out_bytes e \<and> written_err w = err_bytes e"
    using Cons.prems by (auto simp: submit_event_def)
  then obtain w where w: "submit_event sh e = ([w], None :: ('io, 'je) outcome option)"
    and "written_out w = out_bytes e" and "written_err w = err_bytes e" by blast
  then show ?case
    using effs unfolding j
    by (intro exI [of _ "w # effs"]) (simp add: submit_loop_output [OF w, unfolded e] prepend_def)
qed

lemma submit_job_events:
  fixes h :: "('io, 'je) hooks"
  assumes "list_all (\<lambda>e. \<exists>b. e = Stdout i b \<or> e = Stderr i b) outs"
    and "delivers (map SEvent (Started i # outs @ [Exited i st])) l"
  shows "\<exists>effs. submit h be rq sh l = (ESend be (CSubmit rq) # effs, OExited st)
           \<and> concat (map written_out effs) = concat (map out_bytes outs)
           \<and> concat (map written_err effs) = concat (map err_bytes outs)"
proof -
  let ?l = "\<lambda>jid ins. submit_loop (hk_dbg h) sh be (None :: ('io, 'je) transport_error option) None jid ins"
  have start: "?l None (Inr (Some (SEvent (Started i))) # ins) = ?l (Some i) ins" for ins
    by (subst submit_loop.simps) (simp add: submit_event_def prepend_def)
  have stop: "?l jid [Inr (Some (SEvent (Exited i st)))] = ([], OExited st)" for jid
    by (subst submit_loop.simps) (simp add: submit_event_def)
  obtain effs where "?l (Some i) (map (\<lambda>e. Inr (Some (SEvent e))) outs @ [Inr (Some (SEvent (Exited i st)))])
        = prepend effs ([], OExited st)"
    and "concat (map written_out effs) = concat (map out_bytes outs)" "concat (map written_err effs) = concat (map err_bytes outs)"
    using submit_loop_outputs [OF assms(1), of "hk_dbg h" sh be "None :: ('io, 'je) transport_error option" "Some i" "[Inr (Some (SEvent (Exited i st)))]"]
    by (auto simp: stop)
  then show ?thesis
    using assms(2) by (intro exI [of _ effs]) (simp add: submit_def send_def delivers_def start comp_def prepend_def)
qed

text \<open>
  C22. A job end to end. Let a supervised job run behind a connection of the server whose writes
  succeed, and let the client receive what that connection writes. Then, however the job ends
  and however its two pipes interleave, the submission returns with the exit status of the
  job's process, and the connection is free for the next job. The client's own standard output
  and standard error get a prefix of the bytes of the job's, in order: at least those of the
  first ten seconds after the job's end, and all of them when both pipes end within those
  ten seconds. What a stray process writes to a pipe it holds open longer does not reach the
  client, nor any later job of the connection.
\<close>
theorem job_end_to_end:
  assumes "cn_wr c = (\<lambda>_. True)" and "cn_active c = ARunning i cancelled"
    and "supervise i rc sched sched' out err = (evs, sigs, at)"
    and "feed cx snap uptime evs c s = (c', s')"
    and "delivers (drop (length (cn_out c)) (cn_out c')) l"
  shows "\<exists>effs. submit h be rq sh l = (ESend be (CSubmit rq) # effs, OExited (status_of (snd (race_status rc))))
           \<and> prefix (concat (map written_out effs)) (all_bytes out) \<and> prefix (concat (map written_err effs)) (all_bytes err)
           \<and> prefix (bytes_by 10000 out) (concat (map written_out effs)) \<and> prefix (bytes_by 10000 err) (concat (map written_err effs))
           \<and> (ends_by 10000 out \<and> ends_by 10000 err \<longrightarrow>
                concat (map written_out effs) = all_bytes out \<and> concat (map written_err effs) = all_bytes err)
           \<and> cn_active c' = ANone \<and> s' = s"
proof -
  let ?ex = "Exited i (status_of (snd (race_status rc)))"
  obtain outs late where evs: "evs = Started i # outs @ ?ex # late" and at: "at = foldl drain 0 [out, err]"
    and outs: "list_all (\<lambda>e. \<exists>b. e = Stdout i b \<or> e = Stderr i b) outs"
    and got: "concat (map out_bytes outs) = bytes_by at out" "concat (map err_bytes outs) = bytes_by at err"
    and all: "concat (map out_bytes outs) @ concat (map out_bytes late) = all_bytes out"
      "concat (map err_bytes outs) @ concat (map err_bytes late) = all_bytes err"
    and none: "ends_by at out \<and> ends_by at err \<longrightarrow> late = []"
    by (rule supervise_shape [OF assms(3)])
  have nt: "list_all (\<lambda>e. \<not> is_terminal e) (Started i # outs)"
    using outs by (auto simp: list_all_iff)
  have "(c', s') = (c\<lparr>cn_out := cn_out c @ map SEvent (Started i # outs) @ [SEvent ?ex], cn_active := ANone\<rparr>, s)"
    using assms(4) feed_writes [OF assms(1,2) nt, of cx snap uptime "?ex # late" s]
      feed_terminal [of "c\<lparr>cn_out := cn_out c @ map SEvent (Started i # outs)\<rparr>" i cancelled ?ex cx snap uptime late s] assms(1,2)
    by (simp add: evs)
  then have d: "delivers (map SEvent (Started i # outs @ [?ex])) l" and free: "cn_active c' = ANone" "s' = s"
    using assms(5) by auto
  obtain effs where effs: "submit h be rq sh l = (ESend be (CSubmit rq) # effs, OExited (status_of (snd (race_status rc))))"
    "concat (map written_out effs) = concat (map out_bytes outs)" "concat (map written_err effs) = concat (map err_bytes outs)"
    using submit_job_events [OF outs d, of h be rq sh] by blast
  note dr = drained [where out = out and err = err, folded at, unfolded DRAIN_GRACE_def]
  have "prefix (bytes_by at out) (all_bytes out)" "prefix (bytes_by at err) (all_bytes err)"
    unfolding all [symmetric] got by simp_all
  moreover have "bytes_by at out = all_bytes out \<and> bytes_by at err = all_bytes err" if "ends_by 10000 out" "ends_by 10000 err"
    using none dr(4,5) that all got by simp
  ultimately show ?thesis
    using effs dr(2,3) free unfolding got by auto
qed

definition link_of :: "server_message list \<Rightarrow> (unit, unit) link" where
  "link_of ms = \<lparr> lk_recv = map (\<lambda>m. Inr (Some m)) ms, lk_send_err = (\<lambda>_. None), lk_sends = 0, lk_rtt = 0,
     lk_probe_elapsed = None, lk_interrupt = None \<rparr>"

lemma delivers_link_of [simp]: "delivers ms (link_of ms)"
  by (simp add: delivers_def link_of_def)

theorem job_end_to_end_witness:
  "\<exists>l effs. submit example_hooks BRemote example_request ''h'' l = (ESend BRemote (CSubmit example_request) # effs, OExited (Code 3))
     \<and> concat (map written_out effs) = [104, 105]"
proof -
  let ?c = "\<lparr> cn_active = ARunning (JobId 1) False, cn_out = [], cn_wr = (\<lambda>_. True) \<rparr>"
  let ?s = "shared_new (scheduler_new one_slot)"
  let ?out = "Some [(0, Inr [104]), (20, Inr [105]), (0, Inr [])] :: unit pipe option"
  let ?rc = "ChildWait (Inr (WExited 3)) :: unit race"
  obtain evs sigs at where sv: "supervise (JobId 1) ?rc [] [] ?out None = (evs, sigs, at)" by (rule prod_cases3)
  obtain c' s' where f: "feed example_ctx UNKNOWN 0 evs ?c ?s = (c', s')" by force
  have w: "cn_wr ?c = (\<lambda>_. True)" "cn_active ?c = ARunning (JobId 1) False" by simp_all
  have "all_bytes ?out = [104, 105]" "ends_by 10000 ?out" "ends_by 10000 (None :: unit pipe option)"
    by (simp_all add: all_bytes_def ends_by_def)
  with job_end_to_end [OF w sv f delivers_link_of, of example_hooks BRemote example_request "''h''"]
  show ?thesis by (auto simp: status_of_def)
qed

section \<open>A toolchain refusal\<close>

lemma check_toolchain_mismatch:
  assumes "fingerprint_with_path exec (jr_cwd rq) (jr_toolchain_override rq) = Inr fp"
    and "\<not> compatible_with (jr_toolchain rq) fp"
  shows "check_toolchain exec None show_err r rq = Err (ToolchainMismatch fp (jr_toolchain rq))"
  using assms by (simp add: check_toolchain_def check_def)

lemma submit_rejected:
  fixes h :: "('io, 'je) hooks"
  assumes "delivers [SEvent (Rejected i reason)] l"
  shows "submit h be rq sh l = ([ESend be (CSubmit rq)], reject_outcome sh reason)"
proof -
  have "submit_loop (hk_dbg h) sh be (None :: ('io, 'je) transport_error option) None None [Inr (Some (SEvent (Rejected i reason)))]
      = ([], reject_outcome sh reason)"
    by (subst submit_loop.simps) (simp add: submit_event_def)
  then show ?thesis
    using assms by (simp add: submit_def send_def delivers_def prepend_def)
qed

text \<open>
  C23. A toolchain mismatch end to end. When the server's compiler for the job's directory has
  another commit or host than the client's, an idle connection answers the submission with a
  rejection that carries both fingerprints, takes no slot and queues nothing; and the client
  that receives it prints the report of the check with both hosts' names. Under a hard contract
  (a pinned workspace or an explicit \<open>+toolchain\<close>) it stops there with code 1: no other backend
  is tried and no local build starts. Without one it warns and goes on with the next backend.
\<close>
theorem toolchain_mismatch_end_to_end:
  fixes h :: "('io, 'je) hooks"
  assumes "cn_active c = ANone" and "cn_wr c = (\<lambda>_. True)"
    and "validate_cwd (cx_is_dir cx) (in_cwd inp) = Inr ()"
    and "cx_fingerprint_join cx = None"
    and "fingerprint_with_path (cx_exec cx) (in_cwd inp) (in_override inp) = Inr fp" and "\<not> compatible_with tc fp"
    and "handle_submit cx snap snap' (request_of inp tc) c s = (r, c', s')"
    and "delivers (drop (length (cn_out c)) (cn_out c')) l"
    and "hk_workspace_root h (in_cwd inp) = Inr root" and "hk_push h root (rm_host (cfg_remote (in_cfg inp))) = Inr ()"
  shows "r = Ok () \<and> sh_sched s' = sh_sched s \<and> sh_waiters s' = sh_waiters s \<and> cn_active c' = ANone
     \<and> (\<exists>m. check (ci_hostname (in_identity inp)) tc server_host fp = Err m
          \<and> try_backends h inp (request_of inp tc) (Some (l, server_host)) (BRemote # rest)
              = (let done = [EWorkspaceRoot (in_cwd inp), EPush root (rm_host (cfg_remote (in_cfg inp))),
                             ESend BRemote (CSubmit (request_of inp tc))] in
                 if hard_mismatch inp then (done @ [EStderr (mismatch_error m)], Some 1)
                 else prepend (done @ [EStderr (mismatch_warning m)]) (try_backends h inp (request_of inp tc) None rest)))"
proof -
  let ?rq = "request_of inp tc" and ?reason = "ToolchainMismatch fp tc"
  have rq: "jr_cwd ?rq = in_cwd inp" "jr_toolchain_override ?rq = in_override inp" "jr_toolchain ?rq = tc"
    by (simp_all add: request_of_def)
  have "check_toolchain (cx_exec cx) (cx_fingerprint_join cx) (cx_show_toolchain_error cx) (cx_runner cx) ?rq = Err ?reason"
    using check_toolchain_mismatch [of "cx_exec cx" ?rq fp] assms(4-6) rq by simp
  then have hs: "r = Ok ()" "c' = c\<lparr>cn_out := cn_out c @ [SEvent (Rejected (fst (next_id s)) ?reason)]\<rparr>" "s' = snd (next_id s)"
    using assms(1,2,3,7) rq by (auto simp: handle_submit_def with_shared_def send_event_def write_msg_def split: prod.splits)
  then have "delivers [SEvent (Rejected (fst (next_id s)) ?reason)] l"
    using assms(8) by simp
  then have sub: "submit h BRemote ?rq server_host l = ([ESend BRemote (CSubmit ?rq)], OMismatch server_host fp tc)"
    by (simp add: submit_rejected reject_outcome_def)
  have m: "check (ci_hostname (in_identity inp)) tc server_host fp = Err (mismatch_of inp server_host fp tc)"
    using assms(6) by (simp add: check_def mismatch_of_def)
  have "try_backends h inp ?rq (Some (l, server_host)) (BRemote # rest)
      = prepend [EWorkspaceRoot (in_cwd inp), EPush root (rm_host (cfg_remote (in_cfg inp))), ESend BRemote (CSubmit ?rq)]
          (settle inp (OMismatch server_host fp tc :: ('io, 'je) outcome) (try_backends h inp ?rq None rest))"
    using sub assms(9,10) by (simp add: Let_def links_locally_def)
  with m show ?thesis
    using hs assms(1) by (simp add: settle_def Let_def prepend_def next_id_def)
qed

definition other_ctx :: "(unit, unit) server_ctx" where
  "other_ctx = example_ctx\<lparr>cx_exec := (\<lambda>prog args cwd.
     ProcExit True [] (if prog = ''rustc'' then ''release: 1.89.0'' @ [NL] @ ''host: x86_64'' @ [NL] @ ''commit-hash: def'' else []) [])\<rparr>"

lemma other_fingerprint:
  "fingerprint_with_path (cx_exec other_ctx) ''/w'' None
     = Inr \<lparr> rustc_commit = ''def'', rustc_version = ''1.89.0'', fp_host = ''x86_64'', cargo_version = [], toolchain_name = [] \<rparr>"
  unfolding other_ctx_def by code_simp

theorem toolchain_mismatch_end_to_end_witness:
  "\<exists>l m. snd (try_backends example_hooks ((example_input Auto [''build''])\<lparr>in_pinned := True\<rparr>)
        (request_of ((example_input Auto [''build''])\<lparr>in_pinned := True\<rparr>) example_fp) (Some (l, ''h'')) [BRemote, BPlain]) = Some 1
      \<and> check ''laptop'' example_fp ''h'' m \<noteq> Ok ()"
proof -
  let ?inp = "(example_input Auto [''build''])\<lparr>in_pinned := True\<rparr>"
  let ?fp = "\<lparr> rustc_commit = ''def'', rustc_version = ''1.89.0'', fp_host = ''x86_64'', cargo_version = [], toolchain_name = [] \<rparr>"
  let ?c = "\<lparr> cn_active = ANone, cn_out = [], cn_wr = (\<lambda>_. True) \<rparr>"
  let ?s = "shared_new (scheduler_new one_slot)"
  have cwd: "validate_cwd (cx_is_dir other_ctx) (in_cwd ?inp) = Inr ()"
    by (simp add: validate_cwd_def other_ctx_def example_ctx_def example_input_def is_absolute_def starts_with_def SLASH_def)
  have j: "cx_fingerprint_join other_ctx = None" by (simp add: other_ctx_def example_ctx_def)
  have fp: "fingerprint_with_path (cx_exec other_ctx) (in_cwd ?inp) (in_override ?inp) = Inr ?fp"
    using other_fingerprint by (simp add: example_input_def)
  have ne: "\<not> compatible_with example_fp ?fp" by (simp add: compatible_with_def example_fp_def)
  obtain r c' s' where hs: "handle_submit other_ctx UNKNOWN UNKNOWN (request_of ?inp example_fp) ?c ?s = (r, c', s')"
    by (rule prod_cases3)
  have a: "cn_active ?c = ANone" "cn_wr ?c = (\<lambda>_. True)" by simp_all
  have w: "hk_workspace_root example_hooks (in_cwd ?inp) = Inr ''/w''"
    "hk_push example_hooks ''/w'' (rm_host (cfg_remote (in_cfg ?inp))) = Inr ()"
    by (simp_all add: example_hooks_def example_input_def)
  have hard: "hard_mismatch ?inp" by (simp add: hard_mismatch_def)
  from toolchain_mismatch_end_to_end [OF a cwd j fp ne hs delivers_link_of w, of "''h''" "[BPlain]"] hard ne
  have "\<exists>l. snd (try_backends example_hooks ?inp (request_of ?inp example_fp) (Some (l, ''h'')) [BRemote, BPlain]) = Some 1"
    by (intro exI [of _ "link_of (drop (length (cn_out ?c)) (cn_out c'))"])
      (auto simp: Let_def simp del: try_backends.simps)
  moreover have "check ''laptop'' example_fp ''h'' ?fp \<noteq> Ok ()" using ne by (simp add: check_def)
  ultimately show ?thesis by blast
qed

end
