(* ===== verification/Planner.thy ===== *)
theory Planner
  imports Config "HOL-Library.Product_Lexorder"
begin

text \<open>
  Eviction planning for the shared object store: \<open>crates/rbs-store/src/planner.rs\<close>.

  Points in time and durations are integers (nanoseconds); sizes are 64-bit words, so sums are
  the machine's sums. The source's \<open>BTreeMap\<close> of groups is an association list in key order,
  its \<open>sort_by\<close> on a tuple is the stable \<open>sort_key\<close> with the lexicographic order on tuples.
\<close>

type_synonym time = int

definition hours :: "int \<Rightarrow> time" where
  "hours h = h * 3600 * 1000000000"

record remote_object =
  ro_key :: string
  ro_size :: u64
  ro_last_modified :: time

definition TOUCH_TMP_SUFFIX :: string where "TOUCH_TMP_SUFFIX = ''.touch-tmp''"

datatype object_kind = Pack | Manifest

record parsed_key =
  pk_kind :: object_kind
  pk_crate_name :: string
  pk_cache_key :: string

definition is_hex :: "char \<Rightarrow> bool" where
  "is_hex c \<longleftrightarrow> is_digit c \<or> CHR ''a'' \<le> c \<and> c \<le> CHR ''f''"

definition kind_of_dir :: "string \<Rightarrow> object_kind option" where
  "kind_of_dir d = (if d = ''packs'' then Some Pack else if d = ''manifests'' then Some Manifest else None)"

fun kind_suffix :: "object_kind \<Rightarrow> string" where
  "kind_suffix Pack = ''.tar.zst''"
| "kind_suffix Manifest = ''.json''"

definition parse_object_key :: "string \<Rightarrow> string \<Rightarrow> parsed_key option" where
  "parse_object_key pre key =
     Option.bind (if pre = [] then Some key else Option.bind (strip_prefix pre key) (strip_prefix ''/'')) (\<lambda>rel.
       case split_by (\<lambda>c. c = CHR ''/'') rel of
         [v, d, crate_name, file] \<Rightarrow>
           (if v \<noteq> ''v3'' then None
            else Option.bind (kind_of_dir d) (\<lambda>kind.
              if crate_name = [] then None
              else Option.bind (strip_suffix (kind_suffix kind) file) (\<lambda>stem.
                if length stem \<noteq> 64 \<or> \<not> list_all is_hex stem then None
                else Some \<lparr> pk_kind = kind, pk_crate_name = crate_name, pk_cache_key = stem \<rparr>)))
       | _ \<Rightarrow> None)"

record gc_params =
  gp_max_bytes :: u64
  gp_watermark_bytes :: u64
  gp_min_age :: time
  gp_now :: time

definition from_store_config :: "store_cfg \<Rightarrow> time \<Rightarrow> gc_params" where
  "from_store_config store now =
     (let max_bytes = ucast (so_max_size_gib store) * (1024 * 1024 * 1024) :: u64;
          percent = ucast (min (so_low_watermark_percent store) 100) :: u64
      in \<lparr> gp_max_bytes = max_bytes,
           gp_watermark_bytes = max_bytes div 100 * percent + max_bytes mod 100 * percent div 100,
           gp_min_age = hours (int (unat (so_min_age_hours store))),
           gp_now = now \<rparr>)"

datatype evict_reason = Orphan | Lfu

record eviction =
  ev_cache_key :: string
  ev_crate_name :: string
  ev_objects :: "remote_object list"
  ev_hit_count :: i64
  ev_last_accessed :: time
  ev_last_modified :: time
  ev_reason :: evict_reason

definition eviction_bytes :: "eviction \<Rightarrow> u64" where
  "eviction_bytes e = sum_list (map ro_size (ev_objects e))"

record gc_plan =
  gl_scanned :: u64
  gl_total_bytes :: u64
  gl_evictions :: "eviction list"
  gl_freed_bytes :: u64
  gl_skipped_young :: u64
  gl_junk :: "remote_object list"

record group =
  gr_crate_name :: string
  gr_pack :: "remote_object option"
  gr_manifest :: "remote_object option"

definition group_default :: group where
  "group_default = \<lparr> gr_crate_name = [], gr_pack = None, gr_manifest = None \<rparr>"

definition group_objects :: "group \<Rightarrow> remote_object list" where
  "group_objects g = (case gr_pack g of Some o' \<Rightarrow> [o'] | None \<Rightarrow> []) @ (case gr_manifest g of Some o' \<Rightarrow> [o'] | None \<Rightarrow> [])"

text \<open>\<open>BTreeMap::entry(k).or_default()\<close> followed by an update of the value.\<close>

fun entry_update :: "'k::linorder \<Rightarrow> 'v \<Rightarrow> ('v \<Rightarrow> 'v) \<Rightarrow> ('k \<times> 'v) list \<Rightarrow> ('k \<times> 'v) list" where
  "entry_update k d f [] = [(k, f d)]"
| "entry_update k d f ((k', v) # m) =
     (if k < k' then (k, f d) # (k', v) # m
      else if k = k' then (k', f v) # m
      else (k', v) # entry_update k d f m)"

definition key_without_prefix :: "string \<Rightarrow> string" where
  "key_without_prefix key =
     (case find_sub ''v3/'' key of
        Some pos \<Rightarrow> (if pos = 0 \<or> key ! (pos - 1) = CHR ''/'' then drop pos key else key)
      | None \<Rightarrow> key)"

definition add_to_group :: "remote_object \<Rightarrow> parsed_key \<Rightarrow> group \<Rightarrow> group" where
  "add_to_group obj parsed g =
     (case pk_kind parsed of
        Pack \<Rightarrow> g\<lparr>gr_crate_name := pk_crate_name parsed, gr_pack := Some obj\<rparr>
      | Manifest \<Rightarrow> g\<lparr>gr_crate_name := pk_crate_name parsed, gr_manifest := Some obj\<rparr>)"

fun group_objects_by_key :: "remote_object list \<Rightarrow> (string \<times> group) list \<Rightarrow> (string \<times> group) list" where
  "group_objects_by_key [] groups = groups"
| "group_objects_by_key (obj # objs) groups =
     group_objects_by_key objs
       (case parse_object_key [] (key_without_prefix (ro_key obj)) of
          None \<Rightarrow> groups
        | Some parsed \<Rightarrow> entry_update (pk_cache_key parsed) group_default (add_to_group obj parsed) groups)"

text \<open>The usage index (\<open>index.rs\<close>): per cache key the hits and the last access.\<close>

record usage_entry =
  us_hit_count :: i64
  us_last_accessed :: "time option"

type_synonym usage_map = "string \<rightharpoonup> usage_entry"

definition usage_default :: usage_entry where
  "usage_default = \<lparr> us_hit_count = 0, us_last_accessed = None \<rparr>"

fun max_time :: "time list \<Rightarrow> time option" where
  "max_time [] = None"
| "max_time (t # ts) = Some (foldl max t ts)"

definition candidate_of :: "usage_map \<Rightarrow> gc_params \<Rightarrow> string \<times> group \<Rightarrow> eviction" where
  "candidate_of index params kg =
     (let (cache_key, group) = kg;
          objects = group_objects group;
          last_modified = unwrap_or (gp_now params) (max_time (map ro_last_modified objects));
          usage = unwrap_or usage_default (index cache_key)
      in \<lparr> ev_cache_key = cache_key, ev_crate_name = gr_crate_name group, ev_objects = objects,
           ev_hit_count = us_hit_count usage,
           ev_last_accessed = (case us_last_accessed usage of None \<Rightarrow> last_modified | Some la \<Rightarrow> max la last_modified),
           ev_last_modified = last_modified,
           ev_reason = (if gr_pack group \<noteq> None \<and> gr_manifest group \<noteq> None then Lfu else Orphan) \<rparr>)"

definition candidate_key :: "eviction \<Rightarrow> bool \<times> int \<times> int \<times> string" where
  "candidate_key e = (ev_reason e \<noteq> Orphan, ev_hit_count e, ev_last_accessed e, ev_cache_key e)"

fun evict_loop :: "gc_params \<Rightarrow> u64 \<Rightarrow> eviction list \<Rightarrow> gc_plan \<Rightarrow> gc_plan" where
  "evict_loop params remaining [] pl = pl"
| "evict_loop params remaining (c # cs) pl =
     (if remaining \<le> gp_watermark_bytes params then pl
      else if ev_last_accessed c > gp_now params - gp_min_age params then
        evict_loop params remaining cs
          (pl\<lparr>gl_skipped_young := gl_skipped_young pl + of_nat (length (ev_objects c))\<rparr>)
      else
        evict_loop params (remaining - eviction_bytes c) cs
          (pl\<lparr>gl_freed_bytes := gl_freed_bytes pl + eviction_bytes c, gl_evictions := gl_evictions pl @ [c]\<rparr>))"

definition is_tmp :: "remote_object \<Rightarrow> bool" where
  "is_tmp obj \<longleftrightarrow> ends_with TOUCH_TMP_SUFFIX (ro_key obj)"

definition plan_candidates :: "remote_object list \<Rightarrow> usage_map \<Rightarrow> gc_params \<Rightarrow> eviction list" where
  "plan_candidates managed index params =
     sort_key candidate_key (map (candidate_of index params) (group_objects_by_key managed []))"

definition plan :: "remote_object list \<Rightarrow> usage_map \<Rightarrow> gc_params \<Rightarrow> gc_plan" where
  "plan objects index params =
     (let cutoff = gp_now params - gp_min_age params;
          junk = filter (\<lambda>obj. is_tmp obj \<and> ro_last_modified obj \<le> cutoff) objects;
          managed = filter (\<lambda>obj. \<not> is_tmp obj) objects;
          total_bytes = sum_list (map ro_size managed);
          pl = \<lparr> gl_scanned = of_nat (length objects), gl_total_bytes = total_bytes, gl_evictions = [],
                 gl_freed_bytes = 0, gl_skipped_young = 0, gl_junk = junk \<rparr>
      in if total_bytes \<le> gp_max_bytes params then pl
         else evict_loop params total_bytes (plan_candidates managed index params) pl)"

section \<open>Sums of sizes\<close>

definition nbytes :: "remote_object list \<Rightarrow> nat" where
  "nbytes os = sum_list (map (unat \<circ> ro_size) os)"

lemma nbytes_simps [simp]: "nbytes [] = 0" "nbytes (x # xs) = unat (ro_size x) + nbytes xs"
    "nbytes (xs @ ys) = nbytes xs + nbytes ys"
  by (simp_all add: nbytes_def)

lemma unat_sum_sizes: "nbytes os < 2 ^ 64 \<Longrightarrow> unat (sum_list (map ro_size os)) = nbytes os"
proof (induction os)
  case Nil
  then show ?case by simp
next
  case (Cons x os)
  then have "unat (sum_list (map ro_size os)) = nbytes os" by simp
  with Cons.prems show ?case by (simp add: unat_word_ariths)
qed

lemma nbytes_filter: "nbytes (filter P os) \<le> nbytes os"
  by (induction os) auto

section \<open>Grouping\<close>

lemma entry_update_keys: "set (map fst (entry_update k d f m)) = insert k (set (map fst m))"
  by (induction m rule: entry_update.induct) auto

lemma entry_update_sorted: "sorted_wrt (<) (map fst m) \<Longrightarrow> sorted_wrt (<) (map fst (entry_update k d f m))"
proof (induction k d f m rule: entry_update.induct)
  case (1 k d f)
  then show ?case by simp
next
  case (2 k d f k' v m)
  then show ?case using entry_update_keys [of k d f m] by auto
qed

lemma entry_update_values:
  "(j, w) \<in> set (entry_update k d f m) \<Longrightarrow>
     (j, w) \<in> set m \<or> j = k \<and> (w = f d \<or> (\<exists>v. (k, v) \<in> set m \<and> w = f v))"
  by (induction k d f m rule: entry_update.induct) (auto split: if_splits)

definition groups_bytes :: "(string \<times> group) list \<Rightarrow> nat" where
  "groups_bytes gs = sum_list (map (nbytes \<circ> group_objects \<circ> snd) gs)"

lemma entry_update_bytes:
  assumes "nbytes (group_objects d) = 0" and "\<And>g. nbytes (group_objects (f g)) \<le> nbytes (group_objects g) + n"
  shows "groups_bytes (entry_update k d f m) \<le> groups_bytes m + n"
  using assms(2) [of d] assms(1)
proof (induction m)
  case Nil
  then show ?case by (simp add: groups_bytes_def)
next
  case (Cons kv m)
  obtain k' v where kv: "kv = (k', v)" by force
  show ?case using Cons assms(2) [of v] by (auto simp: kv groups_bytes_def)
qed

lemma add_to_group_bytes: "nbytes (group_objects (add_to_group obj p g)) \<le> nbytes (group_objects g) + unat (ro_size obj)"
  by (cases "pk_kind p") (auto simp: add_to_group_def group_objects_def split: option.split)

lemma add_to_group_objects: "set (group_objects (add_to_group obj p g)) \<subseteq> insert obj (set (group_objects g))"
  by (cases "pk_kind p") (auto simp: add_to_group_def group_objects_def split: option.split)

lemma add_to_group_nonempty: "group_objects (add_to_group obj p g) \<noteq> []"
  by (cases "pk_kind p") (auto simp: add_to_group_def group_objects_def)

text \<open>What a grouping may contain: each object under the cache key of its own name.\<close>

definition group_ok :: "remote_object set \<Rightarrow> string \<times> group \<Rightarrow> bool" where
  "group_ok S kg \<longleftrightarrow> group_objects (snd kg) \<noteq> [] \<and>
     (\<forall>x \<in> set (group_objects (snd kg)). x \<in> S \<and>
        (\<exists>p. parse_object_key [] (key_without_prefix (ro_key x)) = Some p \<and> pk_cache_key p = fst kg))"

lemma group_objects_by_key_ok:
  assumes "\<forall>kg \<in> set groups. group_ok S kg" and "sorted_wrt (<) (map fst groups)" and "set objs \<subseteq> S"
  shows "(\<forall>kg \<in> set (group_objects_by_key objs groups). group_ok S kg)
       \<and> sorted_wrt (<) (map fst (group_objects_by_key objs groups))
       \<and> groups_bytes (group_objects_by_key objs groups) \<le> groups_bytes groups + nbytes objs"
  using assms
proof (induction objs arbitrary: groups)
  case Nil
  then show ?case by simp
next
  case (Cons obj objs)
  show ?case
  proof (cases "parse_object_key [] (key_without_prefix (ro_key obj))")
    case None
    with Cons show ?thesis by fastforce
  next
    case (Some p)
    let ?g = "entry_update (pk_cache_key p) group_default (add_to_group obj p) groups"
    have b: "groups_bytes ?g \<le> groups_bytes groups + unat (ro_size obj)"
      by (rule entry_update_bytes) (simp_all add: add_to_group_bytes, simp add: group_default_def group_objects_def)
    have d: "group_objects group_default = []" by (simp add: group_default_def group_objects_def)
    have "group_ok S kg" if kg: "kg \<in> set ?g" for kg
    proof -
      obtain j w where jw: "kg = (j, w)" by force
      from entry_update_values [of j w] kg jw
      consider "kg \<in> set groups" | "j = pk_cache_key p" "w = add_to_group obj p group_default"
        | v where "j = pk_cache_key p" "(j, v) \<in> set groups" "w = add_to_group obj p v" by blast
      then show ?thesis
      proof cases
        case 1
        then show ?thesis using Cons.prems(1) by blast
      next
        case 2
        then show ?thesis
          using jw Some Cons.prems(3) add_to_group_objects [of obj p group_default] add_to_group_nonempty [of obj p]
          by (auto simp: group_ok_def d)
      next
        case (3 v)
        then have "group_ok S (j, v)" using Cons.prems(1) by blast
        then show ?thesis
          using 3 jw Some Cons.prems(3) add_to_group_objects [of obj p v] add_to_group_nonempty [of obj p v]
          by (fastforce simp: group_ok_def)
      qed
    qed
    moreover have "sorted_wrt (<) (map fst ?g)" using Cons.prems(2) by (rule entry_update_sorted)
    ultimately have "(\<forall>kg \<in> set (group_objects_by_key objs ?g). group_ok S kg)
       \<and> sorted_wrt (<) (map fst (group_objects_by_key objs ?g))
       \<and> groups_bytes (group_objects_by_key objs ?g) \<le> groups_bytes ?g + nbytes objs"
      using Cons.prems(3) by (intro Cons.IH) auto
    with b Some show ?thesis by simp
  qed
qed

section \<open>The eviction loop\<close>

definition cutoff :: "gc_params \<Rightarrow> time" where
  "cutoff params = gp_now params - gp_min_age params"

definition is_old :: "gc_params \<Rightarrow> eviction \<Rightarrow> bool" where
  "is_old params e \<longleftrightarrow> ev_last_accessed e \<le> cutoff params"

definition ebytes :: "eviction list \<Rightarrow> nat" where
  "ebytes es = sum_list (map (nbytes \<circ> ev_objects) es)"

lemma ebytes_simps [simp]: "ebytes [] = 0" "ebytes (x # xs) = nbytes (ev_objects x) + ebytes xs"
    "ebytes (xs @ ys) = ebytes xs + ebytes ys"
  by (simp_all add: ebytes_def)

text \<open>
  The evictions the loop chooses: walk the candidates in order, take the old ones, and stop as
  soon as the store would be at or below the watermark.
\<close>

fun chosen :: "gc_params \<Rightarrow> nat \<Rightarrow> eviction list \<Rightarrow> eviction list" where
  "chosen params n [] = []"
| "chosen params n (c # cs) =
     (if n \<le> unat (gp_watermark_bytes params) then []
      else if is_old params c then c # chosen params (n - nbytes (ev_objects c)) cs
      else chosen params n cs)"

lemma evict_loop_chosen:
  assumes "ebytes cs \<le> unat remaining"
  shows "gl_evictions (evict_loop params remaining cs pl) = gl_evictions pl @ chosen params (unat remaining) cs
       \<and> (unat (gl_freed_bytes pl) + unat remaining < 2 ^ 64 \<longrightarrow>
            unat (gl_freed_bytes (evict_loop params remaining cs pl))
              = unat (gl_freed_bytes pl) + ebytes (chosen params (unat remaining) cs))
       \<and> gl_junk (evict_loop params remaining cs pl) = gl_junk pl
       \<and> gl_total_bytes (evict_loop params remaining cs pl) = gl_total_bytes pl"
  using assms
proof (induction params remaining cs pl rule: evict_loop.induct)
  case (1 params remaining pl)
  then show ?case by simp
next
  case (2 params remaining c cs pl)
  have r: "unat remaining < 2 ^ 64" by (rule unat_lt_u64)
  then have "nbytes (ev_objects c) < 2 ^ 64" using 2(3) by simp
  then have eb: "unat (eviction_bytes c) = nbytes (ev_objects c)"
    by (simp add: eviction_bytes_def unat_sum_sizes)
  have le: "eviction_bytes c \<le> remaining" using 2(3) eb by (simp add: word_le_nat_alt)
  then have sub: "unat (remaining - eviction_bytes c) = unat remaining - nbytes (ev_objects c)"
    using eb by (simp add: unat_sub)
  show ?case
  proof (cases "remaining \<le> gp_watermark_bytes params")
    case True
    then show ?thesis by (simp add: word_le_nat_alt)
  next
    case wm: False
    show ?thesis
    proof (cases "ev_last_accessed c > gp_now params - gp_min_age params")
      case True
      with wm 2(1) 2(3) show ?thesis by (simp add: word_le_nat_alt is_old_def cutoff_def)
    next
      case False
      let ?pl = "pl\<lparr>gl_freed_bytes := gl_freed_bytes pl + eviction_bytes c, gl_evictions := gl_evictions pl @ [c]\<rparr>"
      have "ebytes cs \<le> unat (remaining - eviction_bytes c)" using 2(3) sub by simp
      note ih = 2(2) [OF wm False this]
      have f: "unat (gl_freed_bytes pl + eviction_bytes c) = unat (gl_freed_bytes pl) + nbytes (ev_objects c)"
        if "unat (gl_freed_bytes pl) + unat remaining < 2 ^ 64"
        using that le eb by (simp add: unat_word_ariths word_le_nat_alt)
      have wm': "\<not> unat remaining \<le> unat (gp_watermark_bytes params)" and old: "is_old params c"
        using wm False by (simp_all add: word_le_nat_alt is_old_def cutoff_def)
      have ch: "chosen params (unat remaining) (c # cs) = c # chosen params (unat remaining - nbytes (ev_objects c)) cs"
        using wm' old by simp
      have lp: "evict_loop params remaining (c # cs) pl = evict_loop params (remaining - eviction_bytes c) cs ?pl"
        using wm False by simp
      have "nbytes (ev_objects c) \<le> unat remaining" using 2(3) by simp
      then show ?thesis using ih f unfolding ch lp by (auto simp: sub)
    qed
  qed
qed

lemma chosen_subseq: "subseq (chosen params n cs) cs"
  by (induction params n cs rule: chosen.induct) auto

lemma chosen_old: "e \<in> set (chosen params n cs) \<Longrightarrow> is_old params e"
  by (induction params n cs rule: chosen.induct) (auto split: if_splits)

lemma chosen_target:
  "n - ebytes (chosen params n cs) \<le> unat (gp_watermark_bytes params) \<or> chosen params n cs = filter (is_old params) cs"
  by (induction params n cs rule: chosen.induct) auto

lemma chosen_needed:
  "chosen params n cs = as @ e # bs \<Longrightarrow> unat (gp_watermark_bytes params) < n - ebytes as"
proof (induction params n cs arbitrary: as rule: chosen.induct)
  case (1 params n)
  then show ?case by simp
next
  case (2 params n c cs)
  then show ?case by (cases as) (auto split: if_splits)
qed

lemma plan_candidates_bytes: "ebytes (plan_candidates managed index params) \<le> nbytes managed"
proof -
  have "ebytes (plan_candidates managed index params)
      = sum_mset (image_mset (nbytes \<circ> ev_objects) (mset (plan_candidates managed index params)))"
    by (simp add: ebytes_def sum_mset_sum_list [symmetric])
  also have "\<dots> = groups_bytes (group_objects_by_key managed [])"
    by (simp add: plan_candidates_def groups_bytes_def sum_mset_sum_list [symmetric] image_mset.compositionality
        comp_def candidate_of_def split_def Let_def)
  also have "\<dots> \<le> nbytes managed"
    using group_objects_by_key_ok [of "[]" "set managed" managed] by (simp add: groups_bytes_def)
  finally show ?thesis .
qed

lemma max_time_ge: "max_time ts = Some m \<Longrightarrow> t \<in> set ts \<Longrightarrow> t \<le> m"
proof -
  have "x \<le> foldl max x ts \<and> (\<forall>t \<in> set ts. t \<le> foldl max x ts)" for x :: time and ts
  proof (induction ts arbitrary: x)
    case Nil
    then show ?case by simp
  next
    case (Cons y ts)
    have "max x y \<le> foldl max (max x y) ts" and "\<forall>t \<in> set ts. t \<le> foldl max (max x y) ts"
      using Cons [of "max x y"] by auto
    then show ?case by auto
  qed
  then show "max_time ts = Some m \<Longrightarrow> t \<in> set ts \<Longrightarrow> t \<le> m" by (cases ts) auto
qed

lemma candidate_recency:
  assumes "x \<in> set (ev_objects (candidate_of index params kg))"
  shows "ro_last_modified x \<le> ev_last_accessed (candidate_of index params kg)"
    and "index (fst kg) = Some u \<Longrightarrow> us_last_accessed u = Some la \<Longrightarrow> la \<le> ev_last_accessed (candidate_of index params kg)"
proof -
  obtain k g where kg: "kg = (k, g)" by force
  let ?ts = "map ro_last_modified (group_objects g)"
  from assms have "ro_last_modified x \<in> set ?ts" by (auto simp: candidate_of_def kg Let_def)
  moreover obtain m where m: "max_time ?ts = Some m" using calculation by (cases ?ts) auto
  ultimately have "ro_last_modified x \<le> m" using max_time_ge by blast
  with m show "ro_last_modified x \<le> ev_last_accessed (candidate_of index params kg)"
    by (auto simp: candidate_of_def kg Let_def split: option.split)
  show "la \<le> ev_last_accessed (candidate_of index params kg)"
    if "index (fst kg) = Some u" "us_last_accessed u = Some la"
    using that by (auto simp: candidate_of_def kg Let_def)
qed

lemma chosen_prefix: "prefix (chosen params n cs) (filter (is_old params) cs)"
  by (induction params n cs rule: chosen.induct) auto

definition managed :: "remote_object list \<Rightarrow> remote_object list" where
  "managed objects = filter (\<lambda>obj. \<not> is_tmp obj) objects"

lemma plan_evictions:
  assumes "nbytes (managed objects) < 2 ^ 64"
  shows "gl_evictions (plan objects index params)
           = (if nbytes (managed objects) \<le> unat (gp_max_bytes params) then []
              else chosen params (nbytes (managed objects)) (plan_candidates (managed objects) index params))"
    and "unat (gl_freed_bytes (plan objects index params)) = ebytes (gl_evictions (plan objects index params))"
proof -
  let ?total = "sum_list (map ro_size (managed objects))"
  let ?cs = "plan_candidates (managed objects) index params"
  have u: "unat ?total = nbytes (managed objects)" using assms by (rule unat_sum_sizes)
  have b: "ebytes ?cs \<le> unat ?total" using plan_candidates_bytes u by simp
  note l = evict_loop_chosen [OF b]
  show e: "gl_evictions (plan objects index params)
      = (if nbytes (managed objects) \<le> unat (gp_max_bytes params) then []
         else chosen params (nbytes (managed objects)) ?cs)"
    using l u by (simp add: plan_def Let_def managed_def [symmetric] word_le_nat_alt)
  show "unat (gl_freed_bytes (plan objects index params)) = ebytes (gl_evictions (plan objects index params))"
    unfolding e using l u unat_lt_u64 [of ?total]
    by (simp add: plan_def Let_def managed_def [symmetric] word_le_nat_alt)
qed

lemma evict_loop_old:
  "e \<in> set (gl_evictions (evict_loop params remaining cs pl)) \<Longrightarrow>
     e \<in> set (gl_evictions pl) \<or> e \<in> set cs \<and> is_old params e"
  by (induction params remaining cs pl rule: evict_loop.induct)
    (auto simp: is_old_def cutoff_def split: if_splits)

lemma evict_loop_junk: "gl_junk (evict_loop params remaining cs pl) = gl_junk pl"
  by (induction params remaining cs pl rule: evict_loop.induct) auto

lemma plan_eviction_origin:
  assumes "e \<in> set (gl_evictions (plan objects index params))"
  obtains k g where "e = candidate_of index params (k, g)" and "group_ok (set (managed objects)) (k, g)" and "is_old params e"
proof -
  have "e \<in> set (plan_candidates (managed objects) index params)" and o: "is_old params e"
    using assms evict_loop_old [of e params]
    by (fastforce simp: plan_def Let_def managed_def [symmetric] split: if_splits)+
  then obtain kg where kg: "kg \<in> set (group_objects_by_key (managed objects) [])" "e = candidate_of index params kg"
    by (auto simp: plan_candidates_def)
  moreover have "group_ok (set (managed objects)) kg"
    using group_objects_by_key_ok [of "[]" "set (managed objects)" "managed objects"] kg(1) by simp
  moreover obtain k g where "kg = (k, g)" by force
  ultimately show ?thesis using o that by simp
qed

section \<open>The candidates\<close>

text \<open>The objects of one kind under one cache key, as listed, and the last of each kind.\<close>

definition listed :: "object_kind \<Rightarrow> string \<Rightarrow> remote_object list \<Rightarrow> remote_object list" where
  "listed kind k objs = filter (\<lambda>x. case parse_object_key [] (key_without_prefix (ro_key x)) of
      None \<Rightarrow> False | Some p \<Rightarrow> pk_kind p = kind \<and> pk_cache_key p = k) objs"

definition last_listed :: "remote_object list \<Rightarrow> string \<Rightarrow> remote_object list" where
  "last_listed objs k = map last (filter (\<lambda>xs. xs \<noteq> []) [listed Pack k objs, listed Manifest k objs])"

definition parts :: "group \<Rightarrow> remote_object option \<times> remote_object option" where
  "parts g = (gr_pack g, gr_manifest g)"

definition latest :: "'a option \<Rightarrow> 'a list \<Rightarrow> 'a option" where
  "latest old xs = (if xs = [] then old else Some (last xs))"

lemma latest_Cons [simp]: "latest old (x # xs) = latest (Some x) xs" "latest old [] = old"
  by (simp_all add: latest_def)

lemma entry_update_lookup:
  "sorted_wrt (<) (map fst m) \<Longrightarrow>
     map_of (entry_update k d f m) j = (if j = k then Some (f (unwrap_or d (map_of m k))) else map_of m j)"
proof (induction k d f m rule: entry_update.induct)
  case (1 k d f)
  then show ?case by simp
next
  case (2 k d f k' v m)
  have "map_of m k = None" if "k < k'"
    using 2(2) that by (auto simp: map_of_eq_None_iff)
  then show ?case using 2 by auto
qed

lemma group_objects_by_key_lookup:
  assumes "sorted_wrt (<) (map fst groups)"
  shows "map_option parts (map_of (group_objects_by_key objs groups) k)
       = (if listed Pack k objs = [] \<and> listed Manifest k objs = [] then map_option parts (map_of groups k)
          else let (p, m) = unwrap_or (None, None) (map_option parts (map_of groups k))
               in Some (latest p (listed Pack k objs), latest m (listed Manifest k objs)))"
  using assms
proof (induction objs arbitrary: groups)
  case Nil
  then show ?case by (simp add: listed_def)
next
  case (Cons obj objs)
  show ?case
  proof (cases "parse_object_key [] (key_without_prefix (ro_key obj))")
    case None
    with Cons show ?thesis by (simp add: listed_def)
  next
    case (Some p)
    let ?g = "entry_update (pk_cache_key p) group_default (add_to_group obj p) groups"
    have "sorted_wrt (<) (map fst ?g)" using Cons.prems by (rule entry_update_sorted)
    note ih = Cons.IH [OF this]
    have l: "listed kind k (obj # objs) = (if pk_kind p = kind \<and> pk_cache_key p = k then obj # listed kind k objs else listed kind k objs)" for kind
      using Some by (simp add: listed_def)
    show ?thesis
    proof (cases "pk_cache_key p = k")
      case False
      then show ?thesis using ih Some Cons.prems by (simp add: l entry_update_lookup)
    next
      case True
      have "map_option parts (map_of ?g k)
          = Some (case unwrap_or (None, None) (map_option parts (map_of groups k)) of
                    (a, b) \<Rightarrow> (case pk_kind p of Pack \<Rightarrow> (Some obj, b) | Manifest \<Rightarrow> (a, Some obj)))"
        using Cons.prems True
        by (cases "map_of groups k") (simp_all add: entry_update_lookup add_to_group_def parts_def group_default_def split: object_kind.split)
      then show ?thesis
        using ih Some True by (cases "pk_kind p") (auto simp: l Let_def split: prod.splits)
    qed
  qed
qed

lemma grouped:
  "sorted_wrt (<) (map fst (group_objects_by_key objs []))"
  "set (map fst (group_objects_by_key objs [])) = {k. last_listed objs k \<noteq> []}"
  "(k, g) \<in> set (group_objects_by_key objs []) \<Longrightarrow>
     group_objects g = last_listed objs k \<and> (gr_pack g \<noteq> None \<and> gr_manifest g \<noteq> None \<longleftrightarrow> length (last_listed objs k) = 2)"
proof -
  show s: "sorted_wrt (<) (map fst (group_objects_by_key objs []))"
    using group_objects_by_key_ok [of "[]" "set objs" objs] by simp
  have look: "map_option parts (map_of (group_objects_by_key objs []) k)
      = (if listed Pack k objs = [] \<and> listed Manifest k objs = [] then None
         else Some (latest None (listed Pack k objs), latest None (listed Manifest k objs)))" for k
    using group_objects_by_key_lookup [of "[]" objs k] by simp
  show "set (map fst (group_objects_by_key objs [])) = {k. last_listed objs k \<noteq> []}"
  proof (rule set_eqI)
    fix k
    have "k \<in> set (map fst (group_objects_by_key objs [])) \<longleftrightarrow> map_of (group_objects_by_key objs []) k \<noteq> None"
      by (simp add: map_of_eq_None_iff)
    also have "\<dots> \<longleftrightarrow> map_option parts (map_of (group_objects_by_key objs []) k) \<noteq> None" by simp
    also have "\<dots> \<longleftrightarrow> last_listed objs k \<noteq> []" unfolding look by (simp add: last_listed_def)
    finally show "k \<in> set (map fst (group_objects_by_key objs [])) \<longleftrightarrow> k \<in> {k. last_listed objs k \<noteq> []}" by simp
  qed
  show "group_objects g = last_listed objs k \<and> (gr_pack g \<noteq> None \<and> gr_manifest g \<noteq> None \<longleftrightarrow> length (last_listed objs k) = 2)"
    if "(k, g) \<in> set (group_objects_by_key objs [])"
  proof -
    have "distinct (map fst (group_objects_by_key objs []))" using s by (simp add: strict_sorted_iff)
    then have "map_of (group_objects_by_key objs []) k = Some g" using that by simp
    with look [of k] show ?thesis
      by (auto simp: parts_def latest_def last_listed_def group_objects_def split: if_splits)
  qed
qed

lemma max_time_Max: "ts \<noteq> [] \<Longrightarrow> max_time ts = Some (Max (set ts))"
proof (cases ts)
  case (Cons t rest)
  have "(\<lambda>x y :: time. max y x) = max" by (intro ext) (rule max.commute)
  then show ?thesis using Cons Max.set_eq_fold [of t rest] by (simp add: foldl_conv_fold)
qed simp

lemma candidate_of_simps [simp]:
  "ev_cache_key (candidate_of index params (k, g)) = k" "ev_objects (candidate_of index params (k, g)) = group_objects g"
  "ev_hit_count (candidate_of index params (k, g)) = (case index k of None \<Rightarrow> 0 | Some u \<Rightarrow> us_hit_count u)"
  "ev_reason (candidate_of index params (k, g)) = (if gr_pack g \<noteq> None \<and> gr_manifest g \<noteq> None then Lfu else Orphan)"
  by (simp_all add: candidate_of_def Let_def usage_default_def split: option.split)

lemma candidate_last_accessed:
  assumes "group_objects g \<noteq> []"
  shows "ev_last_accessed (candidate_of index params (k, g))
       = Max (ro_last_modified ` set (group_objects g) \<union> set_option (Option.bind (index k) us_last_accessed))"
proof -
  let ?ts = "map ro_last_modified (group_objects g)"
  have "max_time ?ts = Some (Max (set ?ts))" using assms by (intro max_time_Max) simp
  then show ?thesis
    using assms
    by (cases "index k"; cases "Option.bind (index k) us_last_accessed")
      (simp_all add: candidate_of_def Let_def usage_default_def Max_insert max.commute)
qed

lemma plan_candidates_keys:
  "distinct (map ev_cache_key (plan_candidates objs index params))"
  "set (map ev_cache_key (plan_candidates objs index params)) = {k. last_listed objs k \<noteq> []}"
proof -
  let ?gs = "group_objects_by_key objs []"
  have m: "map ev_cache_key (map (candidate_of index params) ?gs) = map fst ?gs" by (auto simp: split_def)
  have "mset (map ev_cache_key (plan_candidates objs index params)) = mset (map fst ?gs)"
    unfolding m [symmetric] by (simp add: plan_candidates_def image_mset.compositionality)
  moreover have "distinct (map fst ?gs)" using grouped(1) [of objs] by (simp add: strict_sorted_iff)
  ultimately show "distinct (map ev_cache_key (plan_candidates objs index params))"
    "set (map ev_cache_key (plan_candidates objs index params)) = {k. last_listed objs k \<noteq> []}"
    using grouped(2) [of objs] mset_eq_imp_distinct_iff mset_eq_setD by blast+
qed

lemma plan_candidates_fields:
  "list_all (\<lambda>e. ev_objects e = last_listed objs (ev_cache_key e)
      \<and> ev_reason e = (if length (ev_objects e) = 2 then Lfu else Orphan)
      \<and> ev_hit_count e = (case index (ev_cache_key e) of None \<Rightarrow> 0 | Some u \<Rightarrow> us_hit_count u)
      \<and> ev_last_accessed e = Max (ro_last_modified ` set (ev_objects e)
           \<union> set_option (Option.bind (index (ev_cache_key e)) us_last_accessed))) (plan_candidates objs index params)"
  unfolding list_all_iff
proof
  fix e
  assume "e \<in> set (plan_candidates objs index params)"
  then obtain k g where e: "e = candidate_of index params (k, g)" and kg: "(k, g) \<in> set (group_objects_by_key objs [])"
    by (auto simp: plan_candidates_def)
  have "group_objects g \<noteq> []"
    using group_objects_by_key_ok [of "[]" "set objs" objs] kg by (fastforce simp: group_ok_def)
  then show "ev_objects e = last_listed objs (ev_cache_key e)
      \<and> ev_reason e = (if length (ev_objects e) = 2 then Lfu else Orphan)
      \<and> ev_hit_count e = (case index (ev_cache_key e) of None \<Rightarrow> 0 | Some u \<Rightarrow> us_hit_count u)
      \<and> ev_last_accessed e = Max (ro_last_modified ` set (ev_objects e)
           \<union> set_option (Option.bind (index (ev_cache_key e)) us_last_accessed))"
    using grouped(3) [OF kg] candidate_last_accessed [of g index params k] by (simp add: e)
qed

definition evict_order :: "eviction \<Rightarrow> eviction \<Rightarrow> bool" where
  "evict_order = (\<lambda>a b.
     if ev_reason a \<noteq> ev_reason b then ev_reason a = Orphan
     else if ev_hit_count a \<noteq> ev_hit_count b then ev_hit_count a < ev_hit_count b
     else if ev_last_accessed a \<noteq> ev_last_accessed b then ev_last_accessed a < ev_last_accessed b
     else ev_cache_key a < ev_cache_key b)"

lemma evict_order_key: "candidate_key a \<le> candidate_key b \<Longrightarrow> ev_cache_key a \<noteq> ev_cache_key b \<Longrightarrow> evict_order a b"
  by (cases "ev_reason a"; cases "ev_reason b") (auto simp: candidate_key_def evict_order_def less_eq_prod_def)

lemma plan_candidates_order: "sorted_wrt evict_order (plan_candidates objs index params)"
proof -
  have both: "sorted_wrt evict_order cs" if "sorted (map candidate_key cs)" and "distinct (map ev_cache_key cs)" for cs
    using that by (induction cs) (auto intro: evict_order_key)
  show ?thesis
    by (rule both) (simp add: plan_candidates_def, rule plan_candidates_keys(1))
qed

section \<open>Properties\<close>

lemma plan_deletes_old:
  "list_all (\<lambda>e. list_all (\<lambda>x. x \<in> set objects \<and> \<not> is_tmp x \<and> ro_last_modified x \<le> gp_now params - gp_min_age params
          \<and> map_option pk_cache_key (parse_object_key [] (key_without_prefix (ro_key x))) = Some (ev_cache_key e)) (ev_objects e)
        \<and> (case Option.bind (index (ev_cache_key e)) us_last_accessed of None \<Rightarrow> True | Some la \<Rightarrow> la \<le> gp_now params - gp_min_age params))
     (gl_evictions (plan objects index params))
   \<and> list_all (\<lambda>x. x \<in> set objects \<and> is_tmp x \<and> ro_last_modified x \<le> gp_now params - gp_min_age params)
     (gl_junk (plan objects index params))"
proof
  show "list_all (\<lambda>e. list_all (\<lambda>x. x \<in> set objects \<and> \<not> is_tmp x \<and> ro_last_modified x \<le> gp_now params - gp_min_age params
          \<and> map_option pk_cache_key (parse_object_key [] (key_without_prefix (ro_key x))) = Some (ev_cache_key e)) (ev_objects e)
        \<and> (case Option.bind (index (ev_cache_key e)) us_last_accessed of None \<Rightarrow> True | Some la \<Rightarrow> la \<le> gp_now params - gp_min_age params))
     (gl_evictions (plan objects index params))"
    unfolding list_all_iff
  proof (intro ballI conjI)
    fix e
    assume "e \<in> set (gl_evictions (plan objects index params))"
    then obtain k g where e: "e = candidate_of index params (k, g)" and g: "group_ok (set (managed objects)) (k, g)"
        and o: "ev_last_accessed e \<le> gp_now params - gp_min_age params"
      by (rule plan_eviction_origin) (simp add: is_old_def cutoff_def)
    have ob: "ev_objects e = group_objects g" and ck: "ev_cache_key e = k"
      unfolding e by (simp_all add: candidate_of_def Let_def)
    {
      fix x
      assume x: "x \<in> set (ev_objects e)"
      have "ro_last_modified x \<le> ev_last_accessed e" using candidate_recency(1) x unfolding e by blast
      with x g ob ck o
      show "x \<in> set objects" "\<not> is_tmp x" "ro_last_modified x \<le> gp_now params - gp_min_age params"
        "map_option pk_cache_key (parse_object_key [] (key_without_prefix (ro_key x))) = Some (ev_cache_key e)"
        by (auto simp: group_ok_def managed_def)
    }
    obtain x where "x \<in> set (ev_objects e)" using g ob by (cases "group_objects g") (auto simp: group_ok_def)
    from candidate_recency(2) [OF this [unfolded e]] o ck
    show "case Option.bind (index (ev_cache_key e)) us_last_accessed of None \<Rightarrow> True | Some la \<Rightarrow> la \<le> gp_now params - gp_min_age params"
      unfolding e by (fastforce split: option.split simp: bind_eq_Some_conv)
  qed
  show "list_all (\<lambda>x. x \<in> set objects \<and> is_tmp x \<and> ro_last_modified x \<le> gp_now params - gp_min_age params)
     (gl_junk (plan objects index params))"
    by (simp add: plan_def Let_def evict_loop_junk list_all_iff)
qed

text \<open>
  What garbage collection may delete. Every object of a planned eviction is a listed object,
  is not a touch intermediate, has a store key whose cache key is the eviction's, and was
  neither modified nor (by the usage index) accessed within \<open>min_age\<close>; every junk object is a
  touch intermediate that old. So a young object is never deleted, whatever the sizes are.
\<close>
lemma gc_never_deletes_young:
  "list_all (\<lambda>e. list_all (\<lambda>x. x \<in> set objects \<and> \<not> is_tmp x \<and> ro_last_modified x \<le> gp_now params - gp_min_age params
          \<and> map_option pk_cache_key (parse_object_key [] (key_without_prefix (ro_key x))) = Some (ev_cache_key e)) (ev_objects e)
        \<and> (case Option.bind (index (ev_cache_key e)) us_last_accessed of None \<Rightarrow> True | Some la \<Rightarrow> la \<le> gp_now params - gp_min_age params))
     (gl_evictions (plan objects index params))
   \<and> list_all (\<lambda>x. x \<in> set objects \<and> is_tmp x \<and> ro_last_modified x \<le> gp_now params - gp_min_age params)
     (gl_junk (plan objects index params))"
  by (rule plan_deletes_old)

text \<open>
  C19. What garbage collection deletes and how much. The candidates are all the store's groups,
  one per cache key that a listed object outside the touch intermediates carries; the group of
  a key has the last listed pack and the last listed manifest of the key, is an orphan when one
  of them is missing, has the hits of the usage index (none when the index does not know it),
  and was last used when the index says so or one of its objects was last modified, whichever
  is later. They stand in the order of eviction: orphans before pairs, then fewer hits, then
  longer unused, then smaller cache key, and no two are equal in it. When the listed sizes sum
  to less than \<open>2^64\<close>: at or below the cap nothing is evicted; above it, the evictions are the
  shortest prefix of the old candidates in this order that brings the store down to the
  watermark, or all of them; the reported freed bytes are exactly theirs, they never exceed the
  total, and the subtraction never wraps.
\<close>
theorem gc_evicts_shortest_lfu_prefix:
  assumes "nbytes (managed objects) < 2 ^ 64"
  shows "let total = nbytes (managed objects);
             evs = gl_evictions (plan objects index params);
             cands = plan_candidates (managed objects) index params
         in distinct (map ev_cache_key cands)
          \<and> set (map ev_cache_key cands) = {k. last_listed (managed objects) k \<noteq> []}
          \<and> list_all (\<lambda>e. ev_objects e = last_listed (managed objects) (ev_cache_key e)
                \<and> ev_reason e = (if length (ev_objects e) = 2 then Lfu else Orphan)
                \<and> ev_hit_count e = (case index (ev_cache_key e) of None \<Rightarrow> 0 | Some u \<Rightarrow> us_hit_count u)
                \<and> ev_last_accessed e = Max (ro_last_modified ` set (ev_objects e)
                     \<union> set_option (Option.bind (index (ev_cache_key e)) us_last_accessed))) cands
          \<and> sorted_wrt (\<lambda>a b.
                if ev_reason a \<noteq> ev_reason b then ev_reason a = Orphan
                else if ev_hit_count a \<noteq> ev_hit_count b then ev_hit_count a < ev_hit_count b
                else if ev_last_accessed a \<noteq> ev_last_accessed b then ev_last_accessed a < ev_last_accessed b
                else ev_cache_key a < ev_cache_key b) cands
          \<and> unat (gl_freed_bytes (plan objects index params)) = ebytes evs \<and> ebytes evs \<le> total
          \<and> (if total \<le> unat (gp_max_bytes params) then evs = []
             else prefix evs (filter (is_old params) cands)
                \<and> (total - ebytes evs \<le> unat (gp_watermark_bytes params) \<or> evs = filter (is_old params) cands)
                \<and> (\<forall>as e bs. evs = as @ e # bs \<longrightarrow> unat (gp_watermark_bytes params) < total - ebytes as))"
proof -
  let ?total = "nbytes (managed objects)"
  let ?cs = "plan_candidates (managed objects) index params"
  have "ebytes (chosen params ?total ?cs) \<le> ebytes ?cs"
  proof -
    have "ebytes xs \<le> ebytes ys" if "subseq xs ys" for xs ys
      using that by (induction rule: list_emb.induct) auto
    then show ?thesis using chosen_subseq by blast
  qed
  then have "ebytes (chosen params ?total ?cs) \<le> ?total"
    using plan_candidates_bytes [of "managed objects" index params] by simp
  moreover note plan_candidates_keys [of "managed objects" index params] plan_candidates_fields [of "managed objects" index params]
    plan_candidates_order [of "managed objects" index params]
  ultimately show ?thesis
    using plan_evictions [OF assms, of index params] chosen_prefix [of params ?total ?cs]
      chosen_target [of ?total params ?cs] chosen_needed [of params ?total ?cs]
    unfolding Let_def evict_order_def by auto
qed

text \<open>A store with one cold and one hot pair of objects, for examples.\<close>

definition example_key :: "char \<Rightarrow> string" where
  "example_key c = replicate 64 c"

definition example_object :: "string \<Rightarrow> u64 \<Rightarrow> remote_object" where
  "example_object k n = \<lparr> ro_key = k, ro_size = n, ro_last_modified = 0 \<rparr>"

definition example_params :: gc_params where
  "example_params = \<lparr> gp_max_bytes = 10, gp_watermark_bytes = 8, gp_min_age = 5, gp_now = 100 \<rparr>"

definition example_store :: "remote_object list" where
  "example_store = concat (map (\<lambda>c.
     [example_object (''v3/packs/x/'' @ example_key c @ ''.tar.zst'') 6,
      example_object (''v3/manifests/x/'' @ example_key c @ ''.json'') 1]) [CHR ''a'', CHR ''b'', CHR ''c''])"

text \<open>Twenty-one bytes in three old pairs, of which the second has no hits: it and the one used least go.\<close>

definition example_index :: usage_map where
  "example_index = [example_key CHR ''a'' \<mapsto> \<lparr> us_hit_count = 5, us_last_accessed = Some 2 \<rparr>,
                    example_key CHR ''c'' \<mapsto> \<lparr> us_hit_count = 2, us_last_accessed = Some 1 \<rparr>]"

lemma example_evictions:
  "map ev_cache_key (gl_evictions (plan example_store example_index example_params)) = [example_key CHR ''b'', example_key CHR ''c'']"
  "nbytes (managed example_store) = 21"
  by code_simp+

theorem gc_evicts_shortest_lfu_prefix_witness:
  "let evs = gl_evictions (plan example_store example_index example_params)
   in map ev_cache_key evs = [example_key CHR ''b'', example_key CHR ''c'']
    \<and> unat (gl_freed_bytes (plan example_store example_index example_params)) = ebytes evs
    \<and> unat (gp_watermark_bytes example_params) < 21 - ebytes (butlast evs)"
proof -
  let ?evs = "gl_evictions (plan example_store example_index example_params)"
  have "nbytes (managed example_store) < 2 ^ 64" by (simp add: example_evictions)
  note t = gc_evicts_shortest_lfu_prefix [OF this, of example_index example_params, unfolded Let_def example_evictions(2)]
  have "?evs = butlast ?evs @ last ?evs # []" using example_evictions(1) by (intro append_butlast_last_id [symmetric]) auto
  moreover have "\<not> 21 \<le> unat (gp_max_bytes example_params)" by (simp add: example_params_def)
  ultimately show ?thesis
    using t example_evictions(1) unfolding Let_def by meson
qed

text \<open>
  C20. The byte limits are exact: for every configuration the cap is \<open>max_size_gib\<close> gibibytes and
  the watermark is the rounded-down percentage of it, with percentages above 100 taken as 100;
  none of the 64-bit operations wraps, and the watermark never exceeds the cap.
\<close>
theorem watermark_exact:
  "unat (gp_max_bytes (from_store_config s now)) = unat (so_max_size_gib s) * 2 ^ 30
   \<and> unat (gp_watermark_bytes (from_store_config s now))
       = unat (so_max_size_gib s) * 2 ^ 30 * min (unat (so_low_watermark_percent s)) 100 div 100
   \<and> gp_watermark_bytes (from_store_config s now) \<le> gp_max_bytes (from_store_config s now)"
proof -
  let ?g = "unat (so_max_size_gib s)" and ?p = "min (unat (so_low_watermark_percent s)) 100"
  let ?m = "ucast (so_max_size_gib s) * (1024 * 1024 * 1024) :: u64"
  let ?pc = "ucast (min (so_low_watermark_percent s) 100) :: u64"
  have g: "?g < 2 ^ 32" by (rule unat_lt_u32)
  have m: "unat ?m = ?g * 2 ^ 30"
    using g by (simp add: unat_word_ariths unat_ucast_up)
  have p: "unat ?pc = ?p"
    by (simp add: unat_ucast_up min_def word_le_nat_alt)
  have m62: "?g * 2 ^ 30 < 2 ^ 62" using g by simp
  define M where "M = ?g * 2 ^ 30"
  have Mb: "M < 2 ^ 62" using m62 by (simp add: M_def)
  have pb: "?p \<le> 100" by simp
  have d: "unat (?m div 100) = M div 100" and r: "unat (?m mod 100) = M mod 100"
    using m by (simp_all add: unat_div unat_mod M_def)
  have 1: "M div 100 * ?p \<le> M"
  proof -
    have "M div 100 * ?p \<le> M div 100 * 100" using pb by (rule mult_le_mono2)
    also have "\<dots> \<le> M" by simp
    finally show ?thesis .
  qed
  have a: "unat (?m div 100 * ?pc) = M div 100 * ?p"
    using d p 1 Mb by (simp add: unat_word_ariths)
  have 2: "M mod 100 * ?p \<le> 100 * 100"
    using pb by (intro mult_le_mono) simp_all
  have b: "unat (?m mod 100 * ?pc div 100) = M mod 100 * ?p div 100"
    using r p 2 by (simp add: unat_div unat_word_ariths)
  have s: "M div 100 * ?p + M mod 100 * ?p div 100 = M * ?p div 100"
  proof -
    have "M * ?p = M mod 100 * ?p + 100 * (M div 100 * ?p)"
      using mod_mult_div_eq [of M 100] by (metis add_mult_distrib mult.assoc)
    then have "M * ?p div 100 = (M mod 100 * ?p + 100 * (M div 100 * ?p)) div 100" by presburger
    then show ?thesis by simp
  qed
  have le: "M * ?p div 100 \<le> M"
  proof -
    have "M * ?p \<le> M * 100" using pb by (rule mult_le_mono2)
    then have "M * ?p div 100 \<le> M * 100 div 100" by (rule div_le_mono)
    then show ?thesis by simp
  qed
  have sum_lt: "M div 100 * ?p + M mod 100 * ?p div 100 < 2 ^ 64"
    unfolding s by (rule le_less_trans [OF le], rule less_trans [OF Mb]) simp
  have w: "unat (?m div 100 * ?pc + ?m mod 100 * ?pc div 100) = M * ?p div 100"
    unfolding s [symmetric]
    by (rule unat_add_eq [OF a b]) (use sum_lt in simp)
  show ?thesis
    using m w le by (simp add: from_store_config_def Let_def M_def word_le_nat_alt)
qed


section \<open>Object keys\<close>

text \<open>The key layout the documentation of \<open>parse_object_key\<close> gives.\<close>

fun kind_dir :: "object_kind \<Rightarrow> string" where
  "kind_dir Pack = ''packs''"
| "kind_dir Manifest = ''manifests''"

definition render_rel :: "object_kind \<Rightarrow> string \<Rightarrow> string \<Rightarrow> string" where
  "render_rel kind crate_name cache_key =
     ''v3/'' @ kind_dir kind @ ''/'' @ crate_name @ ''/'' @ cache_key @ kind_suffix kind"

definition render_key :: "string \<Rightarrow> object_kind \<Rightarrow> string \<Rightarrow> string \<Rightarrow> string" where
  "render_key pre kind crate_name cache_key =
     (if pre = [] then [] else pre @ ''/'') @ render_rel kind crate_name cache_key"

definition wf_crate :: "string \<Rightarrow> bool" where
  "wf_crate c \<longleftrightarrow> c \<noteq> [] \<and> CHR ''/'' \<notin> set c"

definition wf_cache_key :: "string \<Rightarrow> bool" where
  "wf_cache_key h \<longleftrightarrow> length h = 64 \<and> list_all is_hex h"

lemma wf_cache_key_slash: "wf_cache_key h \<Longrightarrow> CHR ''/'' \<notin> set h"
  by (auto simp: wf_cache_key_def list_all_iff is_hex_def is_digit_def less_eq_char_def)

lemma kind_suffix_slash: "CHR ''/'' \<notin> set (kind_suffix k)"
  by (cases k) auto

lemma kind_dir_slash: "CHR ''/'' \<notin> set (kind_dir k)"
  by (cases k) auto

lemma kind_of_dir_inv [simp]: "kind_of_dir (kind_dir k) = Some k"
  by (cases k) (auto simp: kind_of_dir_def)

lemma split_render_rel:
  assumes "wf_crate c" and "wf_cache_key h"
  shows "split_by (\<lambda>x. x = CHR ''/'') (render_rel k c h) = [''v3'', kind_dir k, c, h @ kind_suffix k]"
proof -
  have "render_rel k c h = ''v3'' @ CHR ''/'' # (kind_dir k @ CHR ''/'' # (c @ CHR ''/'' # (h @ kind_suffix k)))"
    by (simp add: render_rel_def)
  moreover have "split_by (\<lambda>x. x = CHR ''/'') (h @ kind_suffix k) = [h @ kind_suffix k]"
    using wf_cache_key_slash [OF assms(2)] kind_suffix_slash [of k] by (intro split_by_none) auto
  ultimately show ?thesis
    using assms(1) kind_dir_slash [of k]
    by (simp only: split_by_append) (subst split_by_append | force simp: wf_crate_def)+
qed

lemma parse_render_rel:
  assumes "wf_crate c" and "wf_cache_key h"
  shows "parse_object_key [] (render_rel k c h)
           = Some \<lparr> pk_kind = k, pk_crate_name = c, pk_cache_key = h \<rparr>"
  using assms split_render_rel [OF assms, of k]
  by (simp add: parse_object_key_def wf_crate_def wf_cache_key_def)

lemma parse_render_key:
  assumes "wf_crate c" and "wf_cache_key h"
  shows "parse_object_key pre (render_key pre k c h)
           = Some \<lparr> pk_kind = k, pk_crate_name = c, pk_cache_key = h \<rparr>"
  using parse_render_rel [OF assms, of k]
  by (cases "pre = []") (simp_all add: parse_object_key_def render_key_def)

lemma parse_too_deep:
  assumes "4 \<le> length (filter (\<lambda>x. x = CHR ''/'') rel)"
  shows "parse_object_key [] rel = None"
proof -
  have "5 \<le> length (split_by (\<lambda>x. x = CHR ''/'') rel)"
    using assms by (simp add: length_split_by)
  then show ?thesis
    by (auto simp: parse_object_key_def split: list.splits)
qed

lemma render_rel_depth: "3 \<le> length (filter (\<lambda>x. x = CHR ''/'') (render_rel k c h))"
  by (simp add: render_rel_def)

lemma length_filter_mem: "x \<in> set xs \<Longrightarrow> 1 \<le> length (filter (\<lambda>y. y = x) xs)"
  by (induction xs) auto

text \<open>A marker inside the prefix is found first and leaves too many path components.\<close>

lemma key_without_prefix_hidden:
  assumes "pre \<noteq> []" and "contains ''v3/'' (pre @ ''/'')"
  shows "parse_object_key [] (key_without_prefix (render_key pre k c h)) = None"
proof (rule parse_too_deep)
  let ?p = "pre @ ''/''" and ?r = "render_rel k c h"
  obtain n where n: "find_sub ''v3/'' ?p = Some n"
    using assms(2) by (auto simp: contains_def)
  have sw: "starts_with ''v3/'' (drop n ?p)" and least: "\<forall>m < n. \<not> starts_with ''v3/'' (drop m ?p)"
    using n by (auto simp: find_sub_Some)
  have len: "n + 3 \<le> length ?p" using starts_with_length [OF sw] by simp
  have "find_sub ''v3/'' (?p @ ?r) = Some n"
    unfolding find_sub_Some
  proof (intro conjI allI impI)
    show "n \<le> length (?p @ ?r)" using len by simp
    show "starts_with ''v3/'' (drop n (?p @ ?r))"
      using starts_with_appendI [OF sw, of ?r] len by simp
    fix m assume m: "m < n"
    then have "3 \<le> length (drop m ?p)" using len by simp
    with m least show "\<not> starts_with ''v3/'' (drop m (?p @ ?r))"
      using starts_with_append_short [of "''v3/''" "drop m ?p" ?r] len by simp
  qed
  then have *: "key_without_prefix (?p @ ?r) \<in> {drop n ?p @ ?r, ?p @ ?r}"
    using len by (auto simp: key_without_prefix_def)
  have slash: "CHR ''/'' \<in> set (drop n ?p)"
    using len by simp
  then have 1: "1 \<le> length (filter (\<lambda>x. x = CHR ''/'') (drop n ?p))"
    by (rule length_filter_mem)
  have "4 \<le> length (filter (\<lambda>x. x = CHR ''/'') (drop n ?p @ ?r))"
    using 1 render_rel_depth [of k c h] unfolding filter_append length_append by linarith
  moreover have "4 \<le> length (filter (\<lambda>x. x = CHR ''/'') (?p @ ?r))"
    using render_rel_depth [of k c h] by simp
  ultimately show "4 \<le> length (filter (\<lambda>x. x = CHR ''/'') (key_without_prefix (render_key pre k c h)))"
    using * assms(1) by (auto simp: render_key_def)
qed

lemma key_without_prefix_found:
  assumes "\<not> contains ''v3/'' (pre @ ''/'')"
  shows "key_without_prefix (render_key pre k c h) = render_rel k c h"
proof -
  let ?r = "render_rel k c h"
  have r: "starts_with ''v3/'' ?r" by (simp add: render_rel_def starts_with_def)
  show ?thesis
  proof (cases "pre = []")
    case True
    have "find_sub ''v3/'' ?r = Some 0" using r by (simp add: find_sub_Some)
    then show ?thesis using True by (simp add: render_key_def key_without_prefix_def)
  next
    case False
    let ?p = "pre @ ''/''"
    have none: "\<not> starts_with ''v3/'' (drop m ?p)" if "m \<le> length ?p" for m
      using assms that by (auto simp: contains_def find_sub_None)
    have "find_sub ''v3/'' (?p @ ?r) = Some (length ?p)"
      unfolding find_sub_Some
    proof (intro conjI allI impI)
      show "length ?p \<le> length (?p @ ?r)" by simp
      show "starts_with ''v3/'' (drop (length ?p) (?p @ ?r))" using r by simp
      fix m assume m: "m < length ?p"
      consider "m + 3 \<le> length ?p" | "m = length pre" | "Suc m = length pre"
        using m by fastforce
      then show "\<not> starts_with ''v3/'' (drop m (?p @ ?r))"
      proof cases
        case 1
        then show ?thesis
          using none [of m] starts_with_append_short [of "''v3/''" "drop m ?p" ?r] m by simp
      next
        case 2
        then show ?thesis by (simp add: starts_with_def)
      next
        case 3
        then have "drop m pre = [last pre]"
          by (metis Suc_leI append_butlast_last_id append_eq_conv_conj diff_Suc_1 length_butlast lessI list.size(3) nat.distinct(1))
        with 3 show ?thesis by (simp add: starts_with_def)
      qed
    qed
    then show ?thesis
      using False by (simp add: render_key_def key_without_prefix_def nth_append)
  qed
qed

text \<open>
  C21. Object keys. A key built from the documented layout parses back to its kind, crate and
  cache key under its store prefix. The planner, which does not know the prefix, recognises the
  same key exactly when the prefix followed by \<open>/\<close> does not contain \<open>v3/\<close>: under a prefix such
  as \<open>kachev3\<close> no object is ever recognised, so none is ever evicted.
\<close>
theorem object_key_round_trip:
  assumes "wf_crate c" and "wf_cache_key h"
  shows "parse_object_key pre (render_key pre k c h)
           = Some \<lparr> pk_kind = k, pk_crate_name = c, pk_cache_key = h \<rparr>
         \<and> parse_object_key [] (key_without_prefix (render_key pre k c h))
             = (if pre \<noteq> [] \<and> contains ''v3/'' (pre @ ''/'') then None
                else Some \<lparr> pk_kind = k, pk_crate_name = c, pk_cache_key = h \<rparr>)"
proof -
  have "\<not> contains ''v3/'' ([] @ ''/'')" by (simp add: contains_def starts_with_def)
  then show ?thesis
    using parse_render_key [OF assms, of pre k] parse_render_rel [OF assms, of k]
      key_without_prefix_hidden [of pre k c h] key_without_prefix_found [of pre k c h]
    by auto
qed

theorem object_key_round_trip_witness:
  "parse_object_key [] (key_without_prefix (render_key ''kache'' Pack ''serde'' (example_key CHR ''a'')))
     = Some \<lparr> pk_kind = Pack, pk_crate_name = ''serde'', pk_cache_key = example_key CHR ''a'' \<rparr>
   \<and> parse_object_key [] (key_without_prefix (render_key ''kachev3'' Pack ''serde'' (example_key CHR ''a''))) = None"
proof -
  have c: "wf_crate ''serde''" by (simp add: wf_crate_def)
  have h: "wf_cache_key (example_key CHR ''a'')"
    by (simp add: wf_cache_key_def example_key_def is_hex_def list_all_iff less_eq_char_def)
  show ?thesis
    using object_key_round_trip [OF c h, of "''kache''" Pack] object_key_round_trip [OF c h, of "''kachev3''" Pack]
    by (simp add: contains_def starts_with_def)
qed

end
