(* ===== verification/Store.thy ===== *)
theory Store
  imports Planner Sync
begin

text \<open>
  The shared object store at work: listing and executing a plan (\<open>gc.rs\<close>), touching a
  workspace's objects (\<open>touch.rs\<close>), credentials (\<open>creds.rs\<close>), kache's configuration
  (\<open>kache_cfg.rs\<close>), the usage index (\<open>index.rs\<close>) and the two runs of \<open>lib.rs\<close>, in
  \<open>crates/rbs-store\<close>.

  The S3 client is the crate \<open>object_store\<close>: its three operations are the record
  \<open>object_store\<close> over an unspecified state, and what the code relies on is the hypothesis
  \<open>store_laws\<close>, stated for a view \<open>data\<close> of the state as a map from keys to contents. An
  operation that reports an error may still have taken effect. The order in which concurrent
  deletions complete, and those still in flight when an error ends the run, are arguments; the
  requests of concurrent touches are interleaved by a schedule, in which other machines act too.

  The code hands keys to the client as \<open>ObjPath::from(key)\<close>, which percent-encodes the
  characters an object path may not contain. \<open>os_copy\<close> and \<open>os_delete\<close> stand for the whole call,
  conversion included, so \<open>store_laws\<close> describes a store whose keys need no encoding: with a key
  that does, the listed key and the requested one differ.
\<close>

section \<open>The object store\<close>

datatype 'e store_error = SNotFound | SOther 'e

record ('st, 'e) object_store =
  os_list :: "string option \<Rightarrow> 'st \<Rightarrow> (remote_object list, 'e store_error) result"
  os_copy :: "string \<Rightarrow> string \<Rightarrow> 'st \<Rightarrow> (unit, 'e store_error) result \<times> 'st"
  os_delete :: "string \<Rightarrow> 'st \<Rightarrow> (unit, 'e store_error) result \<times> 'st"

definition copied :: "('st \<Rightarrow> string \<rightharpoonup> 'd) \<Rightarrow> string \<Rightarrow> string \<Rightarrow> 'st \<Rightarrow> 'st \<Rightarrow> bool" where
  "copied data a b s s' \<longleftrightarrow> (\<exists>d. data s a = Some d \<and> data s' = (data s)(b \<mapsto> d))"

definition store_laws :: "('st, 'e) object_store \<Rightarrow> ('st \<Rightarrow> string \<rightharpoonup> 'd) \<Rightarrow> bool" where
  "store_laws S data \<longleftrightarrow>
     (\<forall>a b s r s'. os_copy S a b s = (r, s') \<longrightarrow>
        (if is_ok r then copied data a b s s' else data s' = data s \<or> copied data a b s s'))
   \<and> (\<forall>k s r s'. os_delete S k s = (r, s') \<longrightarrow>
        (if is_ok r \<or> r = Err SNotFound then data s' = (data s)(k := None)
         else data s' = data s \<or> data s' = (data s)(k := None)))"

section \<open>Garbage collection (\<open>gc.rs\<close>)\<close>

datatype 'e gc_error = GcList "'e store_error" | GcDelete string 'e

definition list_objects ::
  "('st, 'e) object_store \<Rightarrow> string option \<Rightarrow> 'st \<Rightarrow> (remote_object list, 'e gc_error) result" where
  "list_objects S pre s = and_then (map_err GcList (os_list S pre s)) (\<lambda>out. Ok (sort_key ro_key out))"

definition num_hours :: "time \<Rightarrow> int" where
  "num_hours d = (if d < 0 then - ((- d) div hours 1) else d div hours 1)"

fun show_reason :: "evict_reason \<Rightarrow> string" where
  "show_reason Orphan = ''Orphan''"
| "show_reason Lfu = ''Lfu''"

text \<open>\<open>mib\<close> writes a size with one decimal.\<close>

definition format_plan :: "(u64 \<Rightarrow> string) \<Rightarrow> gc_plan \<Rightarrow> time \<Rightarrow> string" where
  "format_plan mib pl now =
     concat (map (\<lambda>e. concat (map (\<lambda>ob.
         ''evict '' @ ev_crate_name e @ '' '' @ take 12 (ev_cache_key e) @ '' '' @ mib (ro_size ob) @ '' MiB hits=''
         @ show_int (ev_hit_count e) @ '' age='' @ show_int (num_hours (now - ro_last_modified ob)) @ ''h (''
         @ show_reason (ev_reason e) @ '')'' @ [NL]) (ev_objects e))) (gl_evictions pl))
     @ concat (map (\<lambda>ob. ''junk '' @ ro_key ob @ '' age='' @ show_int (num_hours (now - ro_last_modified ob)) @ ''h'' @ [NL])
         (gl_junk pl))"

record gc_report =
  gr_scanned :: u64
  gr_total_bytes :: u64
  gr_evicted :: u64
  gr_freed_bytes :: u64
  gr_skipped_young :: u64
  gr_junk_deleted :: u64

definition gc_report_default :: gc_report where
  "gc_report_default = \<lparr> gr_scanned = 0, gr_total_bytes = 0, gr_evicted = 0, gr_freed_bytes = 0,
     gr_skipped_young = 0, gr_junk_deleted = 0 \<rparr>"

definition planned_keys :: "gc_plan \<Rightarrow> string list" where
  "planned_keys pl = concat (map (\<lambda>e. map ro_key (ev_objects e)) (gl_evictions pl)) @ map ro_key (gl_junk pl)"

text \<open>Deletions in the order they complete; an object already gone is fine.\<close>

fun delete_all ::
  "('st, 'e) object_store \<Rightarrow> string list \<Rightarrow> 'st \<Rightarrow> (unit, 'e gc_error) result \<times> 'st" where
  "delete_all S [] s = (Ok (), s)"
| "delete_all S (k # ks) s =
     (case os_delete S k s of
        (Inr _, s') \<Rightarrow> delete_all S ks s'
      | (Inl SNotFound, s') \<Rightarrow> delete_all S ks s'
      | (Inl (SOther e), s') \<Rightarrow> (Err (GcDelete k e), s'))"

definition delete_in_flight :: "('st, 'e) object_store \<Rightarrow> string list \<Rightarrow> 'st \<Rightarrow> 'st" where
  "delete_in_flight S ks s = foldl (\<lambda>s k. snd (os_delete S k s)) s ks"

text \<open>The text a dry run prints is the second component.\<close>

definition execute_plan ::
  "('st, 'e) object_store \<Rightarrow> (u64 \<Rightarrow> string) \<Rightarrow> (string list \<Rightarrow> string list) \<Rightarrow> string list \<Rightarrow> gc_plan \<Rightarrow> bool \<Rightarrow> time
     \<Rightarrow> 'st \<Rightarrow> (gc_report, 'e gc_error) result \<times> string \<times> 'st" where
  "execute_plan S mib order in_flight pl dry_run now s =
     (let report = \<lparr> gr_scanned = gl_scanned pl, gr_total_bytes = gl_total_bytes pl,
                     gr_evicted = sum_list (map (\<lambda>e. of_nat (length (ev_objects e))) (gl_evictions pl)),
                     gr_freed_bytes = gl_freed_bytes pl, gr_skipped_young = gl_skipped_young pl,
                     gr_junk_deleted = of_nat (length (gl_junk pl)) \<rparr>
      in if dry_run then (Ok report, format_plan mib pl now, s)
         else (case delete_all S (order (planned_keys pl)) s of
                 (Inr _, s') \<Rightarrow> (Ok report, [], s')
               | (Inl e, s') \<Rightarrow> (Err e, [], delete_in_flight S (filter (\<lambda>k. k \<in> set (planned_keys pl)) in_flight) s')))"

section \<open>Credentials (\<open>creds.rs\<close>)\<close>

definition ENV_ACCESS_KEY :: string where "ENV_ACCESS_KEY = ''KACHE_S3_ACCESS_KEY''"
definition ENV_SECRET_KEY :: string where "ENV_SECRET_KEY = ''KACHE_S3_SECRET_KEY''"

datatype creds_error = CrMissing string path | CrIncomplete string path string

record credentials =
  cr_access_key :: string
  cr_secret_key :: string

record profile_state =
  ps_in_section :: bool
  ps_found :: bool
  ps_access :: "string option"
  ps_secret :: "string option"

definition profile_line :: "string \<Rightarrow> string \<Rightarrow> profile_state \<Rightarrow> profile_state" where
  "profile_line header raw st =
     (let line = trim raw in
      if starts_with ''['' line then
        st\<lparr>ps_in_section := (line = header), ps_found := (ps_found st \<or> line = header)\<rparr>
      else if \<not> ps_in_section st then st
      else case split_once_by (\<lambda>c. c = CHR ''='') line of
        None \<Rightarrow> st
      | Some (k, v) \<Rightarrow>
          (if trim k = ''aws_access_key_id'' \<and> trim v \<noteq> [] then st\<lparr>ps_access := Some (trim v)\<rparr>
           else if trim k = ''aws_secret_access_key'' \<and> trim v \<noteq> [] then st\<lparr>ps_secret := Some (trim v)\<rparr>
           else st))"

definition profile_keys :: "string \<Rightarrow> string \<Rightarrow> (string option \<times> string option) option" where
  "profile_keys text profile =
     (let st = foldl (\<lambda>st l. profile_line (''['' @ profile @ '']'') l st)
                 \<lparr> ps_in_section = False, ps_found = False, ps_access = None, ps_secret = None \<rparr> (lines text)
      in if ps_found st then Some (ps_access st, ps_secret st) else None)"

definition resolve_credentials ::
  "(string \<Rightarrow> string option) \<Rightarrow> string option \<Rightarrow> path \<Rightarrow> string \<Rightarrow> (credentials, creds_error) result" where
  "resolve_credentials env credentials_file credentials_path profile =
     (let non_empty = (\<lambda>k. option_filter (\<lambda>v. v \<noteq> []) (env k)) in
      case (non_empty ENV_ACCESS_KEY, non_empty ENV_SECRET_KEY) of
        (Some access_key, Some secret_key) \<Rightarrow> Ok \<lparr> cr_access_key = access_key, cr_secret_key = secret_key \<rparr>
      | _ \<Rightarrow>
          and_then (ok_or (CrMissing profile credentials_path) credentials_file) (\<lambda>text.
          and_then (ok_or (CrMissing profile credentials_path) (profile_keys text profile)) (\<lambda>keys.
          and_then (ok_or (CrIncomplete profile credentials_path ''aws_access_key_id'') (fst keys)) (\<lambda>access_key.
          and_then (ok_or (CrIncomplete profile credentials_path ''aws_secret_access_key'') (snd keys)) (\<lambda>secret_key.
            Ok \<lparr> cr_access_key = access_key, cr_secret_key = secret_key \<rparr>)))))"

section \<open>kache's configuration (\<open>kache_cfg.rs\<close>)\<close>

datatype 'io kache_config_error =
    KcRead path 'io | KcParse path string | KcMissingRemote path | KcNotS3 path string | KcMissingBucket path

record remote_store =
  rs_bucket :: string
  rs_endpoint :: "string option"
  rs_region :: "string option"
  rs_profile :: "string option"
  rs_prefix :: "string option"

record remote_section =
  rc_kind :: "string option"
  rc_bucket :: "string option"
  rc_endpoint :: "string option"
  rc_region :: "string option"
  rc_profile :: "string option"
  rc_prefix :: "string option"

text \<open>Deserialising the file: its optional \<open>[cache]\<close> table with the optional \<open>[cache.remote]\<close>.\<close>

type_synonym kache_deser = "string \<Rightarrow> (remote_section option option, string) result"

definition parse_kache_config :: "kache_deser \<Rightarrow> path \<Rightarrow> string \<Rightarrow> (remote_store, 'io kache_config_error) result" where
  "parse_kache_config deser p text =
     and_then (map_err (KcParse p) (deser text)) (\<lambda>file.
     and_then (ok_or (KcMissingRemote p) (Option.bind file id)) (\<lambda>remote.
       (let kind = unwrap_or [] (rc_kind remote) in
        if kind \<noteq> ''s3'' then Err (KcNotS3 p kind)
        else and_then (ok_or (KcMissingBucket p) (option_filter (\<lambda>b. b \<noteq> []) (rc_bucket remote))) (\<lambda>bucket.
          Ok \<lparr> rs_bucket = bucket, rs_endpoint = rc_endpoint remote, rs_region = rc_region remote,
               rs_profile = rc_profile remote, rs_prefix = rc_prefix remote \<rparr>))))"

definition load_kache_config ::
  "kache_deser \<Rightarrow> (path \<Rightarrow> 'io file_read) \<Rightarrow> 'io \<Rightarrow> path \<Rightarrow> (remote_store, 'io kache_config_error) result" where
  "load_kache_config deser fs enoent p =
     (case fs p of
        FileText text \<Rightarrow> parse_kache_config deser p text
      | FileNotFound \<Rightarrow> Err (KcRead p enoent)
      | FileError e \<Rightarrow> Err (KcRead p e))"

section \<open>The usage index (\<open>index.rs\<close>)\<close>

text \<open>The rows sqlite returns; \<open>parse_datetime\<close> is \<open>chrono\<close>'s.\<close>

type_synonym index_row = "string \<times> i64 \<times> string option"

datatype 'q index_error = IxOpen path 'q | IxQuery path 'q

fun index_rows ::
  "(string \<Rightarrow> time option) \<Rightarrow> path \<Rightarrow> (index_row, 'q) result list \<Rightarrow> usage_map \<Rightarrow> (usage_map, 'q index_error) result" where
  "index_rows parse_datetime p [] m = Ok m"
| "index_rows parse_datetime p (Inl e # rows) m = Err (IxQuery p e)"
| "index_rows parse_datetime p (Inr (k, hits, la) # rows) m =
     index_rows parse_datetime p rows
       (m(k \<mapsto> \<lparr> us_hit_count = hits, us_last_accessed = Option.bind la parse_datetime \<rparr>))"

definition load_index ::
  "(string \<Rightarrow> time option) \<Rightarrow> (path \<Rightarrow> (((index_row, 'q) result list, 'q) result, 'q) result) \<Rightarrow> path
     \<Rightarrow> (usage_map, 'q index_error) result" where
  "load_index parse_datetime query p =
     and_then (map_err (IxOpen p) (query p)) (\<lambda>rows.
     and_then (map_err (IxQuery p) rows) (\<lambda>rs. index_rows parse_datetime p rs Map.empty))"

definition load_index_or_empty ::
  "(string \<Rightarrow> time option) \<Rightarrow> (path \<Rightarrow> bool) \<Rightarrow> (path \<Rightarrow> (((index_row, 'q) result list, 'q) result, 'q) result) \<Rightarrow> path
     \<Rightarrow> usage_map" where
  "load_index_or_empty parse_datetime exists query p =
     (if \<not> exists p then Map.empty
      else case load_index parse_datetime query p of Inr m \<Rightarrow> m | Inl e \<Rightarrow> Map.empty)"

section \<open>Touching (\<open>touch.rs\<close>)\<close>

definition parse_cargo_lock :: "(string \<Rightarrow> (string list, string) result) \<Rightarrow> string \<Rightarrow> (string list, string) result" where
  "parse_cargo_lock deser text = and_then (deser text) (\<lambda>names. Ok (sort (remdups names)))"

definition crate_prefixes :: "string option \<Rightarrow> string \<Rightarrow> string list" where
  "crate_prefixes store_prefix crate_name =
     (let base = (case store_prefix of Some p \<Rightarrow> p @ ''/'' | None \<Rightarrow> []);
          normalized = replace_char (CHR ''-'') ''_'' crate_name;
          variants = crate_name # (if normalized \<noteq> crate_name then [normalized] else [])
      in concat (map (\<lambda>v. [base @ ''v3/manifests/'' @ v, base @ ''v3/packs/'' @ v]) variants))"

definition fnv1a64 :: "u8 list \<Rightarrow> u64" where
  "fnv1a64 = foldl (\<lambda>hash b. xor hash (ucast b) * 0x100000001b3) 0xcbf29ce484222325"

definition hex_digit :: "nat \<Rightarrow> char" where
  "hex_digit n = (if n < 10 then char_of (48 + n) else char_of (87 + n))"

definition hex16 :: "u64 \<Rightarrow> string" where
  "hex16 w = map (\<lambda>i. hex_digit (unat w div 16 ^ i mod 16)) (rev [0..<16])"

definition stamp_path :: "path \<Rightarrow> path \<Rightarrow> path" where
  "stamp_path cache_dir ws_root =
     path_join cache_dir (''rbs/touch/'' @ hex16 (fnv1a64 (map (\<lambda>c. of_nat (of_char c)) ws_root)) @ ''.stamp'')"

definition stamp_is_fresh :: "time \<Rightarrow> time \<Rightarrow> time \<Rightarrow> bool" where
  "stamp_is_fresh mtime now max_age \<longleftrightarrow> (if mtime \<le> now then now - mtime < max_age else True)"

definition stamp_fresh_on_disk :: "(path \<Rightarrow> time option) \<Rightarrow> path \<Rightarrow> time \<Rightarrow> time \<Rightarrow> bool" where
  "stamp_fresh_on_disk mtime_of stamp now max_age \<longleftrightarrow>
     (case mtime_of stamp of Some m \<Rightarrow> stamp_is_fresh m now max_age | None \<Rightarrow> False)"

record touch_plan =
  tp_touch :: "string list"
  tp_skipped_fresh :: u64

definition plan_touch :: "remote_object list \<Rightarrow> time \<Rightarrow> touch_plan" where
  "plan_touch objects limit =
     (let managed = filter (\<lambda>obj. \<not> is_tmp obj) objects in
      \<lparr> tp_touch = sort (map ro_key (filter (\<lambda>obj. ro_last_modified obj \<le> limit) managed)),
        tp_skipped_fresh = of_nat (length (filter (\<lambda>obj. \<not> ro_last_modified obj \<le> limit) managed)) \<rparr>)"

fun list_prefixes ::
  "('st, 'e) object_store \<Rightarrow> string list \<Rightarrow> 'st \<Rightarrow> (remote_object list, 'e gc_error) result" where
  "list_prefixes S [] s = Ok []"
| "list_prefixes S (p # ps) s =
     and_then (list_objects S (Some p) s) (\<lambda>l. and_then (list_prefixes S ps s) (\<lambda>ls. Ok (l @ ls)))"

datatype touch_outcome = Touched | Gone | Failed

text \<open>
  \<open>touch_one\<close> makes its requests one after the other. Between two of them the other touches in
  flight and other machines act on the store, so the model takes it request by request: the
  next request of a touch, and what it does.
\<close>

datatype 'e touch_request = CopyOut | CopyBack | RemoveTmp "(unit, 'e store_error) result"

fun touch_one ::
  "('st, 'e) object_store \<Rightarrow> string \<Rightarrow> 'e touch_request \<Rightarrow> 'st \<Rightarrow> ('e touch_request + touch_outcome) \<times> 'st" where
  "touch_one S key CopyOut s =
     (case os_copy S key (key @ TOUCH_TMP_SUFFIX) s of
        (Inr _, s') \<Rightarrow> (Inl CopyBack, s')
      | (Inl SNotFound, s') \<Rightarrow> (Inr Gone, s')
      | (Inl (SOther e), s') \<Rightarrow> (Inr Failed, s'))"
| "touch_one S key CopyBack s =
     (case os_copy S (key @ TOUCH_TMP_SUFFIX) key s of (back, s') \<Rightarrow> (Inl (RemoveTmp back), s'))"
| "touch_one S key (RemoveTmp back) s =
     (Inr (case back of Inr _ \<Rightarrow> Touched | Inl SNotFound \<Rightarrow> Gone | Inl (SOther e) \<Rightarrow> Failed),
      snd (os_delete S (key @ TOUCH_TMP_SUFFIX) s))"

definition TOUCH_CONCURRENCY :: nat where "TOUCH_CONCURRENCY = 8"

text \<open>
  \<open>buffer_unordered\<close>: up to \<open>TOUCH_CONCURRENCY\<close> touches are in flight, the keys enter in order,
  and which of those in flight makes the next request is up to the network. A schedule says so
  (counting round the ones in flight) and says when other machines act; where it ends, the
  oldest touch goes on.
\<close>

datatype 'st touch_event = Turn nat | Others "'st \<Rightarrow> 'st"

definition touch_turn ::
  "('st, 'e) object_store \<Rightarrow> nat \<Rightarrow> (string \<times> 'e touch_request) list \<Rightarrow> 'st
     \<Rightarrow> (string \<times> 'e touch_request) list \<times> touch_outcome list \<times> 'st" where
  "touch_turn S i flight s =
     (let j = i mod length flight; (key, req) = flight ! j in
      case touch_one S key req s of
        (Inl nxt, s') \<Rightarrow> (flight[j := (key, nxt)], [], s')
      | (Inr oc, s') \<Rightarrow> (take j flight @ drop (Suc j) flight, [oc], s'))"

fun requests_left :: "'e touch_request \<Rightarrow> nat" where
  "requests_left CopyOut = 3"
| "requests_left CopyBack = 2"
| "requests_left (RemoveTmp back) = 1"

definition flight_work :: "(string \<times> 'e touch_request) list \<Rightarrow> nat" where
  "flight_work flight = sum_list (map (requests_left \<circ> snd) flight)"

lemma flight_work_simps [simp]:
  "flight_work [] = 0" "flight_work (kr # fl) = requests_left (snd kr) + flight_work fl"
  "flight_work (fl @ fl') = flight_work fl + flight_work fl'"
  by (simp_all add: flight_work_def)

lemma flight_work_new: "flight_work (map (\<lambda>k. (k, CopyOut)) ks) = 3 * length ks"
  by (induction ks) simp_all

lemma touch_one_progress: "touch_one S key req s = (Inl nxt, s') \<Longrightarrow> requests_left nxt < requests_left req"
  by (cases req) (auto split: prod.splits sum.splits store_error.splits)

lemma requests_left_pos [simp]: "0 < requests_left req"
  by (cases req) simp_all

text \<open>One turn is one request of one touch in flight.\<close>

lemma touch_turn_cases:
  assumes "touch_turn S i flight s = (flight', ocs, s')" and "flight \<noteq> []"
  obtains as key req bs where "flight = as @ (key, req) # bs" and "s' = snd (touch_one S key req s)"
    and "(\<exists>nxt. touch_one S key req s = (Inl nxt, s') \<and> flight' = as @ (key, nxt) # bs \<and> ocs = [])
       \<or> (\<exists>oc. touch_one S key req s = (Inr oc, s') \<and> flight' = as @ bs \<and> ocs = [oc])"
proof -
  define j where "j = i mod length flight"
  have j: "j < length flight" using assms(2) by (simp add: j_def)
  obtain key req where kr: "flight ! j = (key, req)" by force
  have split: "flight = take j flight @ (key, req) # drop (Suc j) flight"
    using id_take_nth_drop [OF j] kr by simp
  show thesis
  proof (rule that [OF split])
    show "s' = snd (touch_one S key req s)"
      using assms(1) kr by (auto simp: touch_turn_def j_def [symmetric] split: prod.splits sum.splits)
    show "(\<exists>nxt. touch_one S key req s = (Inl nxt, s') \<and> flight' = take j flight @ (key, nxt) # drop (Suc j) flight \<and> ocs = [])
       \<or> (\<exists>oc. touch_one S key req s = (Inr oc, s') \<and> flight' = take j flight @ drop (Suc j) flight \<and> ocs = [oc])"
      using assms(1) kr j
      by (auto simp: touch_turn_def j_def [symmetric] upd_conv_take_nth_drop split: prod.splits sum.splits)
  qed
qed

lemma touch_turn_progress:
  assumes "touch_turn S i flight s = (flight', ocs, s')" and "flight \<noteq> []"
  shows "flight_work flight' < flight_work flight"
proof -
  obtain as key req bs where "flight = as @ (key, req) # bs"
    and "(\<exists>nxt. touch_one S key req s = (Inl nxt, s') \<and> flight' = as @ (key, nxt) # bs \<and> ocs = [])
       \<or> (\<exists>oc. touch_one S key req s = (Inr oc, s') \<and> flight' = as @ bs \<and> ocs = [oc])"
    by (rule touch_turn_cases [OF assms])
  then show ?thesis by (auto dest: touch_one_progress)
qed

lemma refill_progress:
  assumes "fly = flight @ map (\<lambda>k. (k, CopyOut)) (take n waiting)" and "fly \<noteq> []" and "(fl, r) = touch_turn S i fly s"
  shows "flight_work fl + 3 * length (drop n waiting) < flight_work flight + 3 * length waiting"
proof -
  have "flight_work fl < flight_work fly"
    using assms(2,3) by (cases r) (metis touch_turn_progress)
  then show ?thesis using assms(1) by (simp add: flight_work_new)
qed

function touch_loop ::
  "('st, 'e) object_store \<Rightarrow> 'st touch_event list \<Rightarrow> (string \<times> 'e touch_request) list \<Rightarrow> string list \<Rightarrow> 'st
     \<Rightarrow> touch_outcome list \<times> 'st" where
  "touch_loop S sched flight waiting s =
     (let n = TOUCH_CONCURRENCY - length flight;
          flight1 = flight @ map (\<lambda>k. (k, CopyOut)) (take n waiting);
          waiting1 = drop n waiting
      in if flight1 = [] then ([], s)
         else (case sched of
             Others e # rest \<Rightarrow> touch_loop S rest flight1 waiting1 (e s)
           | Turn i # rest \<Rightarrow>
               (case touch_turn S i flight1 s of (flight2, ocs, s') \<Rightarrow>
                  (case touch_loop S rest flight2 waiting1 s' of (ocs', s'') \<Rightarrow> (ocs @ ocs', s'')))
           | [] \<Rightarrow>
               (case touch_turn S 0 flight1 s of (flight2, ocs, s') \<Rightarrow>
                  (case touch_loop S [] flight2 waiting1 s' of (ocs', s'') \<Rightarrow> (ocs @ ocs', s'')))))"
  by pat_completeness auto

termination
proof (relation "measure (\<lambda>(S, sched, flight, waiting, s). length sched + flight_work flight + 3 * length waiting)", goal_cases)
  case (2 S sched flight waiting s n flight1 waiting1 fl r ocs s')
  then show ?case using refill_progress [of flight1 flight n waiting fl r S 0 s] by simp
next
  case (3 S sched flight waiting s n flight1 waiting1 ev rest i fl r ocs s')
  then show ?case using refill_progress [of flight1 flight n waiting fl r S i s] by simp
next
  case (4 S sched flight waiting s n flight1 waiting1 ev rest e)
  then show ?case by (simp add: flight_work_new)
qed simp

declare touch_loop.simps [simp del]

definition execute_touch ::
  "('st, 'e) object_store \<Rightarrow> 'st touch_event list \<Rightarrow> string list \<Rightarrow> 'st \<Rightarrow> (u64 \<times> u64) \<times> 'st" where
  "execute_touch S sched keys s =
     (case touch_loop S sched [] keys s of
        (ocs, s') \<Rightarrow> ((of_nat (length (filter (\<lambda>x. x = Touched) ocs)), of_nat (length (filter (\<lambda>x. x = Failed) ocs))), s'))"

section \<open>Runs (\<open>lib.rs\<close>)\<close>

record store_paths =
  sp_kache_config :: path
  sp_aws_credentials :: path
  sp_index_db :: path
  sp_cache_dir :: path

text \<open>An error of a run keeps its cause; what the context adds is text.\<close>

datatype ('io, 'e) run_error =
    NoHomeDir
  | RunConfig "'io config_error"
  | RunRoot "'io sync_error"
  | RunKache "'io kache_config_error"
  | RunCreds creds_error
  | RunIo path 'io
  | RunS3 'e
  | RunGc "'e gc_error"
  | RunLock string

definition store_paths_from_env :: "(string \<rightharpoonup> string) \<Rightarrow> (store_paths, ('io, 'e) run_error) result" where
  "store_paths_from_env env =
     and_then (ok_or NoHomeDir (env ''HOME'')) (\<lambda>home.
       (let config_dir = unwrap_or (path_join home ''.config'') (option_filter is_absolute (env ''XDG_CONFIG_HOME''));
            cache_dir = unwrap_or (path_join home ''.cache'') (option_filter is_absolute (env ''XDG_CACHE_HOME''))
        in Ok \<lparr> sp_kache_config = path_join config_dir ''kache/config.toml'',
                sp_aws_credentials = path_join home ''.aws/credentials'',
                sp_index_db = path_join cache_dir ''kache/index.db'',
                sp_cache_dir = cache_dir \<rparr>))"

definition DEFAULT_REGION :: string where "DEFAULT_REGION = ''us-east-1''"

text \<open>What \<open>s3.rs\<close> asks of the client builder; building it is a parameter.\<close>

record s3_request =
  s3_bucket :: string
  s3_region :: string
  s3_access_key :: string
  s3_secret_key :: string
  s3_virtual_hosted :: bool
  s3_endpoint :: "string option"
  s3_allow_http :: bool

definition build_s3 ::
  "(s3_request \<Rightarrow> (('st, 'e) object_store, 'e) result) \<Rightarrow> remote_store \<Rightarrow> credentials \<Rightarrow> (('st, 'e) object_store, 'e) result" where
  "build_s3 builder remote creds =
     builder \<lparr> s3_bucket = rs_bucket remote, s3_region = unwrap_or DEFAULT_REGION (rs_region remote),
               s3_access_key = cr_access_key creds, s3_secret_key = cr_secret_key creds, s3_virtual_hosted = False,
               s3_endpoint = rs_endpoint remote,
               s3_allow_http = (case rs_endpoint remote of Some ep \<Rightarrow> starts_with ''http://'' ep | None \<Rightarrow> False) \<rparr>"

text \<open>The outside world of a run.\<close>

record ('st, 'io, 'e) store_world =
  sw_env :: "string \<rightharpoonup> string"
  sw_fs :: "path \<Rightarrow> 'io file_read"
  sw_enoent :: 'io
  sw_deser :: kache_deser
  sw_builder :: "s3_request \<Rightarrow> (('st, 'e) object_store, 'e) result"
  sw_load_index :: "path \<Rightarrow> usage_map"
  sw_now :: time
  sw_mib :: "u64 \<Rightarrow> string"
  sw_order :: "string list \<Rightarrow> string list"
  sw_in_flight :: "string list"
  sw_touch_sched :: "'st touch_event list"
  sw_mtime :: "path \<Rightarrow> time option"
  sw_parse_lock :: "string \<Rightarrow> (string list, string) result"

definition connect_store ::
  "('st, 'io, 'e) store_world \<Rightarrow> store_paths \<Rightarrow> (remote_store \<times> ('st, 'e) object_store, ('io, 'e) run_error) result" where
  "connect_store w paths =
     and_then (map_err RunKache (load_kache_config (sw_deser w) (sw_fs w) (sw_enoent w) (sp_kache_config paths))) (\<lambda>remote.
     and_then (case sw_fs w (sp_aws_credentials paths) of
                 FileText text \<Rightarrow> Ok (Some text)
               | FileNotFound \<Rightarrow> Ok None
               | FileError e \<Rightarrow> Err (RunIo (sp_aws_credentials paths) e)) (\<lambda>credentials_file.
     and_then (map_err RunCreds (resolve_credentials (sw_env w) credentials_file (sp_aws_credentials paths)
                 (unwrap_or ''default'' (rs_profile remote)))) (\<lambda>credentials.
     and_then (map_err RunS3 (build_s3 (sw_builder w) remote credentials)) (\<lambda>store.
       Ok (remote, store)))))"

record gc_opts =
  go_dry_run :: bool
  go_max_size_gib_override :: "u32 option"

definition run_gc ::
  "('st, 'io, 'e) store_world \<Rightarrow> (config, 'io config_error) result \<Rightarrow> gc_opts \<Rightarrow> 'st
     \<Rightarrow> (gc_report, ('io, 'e) run_error) result \<times> 'st" where
  "run_gc w loaded opts s =
     (case loaded of
        Inl e \<Rightarrow> (Err (RunConfig e), s)
      | Inr cfg \<Rightarrow>
          (let sc = (case go_max_size_gib_override opts of
                       Some m \<Rightarrow> (cfg_store cfg)\<lparr>so_max_size_gib := m\<rparr> | None \<Rightarrow> cfg_store cfg) in
           if so_max_size_gib sc = 0 then (Ok gc_report_default, s)
           else case and_then (store_paths_from_env (sw_env w)) (\<lambda>paths.
                      and_then (connect_store w paths) (\<lambda>rs. Ok (paths, rs))) of
             Inl e \<Rightarrow> (Err e, s)
           | Inr (paths, remote, store) \<Rightarrow>
               (case list_objects store (rs_prefix remote) s of
                  Inl e \<Rightarrow> (Err (RunGc e), s)
                | Inr objects \<Rightarrow>
                    (let params = from_store_config sc (sw_now w);
                         pl = plan objects (sw_load_index w (sp_index_db paths)) params;
                         r = execute_plan store (sw_mib w) (sw_order w) (sw_in_flight w) pl (go_dry_run opts) (sw_now w) s
                     in (map_err RunGc (fst r), snd (snd r))))))"

record touch_opts =
  to_workspace :: "path option"
  to_force :: bool

record touch_report =
  tr_throttled :: bool
  tr_crates :: u64
  tr_listed :: u64
  tr_touched :: u64
  tr_skipped_fresh :: u64
  tr_failures :: u64

definition touch_report_default :: touch_report where
  "touch_report_default = \<lparr> tr_throttled = False, tr_crates = 0, tr_listed = 0, tr_touched = 0,
     tr_skipped_fresh = 0, tr_failures = 0 \<rparr>"

definition show_touch_report :: "touch_report \<Rightarrow> string" where
  "show_touch_report r =
     (if tr_throttled r then ''throttled (stamp is fresh); nothing touched''
      else ''touched '' @ show_nat (unat (tr_touched r)) @ '' of '' @ show_nat (unat (tr_listed r)) @ '' objects across ''
        @ show_nat (unat (tr_crates r)) @ '' crates; '' @ show_nat (unat (tr_skipped_fresh r)) @ '' fresh; ''
        @ show_nat (unat (tr_failures r)) @ '' failures'')"

text \<open>The second component says whether the stamp was written; \<open>write_stamp\<close> may fail.\<close>

definition run_touch ::
  "('st, 'io, 'e) store_world \<Rightarrow> (path \<Rightarrow> (config, 'io config_error) result) \<Rightarrow> (path \<Rightarrow> (path, 'io sync_error) result)
     \<Rightarrow> (path \<Rightarrow> 'io option) \<Rightarrow> path \<Rightarrow> touch_opts \<Rightarrow> 'st
     \<Rightarrow> (touch_report, ('io, 'e) run_error) result \<times> bool \<times> 'st" where
  "run_touch w load_cfg root_of write_stamp cwd opts s =
     (let dir = unwrap_or cwd (to_workspace opts) in
      case load_cfg dir of
        Inl e \<Rightarrow> (Err (RunConfig e), False, s)
      | Inr cfg \<Rightarrow>
          (if \<not> so_touch (cfg_store cfg) then (Ok touch_report_default, False, s)
           else case and_then (map_err RunRoot (root_of dir)) (\<lambda>root.
                      and_then (store_paths_from_env (sw_env w)) (\<lambda>paths. Ok (root, paths))) of
             Inl e \<Rightarrow> (Err e, False, s)
           | Inr (root, paths) \<Rightarrow>
               (let stamp = stamp_path (sp_cache_dir paths) root;
                    max_age = hours (int (unat (so_touch_after_hours (cfg_store cfg)))) in
                if \<not> to_force opts \<and> stamp_fresh_on_disk (sw_mtime w) stamp (sw_now w) max_age
                then (Ok (touch_report_default\<lparr>tr_throttled := True\<rparr>), False, s)
                else case and_then (case sw_fs w (path_join root ''Cargo.lock'') of
                                      FileText text \<Rightarrow> Ok text
                                    | FileNotFound \<Rightarrow> Err (RunIo (path_join root ''Cargo.lock'') (sw_enoent w))
                                    | FileError e \<Rightarrow> Err (RunIo (path_join root ''Cargo.lock'') e)) (\<lambda>text.
                           and_then (map_err RunLock (parse_cargo_lock (sw_parse_lock w) text)) (\<lambda>crates.
                           and_then (connect_store w paths) (\<lambda>rs. Ok (crates, rs)))) of
                  Inl e \<Rightarrow> (Err e, False, s)
                | Inr (crates, remote, store) \<Rightarrow>
                    (case list_prefixes store (concat (map (crate_prefixes (rs_prefix remote)) crates)) s of
                       Inl e \<Rightarrow> (Err (RunGc e), False, s)
                     | Inr objects \<Rightarrow>
                         (let tp = plan_touch objects (sw_now w - max_age);
                              r = execute_touch store (sw_touch_sched w) (tp_touch tp) s;
                              report = \<lparr> tr_throttled = False, tr_crates = of_nat (length crates),
                                         tr_listed = of_nat (length objects), tr_touched = fst (fst r),
                                         tr_skipped_fresh = tp_skipped_fresh tp, tr_failures = snd (fst r) \<rparr>
                          in if snd (fst r) = 0 then
                               (case write_stamp stamp of
                                  Some e \<Rightarrow> (Err (RunIo stamp e), False, snd r)
                                | None \<Rightarrow> (Ok report, True, snd r))
                             else (Ok report, False, snd r))))))"

section \<open>What deletions change\<close>

lemma delete_law:
  assumes "store_laws S data" and "os_delete S k s = (r, s')"
  shows "is_ok r \<or> r = Err SNotFound \<Longrightarrow> data s' = (data s)(k := None)"
    and "data s' = data s \<or> data s' = (data s)(k := None)"
proof -
  from assms have "if is_ok r \<or> r = Err SNotFound then data s' = (data s)(k := None)
      else data s' = data s \<or> data s' = (data s)(k := None)"
    unfolding store_laws_def by blast
  then show "is_ok r \<or> r = Err SNotFound \<Longrightarrow> data s' = (data s)(k := None)"
    and "data s' = data s \<or> data s' = (data s)(k := None)"
    by (auto split: if_splits)
qed

lemma copy_law:
  assumes "store_laws S data" and "os_copy S a b s = (r, s')"
  shows "is_ok r \<Longrightarrow> copied data a b s s'" and "data s' = data s \<or> copied data a b s s'"
proof -
  from assms have "if is_ok r then copied data a b s s' else data s' = data s \<or> copied data a b s s'"
    unfolding store_laws_def by blast
  then show "is_ok r \<Longrightarrow> copied data a b s s'" and "data s' = data s \<or> copied data a b s s'"
    by (auto split: if_splits)
qed

lemma delete_frame:
  assumes "store_laws S data" and "os_delete S k' s = (r, s')" and "k \<noteq> k'"
  shows "data s' k = data s k"
  using delete_law(2) [OF assms(1,2)] assms(3) by auto

lemma delete_absent:
  assumes "store_laws S data" and "os_delete S k' s = (r, s')" and "data s k = None"
  shows "data s' k = None"
  using delete_law(2) [OF assms(1,2)] assms(3) by auto

lemma delete_only:
  assumes "store_laws S data" and "os_delete S k' s = (r, s')"
  shows "data s' k = data s k \<or> data s' k = None"
  using delete_law(2) [OF assms] by (cases "k = k'") auto

lemma delete_all_frame:
  assumes "store_laws S data"
  shows "delete_all S ks s = (r, s') \<Longrightarrow> k \<notin> set ks \<Longrightarrow> data s' k = data s k"
proof (induction ks arbitrary: s)
  case (Cons k' ks)
  obtain r1 s1 where d: "os_delete S k' s = (r1, s1)" by force
  with delete_frame [OF assms d, of k] Cons show ?case
    by (auto split: sum.splits store_error.splits)
qed simp

lemma delete_all_absent:
  assumes "store_laws S data"
  shows "delete_all S ks s = (r, s') \<Longrightarrow> data s k = None \<Longrightarrow> data s' k = None"
proof (induction ks arbitrary: s)
  case (Cons k' ks)
  obtain r1 s1 where d: "os_delete S k' s = (r1, s1)" by force
  with delete_absent [OF assms d, of k] Cons show ?case
    by (auto split: sum.splits store_error.splits)
qed simp

lemma delete_all_gone:
  assumes "store_laws S data"
  shows "delete_all S ks s = (Inr u, s') \<Longrightarrow> k \<in> set ks \<Longrightarrow> data s' k = None"
proof (induction ks arbitrary: s)
  case (Cons k' ks)
  obtain r1 s1 where d: "os_delete S k' s = (r1, s1)" by force
  from Cons.prems(1) d have rest: "delete_all S ks s1 = (Inr u, s')" and ok: "is_ok r1 \<or> r1 = Err SNotFound"
    by (auto split: sum.splits store_error.splits)
  show ?case
  proof (cases "k = k'")
    case True
    then have "data s1 k = None" using delete_law(1) [OF assms d ok] by simp
    with delete_all_absent [OF assms rest] show ?thesis by blast
  next
    case False
    with Cons.IH [OF rest] Cons.prems(2) show ?thesis by simp
  qed
qed simp

lemma delete_in_flight_frame:
  assumes "store_laws S data"
  shows "k \<notin> set ks \<Longrightarrow> data (delete_in_flight S ks s) k = data s k"
proof (induction ks arbitrary: s)
  case (Cons k' ks)
  obtain r1 s1 where d: "os_delete S k' s = (r1, s1)" by force
  with delete_frame [OF assms d, of k] Cons show ?case by (simp add: delete_in_flight_def)
qed (simp add: delete_in_flight_def)

lemma delete_all_only:
  assumes "store_laws S data"
  shows "delete_all S ks s = (r, s') \<Longrightarrow> data s' k = data s k \<or> data s' k = None"
proof (induction ks arbitrary: s)
  case (Cons k' ks)
  obtain r1 s1 where d: "os_delete S k' s = (r1, s1)" by force
  from delete_only [OF assms d, of k] Cons d show ?case by (fastforce split: sum.splits store_error.splits)
qed simp

lemma delete_in_flight_only:
  assumes "store_laws S data"
  shows "data (delete_in_flight S ks s) k = data s k \<or> data (delete_in_flight S ks s) k = None"
proof (induction ks arbitrary: s)
  case (Cons k' ks)
  obtain r1 s1 where d: "os_delete S k' s = (r1, s1)" by force
  from delete_only [OF assms d, of k] Cons [of s1] d show ?case by (auto simp: delete_in_flight_def)
qed (simp add: delete_in_flight_def)

lemma execute_plan_only:
  assumes "store_laws S data" and "execute_plan S mib order in_flight pl dry now s = (r, out, s')"
  shows "data s' k = data s k \<or> data s' k = None"
proof -
  obtain r1 s1 where d: "delete_all S (order (planned_keys pl)) s = (r1, s1)" by force
  from delete_all_only [OF assms(1) d, of k]
    delete_in_flight_only [OF assms(1), of "filter (\<lambda>k. k \<in> set (planned_keys pl)) in_flight" s1 k] assms(2) d
  show ?thesis by (auto simp: execute_plan_def Let_def split: if_splits sum.splits)
qed

lemma execute_plan_dry: "execute_plan S mib order in_flight pl True now s = (r, out, s') \<Longrightarrow> s' = s"
  by (simp add: execute_plan_def Let_def)

lemma execute_plan_frame:
  assumes "store_laws S data" and "\<forall>ks. set (order ks) = set ks"
    and "execute_plan S mib order in_flight pl dry now s = (r, out, s')" and "k \<notin> set (planned_keys pl)"
  shows "data s' k = data s k"
proof (cases dry)
  case True
  then show ?thesis using assms(3) by (simp add: execute_plan_def Let_def)
next
  case False
  obtain r1 s1 where d: "delete_all S (order (planned_keys pl)) s = (r1, s1)" by force
  have "data s1 k = data s k" using delete_all_frame [OF assms(1) d, of k] assms(2,4) by simp
  moreover have "data (delete_in_flight S (filter (\<lambda>k. k \<in> set (planned_keys pl)) in_flight) s1) k = data s1 k"
    using delete_in_flight_frame [OF assms(1)] assms(4) by simp
  ultimately show ?thesis
    using assms(3) d False by (auto simp: execute_plan_def Let_def split: sum.splits)
qed

lemma execute_plan_gone:
  assumes "store_laws S data" and "\<forall>ks. set (order ks) = set ks"
    and "execute_plan S mib order in_flight pl False now s = (Inr rep, out, s')" and "k \<in> set (planned_keys pl)"
  shows "data s' k = None"
proof -
  obtain r1 s1 where d: "delete_all S (order (planned_keys pl)) s = (r1, s1)" by force
  with assms(3) have "r1 = Inr ()" and "s' = s1"
    by (auto simp: execute_plan_def Let_def split: sum.splits)
  with delete_all_gone [OF assms(1), of "order (planned_keys pl)" s "()" s1 k] d assms(2,4) show ?thesis by simp
qed

lemma planned_keys_old:
  assumes "k \<in> set (planned_keys (plan objects index params))"
  shows "\<exists>x \<in> set objects. ro_key x = k \<and> ro_last_modified x \<le> gp_now params - gp_min_age params"
  using assms plan_deletes_old [of objects params index]
  by (fastforce simp: planned_keys_def list_all_iff)

lemma connect_store_builder:
  "connect_store w paths = Inr (remote, store) \<Longrightarrow> \<exists>req. sw_builder w req = Inr store"
  by (auto simp: connect_store_def build_s3_def)

text \<open>The client the builder gives obeys the laws, and requests complete in some order.\<close>

definition world_ok :: "('st, 'io, 'e) store_world \<Rightarrow> ('st \<Rightarrow> string \<rightharpoonup> 'd) \<Rightarrow> bool" where
  "world_ok w data \<longleftrightarrow>
     (\<forall>req S. sw_builder w req = Inr S \<longrightarrow> store_laws S data) \<and> (\<forall>ks. set (sw_order w ks) = set ks)"

lemma run_gc_shape:
  assumes "run_gc w (Inr cfg) opts s = (r, s')"
  shows "s' = s \<or> unwrap_or (so_max_size_gib (cfg_store cfg)) (go_max_size_gib_override opts) \<noteq> 0
    \<and> (\<exists>req S pre objs index sc r' out. sw_builder w req = Inr S \<and> os_list S pre s = Inr objs
         \<and> so_min_age_hours sc = so_min_age_hours (cfg_store cfg)
         \<and> execute_plan S (sw_mib w) (sw_order w) (sw_in_flight w)
             (plan (sort_key ro_key objs) index (from_store_config sc (sw_now w))) (go_dry_run opts) (sw_now w) s = (r', out, s'))"
proof -
  define sc where "sc = (case go_max_size_gib_override opts of
      Some m \<Rightarrow> (cfg_store cfg)\<lparr>so_max_size_gib := m\<rparr> | None \<Rightarrow> cfg_store cfg)"
  have sc: "so_min_age_hours sc = so_min_age_hours (cfg_store cfg)"
    "so_max_size_gib sc = unwrap_or (so_max_size_gib (cfg_store cfg)) (go_max_size_gib_override opts)"
    by (simp_all add: sc_def split: option.split)
  let ?c = "and_then (store_paths_from_env (sw_env w)) (\<lambda>paths. and_then (connect_store w paths) (\<lambda>rs. Ok (paths, rs)))"
  show ?thesis
  proof (cases "so_max_size_gib sc = 0")
    case True
    then show ?thesis using assms by (simp add: run_gc_def sc_def [symmetric] Let_def)
  next
    case max: False
    show ?thesis
    proof (cases ?c)
      case (Inl e)
      then show ?thesis using assms max by (simp add: run_gc_def sc_def [symmetric] Let_def)
    next
      case (Inr prs)
      obtain paths remote S where prs: "prs = (paths, remote, S)" by (rule prod_cases3)
      have "connect_store w paths = Inr (remote, S)" using Inr prs by auto
      then obtain req where req: "sw_builder w req = Inr S" using connect_store_builder by blast
      let ?plan = "\<lambda>objs. plan (sort_key ro_key objs) (sw_load_index w (sp_index_db paths)) (from_store_config sc (sw_now w))"
      let ?ex = "\<lambda>objs. execute_plan S (sw_mib w) (sw_order w) (sw_in_flight w) (?plan objs) (go_dry_run opts) (sw_now w) s"
      show ?thesis
      proof (cases "os_list S (rs_prefix remote) s")
        case err: (Inl e)
        then show ?thesis
          using assms max Inr prs by (simp add: run_gc_def sc_def [symmetric] Let_def list_objects_def)
      next
        case objs: (Inr objs)
        obtain r' out s'' where ex: "?ex objs = (r', out, s'')" by (rule prod_cases3)
        have "s'' = s'"
          using assms max Inr prs objs ex by (simp add: run_gc_def sc_def [symmetric] Let_def list_objects_def)
        then show ?thesis using req objs ex max sc by metis
      qed
    qed
  qed
qed

text \<open>
  C31. A garbage-collection run deletes only what is old, end to end. Whatever requests fail, in
  whatever order they complete and whatever is still in flight when an error ends the run: an
  object whose content the run changed was listed with a modification time at least
  \<open>min_age_hours\<close> back, and it is gone. With a cap of zero or on a dry run the store is not
  changed at all.
\<close>
theorem gc_run_deletes_only_old:
  assumes "world_ok w data" and "run_gc w (Inr cfg) opts s = (r, s')"
  shows "(if go_dry_run opts \<or> unwrap_or (so_max_size_gib (cfg_store cfg)) (go_max_size_gib_override opts) = 0
          then s' = s
          else \<forall>k. data s' k \<noteq> data s k \<longrightarrow>
                 data s' k = None
                 \<and> (\<exists>req S pre objs x. sw_builder w req = Inr S \<and> os_list S pre s = Inr objs \<and> x \<in> set objs \<and> ro_key x = k
                      \<and> ro_last_modified x \<le> sw_now w - hours (int (unat (so_min_age_hours (cfg_store cfg))))))"
proof -
  let ?cap = "unwrap_or (so_max_size_gib (cfg_store cfg)) (go_max_size_gib_override opts)"
  from run_gc_shape [OF assms(2)] show ?thesis
  proof
    assume "s' = s"
    then show ?thesis by simp
  next
    assume "?cap \<noteq> 0 \<and> (\<exists>req S pre objs index sc r' out. sw_builder w req = Inr S \<and> os_list S pre s = Inr objs
         \<and> so_min_age_hours sc = so_min_age_hours (cfg_store cfg)
         \<and> execute_plan S (sw_mib w) (sw_order w) (sw_in_flight w)
             (plan (sort_key ro_key objs) index (from_store_config sc (sw_now w))) (go_dry_run opts) (sw_now w) s = (r', out, s'))"
    then obtain req S pre objs index sc r' out where S: "sw_builder w req = Inr S" "os_list S pre s = Inr objs"
      and age: "so_min_age_hours sc = so_min_age_hours (cfg_store cfg)" and cap: "?cap \<noteq> 0"
      and ex: "execute_plan S (sw_mib w) (sw_order w) (sw_in_flight w)
             (plan (sort_key ro_key objs) index (from_store_config sc (sw_now w))) (go_dry_run opts) (sw_now w) s = (r', out, s')"
      by blast
    have laws: "store_laws S data" and order: "\<forall>ks. set (sw_order w ks) = set ks"
      using assms(1) S(1) by (auto simp: world_ok_def)
    let ?ps = "from_store_config sc (sw_now w)"
    have age': "gp_now ?ps - gp_min_age ?ps = sw_now w - hours (int (unat (so_min_age_hours (cfg_store cfg))))"
      using age by (simp add: from_store_config_def Let_def)
    have "data s' k = None \<and> (\<exists>x. x \<in> set objs \<and> ro_key x = k \<and> ro_last_modified x \<le> gp_now ?ps - gp_min_age ?ps)"
      if ch: "data s' k \<noteq> data s k" for k
    proof
      show "data s' k = None" using execute_plan_only [OF laws ex, of k] ch by blast
      have "k \<in> set (planned_keys (plan (sort_key ro_key objs) index ?ps))"
        using execute_plan_frame [OF laws order ex] ch by blast
      from planned_keys_old [OF this]
      show "\<exists>x. x \<in> set objs \<and> ro_key x = k \<and> ro_last_modified x \<le> gp_now ?ps - gp_min_age ?ps" by auto
    qed
    moreover have "s' = s" if "go_dry_run opts" using execute_plan_dry ex that by simp
    ultimately show ?thesis using cap S unfolding age' by (auto; blast)
  qed
qed

section \<open>What touching changes\<close>

text \<open>
  Keys are content-addressed: \<open>valid k d\<close> says that \<open>d\<close> is an artifact some machine has stored
  under the key \<open>k\<close>. A store is valid when every object holds an artifact of its own key, and
  every touch intermediate one of the key it was made from.
\<close>

abbreviation tmp_key :: "string \<Rightarrow> bool" where
  "tmp_key k \<equiv> ends_with TOUCH_TMP_SUFFIX k"

definition store_valid :: "(string \<Rightarrow> 'd \<Rightarrow> bool) \<Rightarrow> ('st \<Rightarrow> string \<rightharpoonup> 'd) \<Rightarrow> 'st \<Rightarrow> bool" where
  "store_valid valid data s \<longleftrightarrow>
     (\<forall>k d. \<not> tmp_key k \<longrightarrow> data s k = Some d \<or> data s (k @ TOUCH_TMP_SUFFIX) = Some d \<longrightarrow> valid k d)"

definition keeps_objects :: "('st \<Rightarrow> string \<rightharpoonup> 'd) \<Rightarrow> 'st \<Rightarrow> 'st \<Rightarrow> bool" where
  "keeps_objects data s s' \<longleftrightarrow> (\<forall>k. \<not> tmp_key k \<longrightarrow> data s k \<noteq> None \<longrightarrow> data s' k \<noteq> None)"

text \<open>
  What other machines may do to the store meanwhile: anything that keeps it valid, and, unless
  \<open>loss\<close> allows deletions, keeps its objects. The lemmas below show that the other users of
  the store do no more: a touch of another machine, an upload by kache, the collection of
  junk, and, with \<open>loss\<close>, a garbage collection.
\<close>

definition interference_ok :: "bool \<Rightarrow> (string \<Rightarrow> 'd \<Rightarrow> bool) \<Rightarrow> ('st \<Rightarrow> string \<rightharpoonup> 'd) \<Rightarrow> ('st \<Rightarrow> 'st) \<Rightarrow> bool" where
  "interference_ok loss valid data e \<longleftrightarrow>
     (\<forall>s. store_valid valid data s \<longrightarrow> store_valid valid data (e s) \<and> (loss \<or> keeps_objects data s (e s)))"

lemma tmp_key_suffix [simp]: "tmp_key (k @ TOUCH_TMP_SUFFIX)"
  by (simp add: ends_with_def)

lemma keeps_objects_refl [simp]: "keeps_objects data s s"
  by (simp add: keeps_objects_def)

lemma keeps_objects_trans: "keeps_objects data s s' \<Longrightarrow> keeps_objects data s' s'' \<Longrightarrow> keeps_objects data s s''"
  by (simp add: keeps_objects_def)

text \<open>The three ways a request changes the store.\<close>

lemma store_change:
  assumes "\<not> tmp_key key"
  shows "data s' = data s \<Longrightarrow> store_valid valid data s \<Longrightarrow> store_valid valid data s' \<and> keeps_objects data s s'"
    and "data s' = (data s)(key @ TOUCH_TMP_SUFFIX := v) \<Longrightarrow> (\<And>d. v = Some d \<Longrightarrow> valid key d)
          \<Longrightarrow> store_valid valid data s \<Longrightarrow> store_valid valid data s' \<and> keeps_objects data s s'"
    and "data s' = (data s)(key \<mapsto> d) \<Longrightarrow> valid key d
          \<Longrightarrow> store_valid valid data s \<Longrightarrow> store_valid valid data s' \<and> keeps_objects data s s'"
proof -
  show "data s' = data s \<Longrightarrow> store_valid valid data s \<Longrightarrow> store_valid valid data s' \<and> keeps_objects data s s'"
    by (simp add: store_valid_def keeps_objects_def)
  show "data s' = (data s)(key @ TOUCH_TMP_SUFFIX := v) \<Longrightarrow> (\<And>d. v = Some d \<Longrightarrow> valid key d)
          \<Longrightarrow> store_valid valid data s \<Longrightarrow> store_valid valid data s' \<and> keeps_objects data s s'"
    unfolding store_valid_def keeps_objects_def by (metis append_same_eq fun_upd_apply tmp_key_suffix)
  show "data s' = (data s)(key \<mapsto> d) \<Longrightarrow> valid key d
          \<Longrightarrow> store_valid valid data s \<Longrightarrow> store_valid valid data s' \<and> keeps_objects data s s'"
    using assms unfolding store_valid_def keeps_objects_def
    by (metis fun_upd_apply option.distinct(1) option.inject tmp_key_suffix)
qed

lemma touch_one_keeps:
  assumes "store_laws S data" and "\<not> tmp_key key" and "store_valid valid data s"
  shows "store_valid valid data (snd (touch_one S key req s)) \<and> keeps_objects data s (snd (touch_one S key req s))"
proof (cases req)
  case CopyOut
  obtain r s' where c: "os_copy S key (key @ TOUCH_TMP_SUFFIX) s = (r, s')" by force
  then have "snd (touch_one S key req s) = s'" using CopyOut by (auto split: sum.split store_error.split)
  moreover have "data s' = data s \<or> (\<exists>d. valid key d \<and> data s' = (data s)(key @ TOUCH_TMP_SUFFIX \<mapsto> d))"
    using copy_law(2) [OF assms(1) c] assms(2,3) unfolding copied_def store_valid_def by blast
  ultimately show ?thesis using store_change(1,2) [OF assms(2)] assms(3) by (metis option.inject)
next
  case CopyBack
  obtain r s' where c: "os_copy S (key @ TOUCH_TMP_SUFFIX) key s = (r, s')" by force
  then have "snd (touch_one S key req s) = s'" using CopyBack by simp
  moreover have "data s' = data s \<or> (\<exists>d. valid key d \<and> data s' = (data s)(key \<mapsto> d))"
    using copy_law(2) [OF assms(1) c] assms(2,3) unfolding copied_def store_valid_def by blast
  ultimately show ?thesis using store_change(1,3) [OF assms(2)] assms(3) by metis
next
  case (RemoveTmp b)
  obtain r s' where c: "os_delete S (key @ TOUCH_TMP_SUFFIX) s = (r, s')" by force
  then have "snd (touch_one S key req s) = s'" using RemoveTmp by simp
  then show ?thesis
    using delete_law(2) [OF assms(1) c] store_change(1,2) [OF assms(2)] assms(3) by (metis option.distinct(1))
qed

text \<open>What the other users of the store do.\<close>

lemma other_touch_ok:
  assumes "store_laws S data" and "\<not> tmp_key key"
  shows "interference_ok loss valid data (\<lambda>s. snd (touch_one S key req s))"
  using touch_one_keeps [OF assms] unfolding interference_ok_def by blast

lemma upload_ok:
  assumes "\<not> tmp_key key" and "valid key d" and "\<And>s. data (e s) = (data s)(key \<mapsto> d)"
  shows "interference_ok loss valid data e"
proof -
  have "store_valid valid data (e s) \<and> keeps_objects data s (e s)" if "store_valid valid data s" for s
    using assms(1) assms(3) [of s] assms(2) that by (rule store_change(3))
  then show ?thesis by (simp add: interference_ok_def)
qed

lemma collection_ok:
  assumes "store_laws S data" and "loss \<or> tmp_key k"
  shows "interference_ok loss valid data (\<lambda>s. snd (os_delete S k s))"
proof -
  have "store_valid valid data (snd (os_delete S k s)) \<and> (loss \<or> keeps_objects data s (snd (os_delete S k s)))"
    if "store_valid valid data s" for s
    using delete_law(2) [OF assms(1), of k s] assms(2) that
    by (cases "os_delete S k s") (auto simp: store_valid_def keeps_objects_def split: if_splits)
  then show ?thesis by (simp add: interference_ok_def)
qed

text \<open>A run of touches, with whatever happens between its requests.\<close>

lemma touch_turn_keeps:
  assumes "store_laws S data" and "touch_turn S i flight s = (flight', ocs, s')" and "flight \<noteq> []"
    and "\<forall>k \<in> fst ` set flight. \<not> tmp_key k" and "store_valid valid data s"
  shows "store_valid valid data s' \<and> keeps_objects data s s'" and "fst ` set flight' \<subseteq> fst ` set flight"
    and "length flight' + length ocs = length flight"
proof -
  obtain as key req bs where fl: "flight = as @ (key, req) # bs" and s': "s' = snd (touch_one S key req s)"
    and new: "(\<exists>nxt. touch_one S key req s = (Inl nxt, s') \<and> flight' = as @ (key, nxt) # bs \<and> ocs = [])
       \<or> (\<exists>oc. touch_one S key req s = (Inr oc, s') \<and> flight' = as @ bs \<and> ocs = [oc])"
    by (rule touch_turn_cases [OF assms(2,3)])
  show "store_valid valid data s' \<and> keeps_objects data s s'"
    unfolding s' using assms(4) fl by (intro touch_one_keeps [OF assms(1) _ assms(5)]) simp
  show "fst ` set flight' \<subseteq> fst ` set flight" and "length flight' + length ocs = length flight"
    using new fl by auto
qed

text \<open>What holds of a run: the store stays valid and keeps its objects, and every key has its outcome.\<close>

definition touched_well ::
  "bool \<Rightarrow> (string \<Rightarrow> 'd \<Rightarrow> bool) \<Rightarrow> ('st \<Rightarrow> string \<rightharpoonup> 'd) \<Rightarrow> 'st \<Rightarrow> nat \<Rightarrow> touch_outcome list \<times> 'st \<Rightarrow> bool" where
  "touched_well loss valid data s n r \<longleftrightarrow>
     store_valid valid data (snd r) \<and> (loss \<or> keeps_objects data s (snd r)) \<and> length (fst r) = n"

lemma touched_well_step:
  assumes "store_valid valid data s' \<and> (loss \<or> keeps_objects data s s')" and "touched_well loss valid data s' m r"
  shows "touched_well loss valid data s (length ocs + m) (case r of (ocs', s'') \<Rightarrow> (ocs @ ocs', s''))"
  using assms by (cases r) (auto simp: touched_well_def intro: keeps_objects_trans)

lemma touch_turn_then:
  assumes laws: "store_laws S data" and ne: "fl \<noteq> []" and keys: "\<forall>k \<in> fst ` set fl \<union> set wt. \<not> tmp_key k"
    and ok: "store_valid valid data s"
    and rest: "\<And>fl' ocs s'. touch_turn S i fl s = (fl', ocs, s') \<Longrightarrow> \<forall>k \<in> fst ` set fl' \<union> set wt. \<not> tmp_key k
        \<Longrightarrow> store_valid valid data s' \<Longrightarrow> touched_well loss valid data s' (length fl' + length wt) (touch_loop S rest fl' wt s')"
  shows "touched_well loss valid data s (length fl + length wt)
      (case touch_turn S i fl s of (fl', ocs, s') \<Rightarrow>
         (case touch_loop S rest fl' wt s' of (ocs', s'') \<Rightarrow> (ocs @ ocs', s'')))"
proof -
  obtain fl' ocs s' where t: "touch_turn S i fl s = (fl', ocs, s')" by (rule prod_cases3)
  have k: "\<forall>k \<in> fst ` set fl. \<not> tmp_key k" using keys by blast
  note kept = touch_turn_keeps [OF laws t ne k ok]
  have "touched_well loss valid data s' (length fl' + length wt) (touch_loop S rest fl' wt s')"
    using kept(1,2) keys by (intro rest [OF t]) auto
  then have "touched_well loss valid data s (length ocs + (length fl' + length wt))
      (case touch_loop S rest fl' wt s' of (ocs', s'') \<Rightarrow> (ocs @ ocs', s''))"
    using kept(1) by (intro touched_well_step) auto
  with kept(3) t show ?thesis by (simp add: add.commute add.left_commute)
qed

lemma touch_loop_keeps:
  assumes laws: "store_laws S data" and others: "\<forall>e. Others e \<in> set sched \<longrightarrow> interference_ok loss valid data e"
    and keys: "\<forall>k \<in> fst ` set flight \<union> set waiting. \<not> tmp_key k" and ok: "store_valid valid data s"
  shows "touched_well loss valid data s (length flight + length waiting) (touch_loop S sched flight waiting s)"
  using assms
proof (induction S sched flight waiting s rule: touch_loop.induct)
  case (1 S sched flight waiting s)
  define n where "n = TOUCH_CONCURRENCY - length flight"
  define fl where "fl = flight @ map (\<lambda>k. (k, CopyOut :: 'b touch_request)) (take n waiting)"
  define wt where "wt = drop n waiting"
  note loop = touch_loop.simps [of S sched flight waiting s, unfolded Let_def, folded n_def, folded fl_def wt_def]
  have keys: "\<forall>k \<in> fst ` set fl \<union> set wt. \<not> tmp_key k"
    using "1.prems"(3) by (auto simp: fl_def wt_def dest: in_set_takeD in_set_dropD)
  have len: "length flight + length waiting = length fl + length wt" by (simp add: fl_def wt_def)
  show ?case
  proof (cases "fl = []")
    case True
    then have "flight = []" "waiting = []" by (auto simp: fl_def n_def TOUCH_CONCURRENCY_def)
    with True show ?thesis unfolding loop using "1.prems"(4) by (simp add: touched_well_def)
  next
    case ne: False
    show ?thesis
    proof (cases sched)
      case Nil
      have "touched_well loss valid data s (length fl + length wt)
         (case touch_turn S 0 fl s of (fl', ocs, s') \<Rightarrow>
            (case touch_loop S [] fl' wt s' of (ocs', s'') \<Rightarrow> (ocs @ ocs', s'')))"
        by (rule touch_turn_then [OF "1.prems"(1) ne keys "1.prems"(4)]) (rule "1.IH"(1) [OF n_def fl_def wt_def ne Nil _ refl "1.prems"(1)], simp_all)
      then show ?thesis unfolding loop if_not_P [OF ne] len by (simp add: Nil)
    next
      case (Cons ev rest)
      show ?thesis
      proof (cases ev)
        case (Turn i)
        have "touched_well loss valid data s (length fl + length wt)
           (case touch_turn S i fl s of (fl', ocs, s') \<Rightarrow>
              (case touch_loop S rest fl' wt s' of (ocs', s'') \<Rightarrow> (ocs @ ocs', s'')))"
          using "1.prems"(2) Cons
          by (intro touch_turn_then [OF "1.prems"(1) ne keys "1.prems"(4)] "1.IH"(2) [OF n_def fl_def wt_def ne Cons Turn _ refl "1.prems"(1)]) simp_all
        then show ?thesis unfolding loop if_not_P [OF ne] len by (simp add: Cons Turn)
      next
        case (Others e)
        have e: "store_valid valid data (e s)" "loss \<or> keeps_objects data s (e s)"
          using "1.prems"(2,4) Cons Others by (auto simp: interference_ok_def)
        have "touched_well loss valid data (e s) (length fl + length wt) (touch_loop S rest fl wt (e s))"
          using "1.prems"(2) Cons keys e(1)
          by (intro "1.IH"(3) [OF n_def fl_def wt_def ne Cons Others "1.prems"(1)]) simp_all
        then show ?thesis unfolding loop if_not_P [OF ne] len
          using e(2) by (auto simp: Cons Others touched_well_def intro: keeps_objects_trans)
      qed
    qed
  qed
qed

lemma plan_touch_keys: "\<forall>k \<in> set (tp_touch (plan_touch objects limit)). \<not> tmp_key k"
  by (auto simp: plan_touch_def Let_def is_tmp_def)

lemma execute_touch_keeps:
  assumes "store_laws S data" and "\<forall>e. Others e \<in> set sched \<longrightarrow> interference_ok loss valid data e"
    and "store_valid valid data s" and "\<forall>k \<in> set keys. \<not> tmp_key k"
  shows "store_valid valid data (snd (execute_touch S sched keys s))"
    and "loss \<or> keeps_objects data s (snd (execute_touch S sched keys s))"
proof -
  have "touched_well loss valid data s (length ([] :: (string \<times> 'b touch_request) list) + length keys) (touch_loop S sched [] keys s)"
    by (rule touch_loop_keeps) (use assms in simp_all)
  then show "store_valid valid data (snd (execute_touch S sched keys s))"
    and "loss \<or> keeps_objects data s (snd (execute_touch S sched keys s))"
    by (auto simp: touched_well_def execute_touch_def split: prod.split)
qed

text \<open>
  A run either leaves the store alone, and writes no stamp, or touches what it planned; then
  it stamps the workspace only if no touch failed.
\<close>

lemma run_touch_shape:
  assumes "run_touch w load_cfg root_of write_stamp cwd opts s = (r, stamped, s')"
  shows "s' = s \<and> \<not> stamped
    \<or> (\<exists>req S objects limit. sw_builder w req = Inr S
         \<and> s' = snd (execute_touch S (sw_touch_sched w) (tp_touch (plan_touch objects limit)) s)
         \<and> (stamped \<longrightarrow> (\<exists>report. r = Inr report \<and> tr_failures report = 0 \<and> \<not> tr_throttled report)))"
proof (cases "s' = s \<and> \<not> stamped")
  case False
  from False assms obtain cfg where cfg: "load_cfg (unwrap_or cwd (to_workspace opts)) = Inr cfg"
    by (cases "load_cfg (unwrap_or cwd (to_workspace opts))") (auto simp: run_touch_def)
  from False assms show ?thesis
    unfolding run_touch_def Let_def cfg
    by (auto split: if_splits sum.splits option.splits prod.splits dest!: connect_store_builder)
      blast+
qed simp

text \<open>
  C32. A touch run never loses or mixes up artifacts. Up to eight touches run at once, their
  requests interleaved in any way, a key may be listed and touched twice, any request may fail
  (also when it took effect), and other machines may touch, upload and, where \<open>loss\<close> allows it,
  delete at any moment in between: every object but the intermediates that was in the store
  before the run is in it afterwards, or \<open>loss\<close> was allowed, and whatever is stored under a key
  is an artifact of that key. The workspace's stamp is written only by a run that was not
  throttled and in which no touch failed.
\<close>
theorem touch_never_loses_data:
  assumes "world_ok w data" and "\<forall>e. Others e \<in> set (sw_touch_sched w) \<longrightarrow> interference_ok loss valid data e"
    and "store_valid valid data s"
    and "run_touch w load_cfg root_of write_stamp cwd opts s = (r, stamped, s')"
    and "\<not> tmp_key k"
  shows "(data s k \<noteq> None \<longrightarrow> data s' k \<noteq> None \<or> loss) \<and> (\<forall>d. data s' k = Some d \<longrightarrow> valid k d)
    \<and> (stamped \<longrightarrow> (\<exists>report. r = Inr report \<and> tr_failures report = 0 \<and> \<not> tr_throttled report))"
proof -
  have "store_valid valid data s' \<and> (loss \<or> keeps_objects data s s')
    \<and> (stamped \<longrightarrow> (\<exists>report. r = Inr report \<and> tr_failures report = 0 \<and> \<not> tr_throttled report))"
    using run_touch_shape [OF assms(4)]
  proof (elim disjE conjE exE)
    assume "s' = s" "\<not> stamped"
    then show ?thesis using assms(3) by simp
  next
    fix req S objects limit
    assume S: "sw_builder w req = Inr S"
      and run: "s' = snd (execute_touch S (sw_touch_sched w) (tp_touch (plan_touch objects limit)) s)"
      and st: "stamped \<longrightarrow> (\<exists>report. r = Inr report \<and> tr_failures report = 0 \<and> \<not> tr_throttled report)"
    have "store_laws S data" using assms(1) S by (auto simp: world_ok_def)
    from execute_touch_keeps [OF this assms(2,3) plan_touch_keys] run st show ?thesis by blast
  qed
  then show ?thesis using assms(5) by (auto simp: store_valid_def keeps_objects_def)
qed

section \<open>A store in memory, for examples\<close>

definition memory_store :: "(string \<rightharpoonup> u64, unit) object_store" where
  "memory_store =
     \<lparr> os_list = (\<lambda>pre s. Ok [example_object ''a.touch-tmp'' 3]),
       os_copy = (\<lambda>a b s. case s a of None \<Rightarrow> (Err SNotFound, s) | Some d \<Rightarrow> (Ok (), s(b \<mapsto> d))),
       os_delete = (\<lambda>k s. if s k = None then (Err SNotFound, s) else (Ok (), s(k := None))) \<rparr>"

lemma memory_store_laws: "store_laws memory_store id"
  by (auto simp: store_laws_def memory_store_def copied_def split: option.splits if_splits)

definition memory_world :: "(string \<rightharpoonup> u64, unit, unit) store_world" where
  "memory_world =
     \<lparr> sw_env = [''HOME'' \<mapsto> ''/h'', ENV_ACCESS_KEY \<mapsto> ''k'', ENV_SECRET_KEY \<mapsto> ''s''],
       sw_fs = (\<lambda>_. FileText []), sw_enoent = (),
       sw_deser = (\<lambda>_. Ok (Some (Some \<lparr> rc_kind = Some ''s3'', rc_bucket = Some ''b'', rc_endpoint = None,
         rc_region = None, rc_profile = None, rc_prefix = None \<rparr>))),
       sw_builder = (\<lambda>_. Ok memory_store), sw_load_index = (\<lambda>_. Map.empty), sw_now = hours 100, sw_mib = (\<lambda>_. []),
       sw_order = id, sw_in_flight = [], sw_touch_sched = [], sw_mtime = (\<lambda>_. None),
       sw_parse_lock = (\<lambda>_. Ok []) \<rparr>"

lemma store_paths_home: "env ''HOME'' = Some h \<Longrightarrow> \<exists>p. store_paths_from_env env = Inr p"
  by (simp add: store_paths_from_env_def Let_def)

lemma memory_run:
  "run_gc memory_world (Inr config_default) \<lparr> go_dry_run = False, go_max_size_gib_override = None \<rparr> [''a.touch-tmp'' \<mapsto> 3]
     = (Ok \<lparr> gr_scanned = 1, gr_total_bytes = 0, gr_evicted = 0, gr_freed_bytes = 0, gr_skipped_young = 0, gr_junk_deleted = 1 \<rparr>,
        [''a.touch-tmp'' \<mapsto> 3](''a.touch-tmp'' := None))"
proof -
  let ?o = "example_object ''a.touch-tmp'' 3"
  have tmp: "is_tmp ?o" by (simp add: is_tmp_def ends_with_def TOUCH_TMP_SUFFIX_def example_object_def)
  have "gp_now (from_store_config store_default (hours 100)) - gp_min_age (from_store_config store_default (hours 100)) = hours 76"
    by (simp add: from_store_config_def Let_def store_default_def hours_def)
  then have pl: "plan [?o] Map.empty (from_store_config store_default (hours 100))
      = \<lparr> gl_scanned = 1, gl_total_bytes = 0, gl_evictions = [], gl_freed_bytes = 0, gl_skipped_young = 0, gl_junk = [?o] \<rparr>"
    using tmp by (simp add: plan_def Let_def hours_def) (simp add: example_object_def)
  have "connect_store memory_world paths = Inr (\<lparr> rs_bucket = ''b'', rs_endpoint = None, rs_region = None, rs_profile = None, rs_prefix = None \<rparr>, memory_store)" for paths
    by (simp add: connect_store_def memory_world_def load_kache_config_def parse_kache_config_def resolve_credentials_def
        ENV_ACCESS_KEY_def ENV_SECRET_KEY_def build_s3_def)
  moreover have "sw_env memory_world ''HOME'' = Some ''/h''"
    by (simp add: memory_world_def ENV_ACCESS_KEY_def ENV_SECRET_KEY_def)
  then obtain p :: store_paths where "store_paths_from_env (sw_env memory_world) = (Inr p :: (store_paths, (unit, unit) run_error) result)"
    using store_paths_home by blast
  moreover have "list_objects memory_store None s = Inr [?o]" for s
    by (simp add: list_objects_def memory_store_def)
  moreover have "execute_plan memory_store mib id fl (plan [?o] Map.empty (from_store_config store_default (hours 100))) False now [''a.touch-tmp'' \<mapsto> 3]
      = (Ok \<lparr> gr_scanned = 1, gr_total_bytes = 0, gr_evicted = 0, gr_freed_bytes = 0, gr_skipped_young = 0, gr_junk_deleted = 1 \<rparr>, [],
         [''a.touch-tmp'' \<mapsto> 3](''a.touch-tmp'' := None))" for mib fl now
    unfolding pl by (simp add: execute_plan_def planned_keys_def Let_def)
      (simp add: memory_store_def example_object_def)
  moreover have "so_max_size_gib store_default \<noteq> 0" by (simp add: store_default_def)
  moreover have "cfg_store config_default = store_default" by (simp add: config_default_def)
  moreover have "sw_now memory_world = hours 100" "sw_order memory_world = id" "\<And>q. sw_load_index memory_world q = Map.empty"
    by (simp_all add: memory_world_def)
  ultimately show ?thesis by (simp add: run_gc_def Let_def)
qed

theorem gc_run_deletes_only_old_witness:
  "\<exists>s'. run_gc memory_world (Inr config_default) \<lparr> go_dry_run = False, go_max_size_gib_override = None \<rparr> [''a.touch-tmp'' \<mapsto> 3] = s'
     \<and> snd s' ''a.touch-tmp'' = None
     \<and> (\<exists>pre objs x. os_list memory_store pre [''a.touch-tmp'' \<mapsto> 3] = Inr objs \<and> x \<in> set objs \<and> ro_key x = ''a.touch-tmp''
          \<and> ro_last_modified x \<le> hours 76)"
proof -
  have ok: "world_ok memory_world id"
    using memory_store_laws by (simp add: world_ok_def memory_world_def)
  have m: "\<not> (go_dry_run \<lparr> go_dry_run = False, go_max_size_gib_override = None \<rparr>
      \<or> unwrap_or (so_max_size_gib (cfg_store config_default)) (go_max_size_gib_override \<lparr> go_dry_run = False, go_max_size_gib_override = None \<rparr>) = 0)"
    by (simp add: config_default_def store_default_def)
  have t: "sw_now memory_world - hours (int (unat (so_min_age_hours (cfg_store config_default)))) = hours 76"
    by (simp add: memory_world_def config_default_def store_default_def hours_def)
  have b: "sw_builder memory_world req = Inr S \<Longrightarrow> S = memory_store" for req S
    by (simp add: memory_world_def)
  from gc_run_deletes_only_old [OF ok memory_run, unfolded if_not_P [OF m] t]
  have "\<exists>req S pre objs x. sw_builder memory_world req = Inr S \<and> os_list S pre [''a.touch-tmp'' \<mapsto> 3] = Inr objs \<and> x \<in> set objs
      \<and> ro_key x = ''a.touch-tmp'' \<and> ro_last_modified x \<le> hours 76"
    by (metis fun_upd_same id_apply option.distinct(1))
  with b memory_run show ?thesis by fastforce
qed

text \<open>
  A touch run in the middle of the work of others: the object \<open>a\<close> is listed under two prefixes,
  so two touches of it are in flight; meanwhile another machine uploads \<open>b\<close> and touches \<open>a\<close>.
\<close>

definition touch_world :: "(string \<rightharpoonup> u64, unit, unit) store_world" where
  "touch_world = memory_world\<lparr>
     sw_builder := (\<lambda>_. Ok (memory_store\<lparr>os_list := (\<lambda>pre s. Ok [example_object ''a'' 7])\<rparr>)),
     sw_parse_lock := (\<lambda>_. Ok [''a'']),
     sw_touch_sched := [Turn 0, Others (\<lambda>s. s(''b'' \<mapsto> 9)), Turn 1,
       Others (\<lambda>s. snd (touch_one memory_store ''a'' CopyOut s)), Turn 1, Turn 1,
       Others (\<lambda>s. snd (touch_one memory_store ''a'' CopyOut s)), Turn 0]\<rparr>"

definition example_touch :: "(touch_report, (unit, unit) run_error) result \<times> bool \<times> (string \<rightharpoonup> u64)" where
  "example_touch = run_touch touch_world (\<lambda>_. Ok config_default) (\<lambda>dir. Ok dir) (\<lambda>_. None) ''/w''
     \<lparr> to_workspace = None, to_force = False \<rparr> [''a'' \<mapsto> 7]"

lemma memory_connect:
  "connect_store (memory_world\<lparr>sw_builder := (\<lambda>_. Ok S), sw_parse_lock := pl, sw_touch_sched := sched\<rparr>) paths
     = Inr (\<lparr> rs_bucket = ''b'', rs_endpoint = None, rs_region = None, rs_profile = None, rs_prefix = None \<rparr>, S)"
  by (simp add: connect_store_def memory_world_def load_kache_config_def parse_kache_config_def resolve_credentials_def
      ENV_ACCESS_KEY_def ENV_SECRET_KEY_def build_s3_def)

lemma example_touch_loop:
  "\<exists>s'. touch_loop (memory_store\<lparr>os_list := l\<rparr>) (sw_touch_sched touch_world) [] [''a'', ''a''] [''a'' \<mapsto> 7] = ([Touched, Touched], s')
     \<and> s' ''a'' = Some 7 \<and> s' ''b'' = Some 9"
proof -
  define tmp where "tmp = ''a'' @ TOUCH_TMP_SUFFIX"
  have tmp: "CHR ''a'' # TOUCH_TMP_SUFFIX = tmp" "tmp \<noteq> ''a''" "tmp \<noteq> ''b''" "''a'' \<noteq> tmp" "''b'' \<noteq> tmp"
    by (simp_all add: tmp_def) (simp_all add: TOUCH_TMP_SUFFIX_def)
  show ?thesis
    by (simp add: touch_world_def memory_store_def touch_loop.simps touch_turn_def TOUCH_CONCURRENCY_def tmp)
qed

lemma example_touch_run:
  "\<exists>rep s'. example_touch = (Ok rep, True, s') \<and> tr_touched rep = 2 \<and> s' ''b'' = Some 9"
proof -
  have keys: "tp_touch (plan_touch [example_object ''a'' 7, example_object ''a'' 7] limit) = [''a'', ''a'']" if "0 \<le> limit" for limit
    using that by (simp add: plan_touch_def Let_def is_tmp_def ends_with_def TOUCH_TMP_SUFFIX_def example_object_def)
  have home: "sw_env touch_world ''HOME'' = Some ''/h''"
    by (simp add: touch_world_def memory_world_def ENV_ACCESS_KEY_def ENV_SECRET_KEY_def)
  obtain p :: store_paths where "store_paths_from_env (sw_env touch_world) = (Inr p :: (store_paths, (unit, unit) run_error) result)"
    using store_paths_home home by blast
  moreover define S where "S = memory_store\<lparr>os_list := (\<lambda>pre s. Ok [example_object ''a'' 7])\<rparr>"
  obtain s' where loop: "touch_loop S (sw_touch_sched touch_world) [] [''a'', ''a''] [''a'' \<mapsto> 7] = ([Touched, Touched], s')"
    "s' ''b'' = Some 9" unfolding S_def using example_touch_loop by blast
  moreover have "list_prefixes S (concat (map (crate_prefixes None) [''a''])) s = Ok [example_object ''a'' 7, example_object ''a'' 7]" for s
    by (simp add: crate_prefixes_def replace_char_def list_objects_def S_def Let_def)
  moreover have "connect_store touch_world paths
     = Inr (\<lparr> rs_bucket = ''b'', rs_endpoint = None, rs_region = None, rs_profile = None, rs_prefix = None \<rparr>, S)" for paths
    unfolding touch_world_def S_def by (rule memory_connect)
  moreover have "so_touch (cfg_store config_default)" by (simp add: config_default_def store_default_def)
  moreover have "sw_mtime touch_world q = None" "sw_fs touch_world q = FileText []"
    "parse_cargo_lock (sw_parse_lock touch_world) t = Ok [''a'']" for q t
    by (simp_all add: touch_world_def memory_world_def parse_cargo_lock_def)
  moreover have "tp_touch (plan_touch [example_object ''a'' 7, example_object ''a'' 7]
      (sw_now touch_world - hours (int (unat (so_touch_after_hours (cfg_store config_default)))))) = [''a'', ''a'']"
    by (rule keys) (simp add: touch_world_def memory_world_def config_default_def store_default_def hours_def)
  ultimately show ?thesis
    by (simp add: example_touch_def run_touch_def Let_def stamp_fresh_on_disk_def execute_touch_def)
qed

theorem touch_never_loses_data_witness:
  "\<exists>rep s'. example_touch = (Ok rep, True, s') \<and> tr_touched rep = 2 \<and> tr_failures rep = 0 \<and> s' ''a'' = Some 7 \<and> s' ''b'' = Some 9"
proof -
  let ?valid = "\<lambda>k (d :: u64). k = ''a'' \<and> d = 7 \<or> k = ''b'' \<and> d = 9"
  obtain rep s' where run: "example_touch = (Inr rep, True, s')" "tr_touched rep = 2" "s' ''b'' = Some 9"
    using example_touch_run by blast
  have nt: "\<not> tmp_key ''a''" "\<not> tmp_key ''b''" by (simp_all add: ends_with_def TOUCH_TMP_SUFFIX_def)
  have ok: "world_ok touch_world id"
    using memory_store_laws by (simp add: world_ok_def touch_world_def memory_world_def store_laws_def)
  have up: "interference_ok False ?valid id (\<lambda>s. s(''b'' \<mapsto> 9))" by (rule upload_ok [OF nt(2), where d = 9]) simp_all
  have others: "\<forall>e. Others e \<in> set (sw_touch_sched touch_world) \<longrightarrow> interference_ok False ?valid id e"
    using up other_touch_ok [OF memory_store_laws nt(1)] by (simp add: touch_world_def del: touch_one.simps)
  have valid: "store_valid ?valid id [''a'' \<mapsto> 7]"
    by (auto simp: store_valid_def TOUCH_TMP_SUFFIX_def split: if_splits)
  from touch_never_loses_data [OF ok others valid run(1) [unfolded example_touch_def] nt(1)] run
  show ?thesis by (auto simp: nt)
qed

end
