(* ===== verification/Setup_Text.thy ===== *)
theory Setup_Text
  imports Store
begin

text \<open>
  The text functions of provisioning, from \<open>crates/rbs-setup\<close>: quoting for a remote shell, the
  fleet's host list, ssh and rustup output (\<open>bootstrap.rs\<close>), the line diff, the AWS credentials
  file and the environment file (\<open>setup.rs\<close>), roles (\<open>lib.rs\<close>) and captured output
  (\<open>runner.rs\<close>).
\<close>

section \<open>Roles and captured output\<close>

datatype role = Client | ServerRole

fun role_name :: "role \<Rightarrow> string" where
  "role_name Client = ''client''"
| "role_name ServerRole = ''server''"

definition role_from_str :: "string \<Rightarrow> (role, string) result" where
  "role_from_str s =
     (if s = ''client'' \<or> s = ''laptop'' then Ok Client
      else if s = ''server'' \<or> s = ''node0'' then Ok ServerRole
      else Err (''unknown role `'' @ s @ ''` (expected client|server; laptop|node0 accepted as aliases)''))"

record cmd_output =
  ou_status :: "i32 option"
  ou_stdout :: string
  ou_stderr :: string

definition output_ok :: "string \<Rightarrow> cmd_output" where
  "output_ok stdout = \<lparr> ou_status = Some 0, ou_stdout = stdout, ou_stderr = [] \<rparr>"

definition output_success :: "cmd_output \<Rightarrow> bool" where
  "output_success o' \<longleftrightarrow> ou_status o' = Some 0"

definition failure_detail :: "cmd_output \<Rightarrow> string" where
  "failure_detail o' =
     (if trim (ou_stderr o') \<noteq> [] then trim (ou_stderr o')
      else if trim (ou_stdout o') \<noteq> [] then trim (ou_stdout o')
      else case ou_status o' of Some c \<Rightarrow> ''exit code '' @ show_int c | None \<Rightarrow> ''killed by signal'')"

section \<open>Helpers of \<open>bootstrap.rs\<close>\<close>

definition shell_quote :: "string \<Rightarrow> string" where
  "shell_quote s = [CHR 0x27] @ replace_char (CHR 0x27) [CHR 0x27, CHR 0x5C, CHR 0x27, CHR 0x27] s @ [CHR 0x27]"

definition login_shell_args :: "string \<Rightarrow> string \<Rightarrow> string list" where
  "login_shell_args host cmd = [host, ''bash'', ''-lc'', shell_quote cmd]"

text \<open>\<open>seen\<close> is the set of hosts already listed.\<close>

fun plan_clients :: "string set \<Rightarrow> string list \<Rightarrow> (string \<times> role) list" where
  "plan_clients seen [] = []"
| "plan_clients seen (c # cs) =
     (let c' = trim c in
      if c' = [] \<or> c' \<in> seen then plan_clients seen cs
      else (c', Client) # plan_clients (insert c' seen) cs)"

definition plan_hosts :: "string \<Rightarrow> string list \<Rightarrow> (string \<times> role) list" where
  "plan_hosts server clients =
     (let s = trim server in
      if s \<noteq> [] then (s, ServerRole) # plan_clients {s} clients else plan_clients {} clients)"

fun ssh_config_lines :: "string \<Rightarrow> bool \<Rightarrow> string list \<Rightarrow> string option" where
  "ssh_config_lines host in_block [] = None"
| "ssh_config_lines host in_block (raw # rest) =
     (let line = trim raw in
      if line = [] \<or> starts_with ''#'' line then ssh_config_lines host in_block rest
      else case split_once_by (\<lambda>c. is_ws c \<or> c = CHR ''='') line of
        None \<Rightarrow> ssh_config_lines host in_block rest
      | Some (key, r) \<Rightarrow>
          (let v = trim (dropWhile (\<lambda>c. c \<in> {CHR ''='', CHR '' '', CHR 0x09}) r);
               k = map to_lower (trim key) in
           if k = ''host'' then ssh_config_lines host (host \<in> set (split_whitespace v)) rest
           else if k = ''hostname'' \<and> in_block \<and> v \<noteq> [] then Some v
           else ssh_config_lines host in_block rest))"

definition ssh_config_hostname :: "string \<Rightarrow> string \<Rightarrow> string option" where
  "ssh_config_hostname text host = ssh_config_lines host False (lines text)"

text \<open>Deserialising \<open>rust-toolchain.toml\<close>: \<open>None\<close> when it is not a toolchain file.\<close>

definition parse_toolchain_channel :: "(string \<Rightarrow> string option option) \<Rightarrow> string \<Rightarrow> string option" where
  "parse_toolchain_channel deser text =
     option_filter (\<lambda>c. c \<noteq> []) (map_option trim (Option.bind (deser text) id))"

definition find_pin_file :: "(path \<Rightarrow> bool) \<Rightarrow> path \<Rightarrow> path option" where
  "find_pin_file is_file start = find is_file (map (\<lambda>d. path_join d ''rust-toolchain.toml'') (ancestors start))"

definition toolchain_installed :: "string \<Rightarrow> string \<Rightarrow> bool" where
  "toolchain_installed list channel \<longleftrightarrow>
     (\<exists>l \<in> set (lines list). case split_whitespace l of
        [] \<Rightarrow> False
      | name # _ \<Rightarrow> name = channel \<or> starts_with (channel @ ''-'') name)"

definition doctor_failed_checks :: "string \<Rightarrow> string list" where
  "doctor_failed_checks stdout =
     List.map_filter (\<lambda>l. Option.bind (strip_prefix ''FAIL'' l)
        (\<lambda>rest. case split_whitespace rest of [] \<Rightarrow> None | w # _ \<Rightarrow> Some w)) (lines stdout)"

section \<open>Text functions of \<open>setup.rs\<close>\<close>

definition AWS_PROFILE :: string where "AWS_PROFILE = ''rbs''"
definition DEFAULT_ENDPOINT :: string where "DEFAULT_ENDPOINT = ''http://127.0.0.1:9100''"
definition DEFAULT_BUCKET :: string where "DEFAULT_BUCKET = ''kache''"

definition quoted :: "string \<Rightarrow> string" where
  "quoted s = [CHR 0x22] @ s @ [CHR 0x22]"

definition kache_config :: "string \<Rightarrow> string \<Rightarrow> string" where
  "kache_config endpoint bucket =
     ''[cache.remote]'' @ [NL] @ ''type = '' @ quoted ''s3'' @ [NL] @ ''bucket = '' @ quoted bucket @ [NL]
     @ ''endpoint = '' @ quoted endpoint @ [NL] @ ''region = '' @ quoted ''us-east-1'' @ [NL]
     @ ''profile = '' @ quoted AWS_PROFILE @ [NL] @ ''prefix = '' @ quoted ''artifacts'' @ [NL]"

text \<open>
  The table of the diff, row by row from the last line of the old text: entry \<open>j\<close> of row \<open>i\<close> is
  the source's \<open>lcs[i][j]\<close>.
\<close>

fun lcs_row :: "'a \<Rightarrow> 'a list \<Rightarrow> nat list \<Rightarrow> nat list" where
  "lcs_row x [] below = [0]"
| "lcs_row x (y # b) below =
     (let rest = lcs_row x b (tl below)
      in (if x = y then hd (tl below) + 1 else max (hd below) (hd rest)) # rest)"

fun lcs_table :: "'a list \<Rightarrow> 'a list \<Rightarrow> nat list list" where
  "lcs_table [] b = [replicate (Suc (length b)) 0]"
| "lcs_table (x # a) b = (let t = lcs_table a b in lcs_row x b (hd t) # t)"

datatype diff_entry = Keep string | Del string | Add string

function diff_loop :: "nat list list \<Rightarrow> string list \<Rightarrow> string list \<Rightarrow> nat \<Rightarrow> nat \<Rightarrow> diff_entry list" where
  "diff_loop t a b i j =
     (if i < length a \<and> j < length b then
        (if a ! i = b ! j then Keep (a ! i) # diff_loop t a b (i + 1) (j + 1)
         else if t ! (i + 1) ! j \<ge> t ! i ! (j + 1) then Del (a ! i) # diff_loop t a b (i + 1) j
         else Add (b ! j) # diff_loop t a b i (j + 1))
      else map Del (drop i a) @ map Add (drop j b))"
  by pat_completeness auto
termination
  by (relation "measure (\<lambda>(t, a, b, i, j). (length a - i) + (length b - j))") auto

declare diff_loop.simps [simp del]

fun show_entry :: "diff_entry \<Rightarrow> string" where
  "show_entry (Keep l) = '' '' @ l @ [NL]"
| "show_entry (Del l) = ''-'' @ l @ [NL]"
| "show_entry (Add l) = ''+'' @ l @ [NL]"

definition diff_entries :: "string \<Rightarrow> string \<Rightarrow> diff_entry list" where
  "diff_entries old new =
     (let a = lines old; b = lines new in diff_loop (lcs_table a b) a b 0 0)"

definition line_diff :: "string \<Rightarrow> string \<Rightarrow> string" where
  "line_diff old new = concat (map show_entry (diff_entries old new))"

definition unlines :: "string list \<Rightarrow> string" where
  "unlines ls = concat (map (\<lambda>l. l @ [NL]) ls)"

definition aws_section :: "string \<Rightarrow> string \<Rightarrow> string \<Rightarrow> string" where
  "aws_section profile access_key secret_key =
     ''['' @ profile @ '']'' @ [NL] @ ''aws_access_key_id = '' @ access_key @ [NL]
     @ ''aws_secret_access_key = '' @ secret_key @ [NL]"

definition aws_credentials_with_profile :: "string \<Rightarrow> string \<Rightarrow> string \<Rightarrow> string \<Rightarrow> string" where
  "aws_credentials_with_profile existing profile access_key secret_key =
     (let header = ''['' @ profile @ '']''; sect = aws_section profile access_key secret_key; ls = lines existing in
      case position (\<lambda>l. trim l = header) ls of
        None \<Rightarrow>
          (let out = existing @ (if existing \<noteq> [] \<and> \<not> ends_with [NL] existing then [NL] else [])
           in out @ (if out \<noteq> [] then [NL] else []) @ sect)
      | Some start \<Rightarrow>
          (let stop = (case position (\<lambda>l. starts_with ''['' (trim_start l)) (drop (start + 1) ls) of
                         Some p \<Rightarrow> start + 1 + p | None \<Rightarrow> length ls)
           in unlines (take start ls) @ sect @ unlines (drop stop ls)))"

definition trim_matches :: "char \<Rightarrow> string \<Rightarrow> string" where
  "trim_matches c s = rev (dropWhile (\<lambda>x. x = c) (rev (dropWhile (\<lambda>x. x = c) s)))"

definition env_line :: "string \<Rightarrow> (string \<times> string) option" where
  "env_line l0 =
     (let l = unwrap_or l0 (strip_prefix ''export '' l0) in
      map_option (\<lambda>(k, v). (trim k, trim_matches (CHR 0x27) (trim_matches (CHR 0x22) (trim v))))
        (split_once_by (\<lambda>c. c = CHR ''='') l))"

definition parse_env_file :: "string \<Rightarrow> (string \<rightharpoonup> string)" where
  "parse_env_file text =
     map_of (rev (List.map_filter env_line (filter (\<lambda>l. l \<noteq> [] \<and> \<not> starts_with ''#'' l) (map trim (lines text)))))"

definition kache_stats_has_remote :: "string \<Rightarrow> bool" where
  "kache_stats_has_remote stdout \<longleftrightarrow> (\<exists>l \<in> set (lines stdout). starts_with ''Remote:     s3://'' l)"

section \<open>Quoting\<close>

text \<open>
  How a POSIX shell splits a line into words, for the characters the commands use: blanks
  separate words, single quotes make everything between them literal, a backslash outside
  quotes makes the next character literal. A character with another meaning ends the reading.
\<close>

definition sh_plain :: "char \<Rightarrow> bool" where
  "sh_plain c \<longleftrightarrow> is_digit c \<or> (CHR ''a'' \<le> c \<and> c \<le> CHR ''z'') \<or> (CHR ''A'' \<le> c \<and> c \<le> CHR ''Z'') \<or> c \<in> set ''-_./:=,+@%''"

fun sh_words :: "bool \<Rightarrow> string option \<Rightarrow> string \<Rightarrow> string list option" where
  "sh_words in_quotes cur [] = (if in_quotes then None else Some (case cur of None \<Rightarrow> [] | Some w \<Rightarrow> [w]))"
| "sh_words True cur (c # cs) =
     (if c = CHR 0x27 then sh_words False cur cs else sh_words True (Some (unwrap_or [] cur @ [c])) cs)"
| "sh_words False cur (c # cs) =
     (if c = CHR 0x27 then sh_words True (Some (unwrap_or [] cur)) cs
      else if c = CHR 0x5C then (case cs of [] \<Rightarrow> None | d # ds \<Rightarrow> sh_words False (Some (unwrap_or [] cur @ [d])) ds)
      else if c = CHR '' '' then
        (case cur of None \<Rightarrow> sh_words False None cs | Some w \<Rightarrow> map_option (\<lambda>ws. w # ws) (sh_words False None cs))
      else if sh_plain c then sh_words False (Some (unwrap_or [] cur @ [c])) cs
      else None)"

abbreviation sh_split :: "string \<Rightarrow> string list option" where
  "sh_split \<equiv> sh_words False None"

lemma sh_quoted:
  "sh_words True (Some w) (replace_char (CHR 0x27) [CHR 0x27, CHR 0x5C, CHR 0x27, CHR 0x27] s @ CHR 0x27 # rest)
     = sh_words False (Some (w @ s)) rest"
  by (induction s arbitrary: w) (simp_all add: replace_char_def)

lemma sh_shell_quote: "sh_words False cur (shell_quote s @ rest) = sh_words False (Some (unwrap_or [] cur @ s)) rest"
  by (simp add: shell_quote_def sh_quoted)

lemma sh_plain_word:
  "list_all sh_plain s \<Longrightarrow> s \<noteq> [] \<Longrightarrow> sh_words False cur (s @ rest) = sh_words False (Some (unwrap_or [] cur @ s)) rest"
proof (induction s arbitrary: cur)
  case (Cons c s)
  have "c \<noteq> CHR 0x27" "c \<noteq> CHR 0x5C" "c \<noteq> CHR '' ''"
    using Cons.prems(1) by (auto simp: sh_plain_def is_digit_def less_eq_char_def)
  then show ?case
    using Cons by (cases "s = []") auto
qed simp

lemma sh_split_quoted_words: "sh_split (join '' '' (map shell_quote ws)) = Some ws"
proof (induction ws)
  case (Cons w ws)
  then show ?case
    using sh_shell_quote [of None w "[]"] sh_shell_quote [of None w "CHR '' '' # join '' '' (map shell_quote ws)"]
    by (cases ws) simp_all
qed simp

interpretation quoting: round_trip "\<lambda>ws. join '' '' (map shell_quote ws)" "sh_split"
  by unfold_locales (rule sh_split_quoted_words)

interpretation role: round_trip role_name "\<lambda>s. result_ok (role_from_str s)"
proof
  show "result_ok (role_from_str (role_name r)) = Some r" for r by (cases r) (simp_all add: role_from_str_def)
qed

text \<open>
  C33. Quoting for a remote shell. A POSIX shell reads any list of quoted words, joined by
  blanks the way ssh joins its arguments, back as exactly those words, whatever characters
  they contain, so no two lists of words are sent as the same line; and a command given to \<open>login_shell_args\<close> arrives as the single argument of
  \<open>bash -lc\<close>.
\<close>
theorem shell_quote_round_trip:
  "sh_split (join '' '' (map shell_quote ws)) = Some ws
   \<and> (join '' '' (map shell_quote ws) = join '' '' (map shell_quote ws') \<longleftrightarrow> ws = ws')
   \<and> sh_split (join '' '' (tl (login_shell_args host cmd))) = Some [''bash'', ''-lc'', cmd]"
proof (intro conjI)
  show "sh_split (join '' '' (map shell_quote ws)) = Some ws" by (rule quoting.dec_enc)
  show "join '' '' (map shell_quote ws) = join '' '' (map shell_quote ws') \<longleftrightarrow> ws = ws'" by (rule quoting.enc_eq_iff)
  have "list_all sh_plain ''bash''" "list_all sh_plain ''-lc''"
    by (simp_all add: sh_plain_def is_digit_def less_eq_char_def)
  then show "sh_split (join '' '' (tl (login_shell_args host cmd))) = Some [''bash'', ''-lc'', cmd]"
    using sh_plain_word [of "''bash''" None] sh_plain_word [of "''-lc''" None] sh_shell_quote [of None cmd "[]"]
    by (simp add: login_shell_args_def)
qed

section \<open>The line diff\<close>

text \<open>The two sides of a diff, what it keeps, and the length of a longest common subsequence.\<close>

fun old_side :: "diff_entry list \<Rightarrow> string list" where
  "old_side [] = []"
| "old_side (Keep l # es) = l # old_side es"
| "old_side (Del l # es) = l # old_side es"
| "old_side (Add l # es) = old_side es"

fun new_side :: "diff_entry list \<Rightarrow> string list" where
  "new_side [] = []"
| "new_side (Keep l # es) = l # new_side es"
| "new_side (Del l # es) = new_side es"
| "new_side (Add l # es) = l # new_side es"

fun kept_lines :: "diff_entry list \<Rightarrow> string list" where
  "kept_lines [] = []"
| "kept_lines (Keep l # es) = l # kept_lines es"
| "kept_lines (Del l # es) = kept_lines es"
| "kept_lines (Add l # es) = kept_lines es"

fun lcs :: "'a list \<Rightarrow> 'a list \<Rightarrow> nat" where
  "lcs [] b = 0"
| "lcs (x # a) [] = 0"
| "lcs (x # a) (y # b) = (if x = y then Suc (lcs a b) else max (lcs a (y # b)) (lcs (x # a) b))"

fun tails :: "'a list \<Rightarrow> 'a list list" where
  "tails [] = [[]]"
| "tails (x # xs) = (x # xs) # tails xs"

lemma nth_tails: "i \<le> length xs \<Longrightarrow> tails xs ! i = drop i xs"
  by (induction xs arbitrary: i) (auto simp: nth_Cons split: nat.splits)

lemma length_tails [simp]: "length (tails xs) = Suc (length xs)"
  by (induction xs) auto

lemma hd_tails [simp]: "hd (tails xs) = xs" "tails xs \<noteq> []"
  by (cases xs; simp)+

lemma lcs_Nil [simp]: "lcs a [] = 0"
  by (cases a) auto

lemma lcs_row_spec: "lcs_row x b (map (lcs a) (tails b)) = map (lcs (x # a)) (tails b)"
  by (induction b) (auto simp: hd_map max.commute)

lemma lcs_table_spec: "lcs_table a b = map (\<lambda>a'. map (lcs a') (tails b)) (tails a)"
proof (induction a)
  case Nil
  have "map (lcs []) (tails b) = replicate (Suc (length b)) 0" by (induction b) auto
  then show ?case by simp
next
  case (Cons x a)
  then show ?case by (simp add: hd_map lcs_row_spec del: lcs_row.simps)
qed

lemma lcs_table_nth:
  "i \<le> length a \<Longrightarrow> j \<le> length b \<Longrightarrow> lcs_table a b ! i ! j = lcs (drop i a) (drop j b)"
  by (simp add: lcs_table_spec nth_tails)

lemma lcs_upper: "subseq s a \<Longrightarrow> subseq s b \<Longrightarrow> length s \<le> lcs a b"
proof (induction a b arbitrary: s rule: lcs.induct)
  case (3 x a y b)
  show ?case
  proof (cases s)
    case (Cons c s')
    consider "x = y" | "x \<noteq> y" "c \<noteq> x" | "x \<noteq> y" "c \<noteq> y" by metis
    then show ?thesis
    proof cases
      case 1
      then have "subseq s' a" "subseq s' b"
        using 3(4,5) Cons by (metis subseq_Cons2_iff subseq_Cons')+
      with 1 3(1) Cons show ?thesis by simp
    next
      case 2
      then have "length s \<le> lcs a (y # b)"
        using 3(4,5) Cons by (intro 3(2)) simp_all
      with 2 show ?thesis by simp
    next
      case 3
      then have "length s \<le> lcs (x # a) b"
        using "3.prems" Cons by (intro "3.IH"(3)) simp_all
      with 3 show ?thesis by simp
    qed
  qed simp
qed simp_all

lemma sides_append [simp]:
  "old_side (map Del xs @ map Add ys) = xs" "new_side (map Del xs @ map Add ys) = ys"
  "kept_lines (map Del xs @ map Add ys) = []"
proof -
  have *: "old_side (map Add ys) = []" "new_side (map Add ys) = ys" "kept_lines (map Add ys) = []"
    by (induction ys) auto
  show "old_side (map Del xs @ map Add ys) = xs" "new_side (map Del xs @ map Add ys) = ys"
    "kept_lines (map Del xs @ map Add ys) = []"
    by (induction xs) (auto simp: *)
qed

lemma kept_lines_subseq: "subseq (kept_lines es) (old_side es)" "subseq (kept_lines es) (new_side es)"
  by (induction es rule: kept_lines.induct) auto

lemma diff_loop_spec:
  assumes "i \<le> length a" "j \<le> length b"
  shows "old_side (diff_loop (lcs_table a b) a b i j) = drop i a
    \<and> new_side (diff_loop (lcs_table a b) a b i j) = drop j b
    \<and> length (kept_lines (diff_loop (lcs_table a b) a b i j)) = lcs (drop i a) (drop j b)"
  using assms
proof (induction "lcs_table a b" a b i j rule: diff_loop.induct)
  case (1 a b i j)
  show ?case
  proof (cases "i < length a \<and> j < length b")
    case False
    then have "i = length a \<or> j = length b" using 1(4,5) by auto
    with False show ?thesis by (subst (1 2 3) diff_loop.simps) auto
  next
    case True
    then have d: "drop i a = a ! i # drop (Suc i) a" "drop j b = b ! j # drop (Suc j) b"
      by (auto simp: Cons_nth_drop_Suc)
    have le: "i + 1 \<le> length a" "j + 1 \<le> length b" using True by auto
    consider (same) "a ! i = b ! j"
      | (del) "a ! i \<noteq> b ! j" "lcs_table a b ! (i + 1) ! j \<ge> lcs_table a b ! i ! (j + 1)"
      | (add) "a ! i \<noteq> b ! j" "\<not> lcs_table a b ! (i + 1) ! j \<ge> lcs_table a b ! i ! (j + 1)"
      by blast
    then show ?thesis
    proof cases
      case same
      then show ?thesis
        using 1(1) [OF True same le] True by (subst (1 2 3) diff_loop.simps) (simp add: d)
    next
      case del
      then show ?thesis
        using 1(2) [OF True del le(1) 1(5)] True lcs_table_nth [of "i + 1" a j b] lcs_table_nth [of i a "j + 1" b]
        by (subst (1 2 3) diff_loop.simps) (simp add: d)
    next
      case add
      then show ?thesis
        using 1(3) [OF True add 1(4) le(2)] True lcs_table_nth [of "i + 1" a j b] lcs_table_nth [of i a "j + 1" b]
        by (subst (1 2 3) diff_loop.simps) (simp add: d)
    qed
  qed
qed

text \<open>
  C34. The diff printed before a config file is kept is correct and minimal. Reading its kept and
  deleted lines gives back the old text, its kept and added lines the new one, the table-driven
  loop keeps exactly as many lines as the recursive definition of a longest common subsequence,
  and no common subsequence of the two texts is longer.
\<close>
theorem line_diff_minimal:
  "old_side (diff_entries old new) = lines old
   \<and> new_side (diff_entries old new) = lines new
   \<and> length (kept_lines (diff_entries old new)) = lcs (lines old) (lines new)
   \<and> line_diff old new = concat (map show_entry (diff_entries old new))
   \<and> (\<nexists>s. subseq s (lines old) \<and> subseq s (lines new) \<and> length (kept_lines (diff_entries old new)) < length s)"
proof -
  note * = diff_loop_spec [of 0 "lines old" 0 "lines new"]
  show ?thesis
    using * lcs_upper [of _ "lines old" "lines new"]
    by (auto simp: diff_entries_def line_diff_def Let_def dest!: leD)
qed

section \<open>The credentials file\<close>

text \<open>The reader only sees the trimmed lines of a text.\<close>

definition tlines :: "string \<Rightarrow> string list" where
  "tlines s = map trim (split_inclusive s)"

definition no_nl :: "string \<Rightarrow> bool" where
  "no_nl s \<longleftrightarrow> NL \<notin> set s"

lemma trim_snoc_ws: "is_ws c \<Longrightarrow> trim (l @ [c]) = trim l"
proof (cases "\<forall>x \<in> set l. is_ws x")
  case True
  assume "is_ws c"
  with True have "\<forall>x \<in> set (l @ [c]). is_ws x" by simp
  then have "dropWhile is_ws (l @ [c]) = []" by (rule dropWhile_eq_Nil_conv [THEN iffD2])
  moreover from True have "dropWhile is_ws l = []" by (rule dropWhile_eq_Nil_conv [THEN iffD2])
  ultimately show ?thesis by (simp only: trim_def trim_end_def trim_start_def)
next
  case False
  assume "is_ws c"
  moreover from False have "dropWhile is_ws (l @ [c]) = dropWhile is_ws l @ [c]"
    by (auto simp: dropWhile_append1)
  ultimately show ?thesis by (simp add: trim_def trim_end_def trim_start_def)
qed

lemma strip_eol_cases:
  "(strip_eol l = l \<and> \<not> suffix [NL] l) \<or> l = strip_eol l @ [NL] \<or> l = (strip_eol l @ [CR]) @ [NL]"
proof (cases "strip_suffix [NL] l")
  case None
  then have "\<not> suffix [NL] l" by (auto simp: suffix_def)
  with None show ?thesis by (simp add: strip_eol_def)
next
  case (Some l')
  then have l: "l = l' @ [NL]" by simp
  from Some have e: "strip_eol l = unwrap_or l' (strip_suffix [CR] l')" by (simp add: strip_eol_def)
  show ?thesis
    unfolding e using l by (cases "strip_suffix [CR] l'") simp_all
qed

lemma trim_strip_eol: "trim (strip_eol l) = trim l"
proof -
  have ws: "is_ws NL" "is_ws CR" by (simp_all add: is_ws_def)
  show ?thesis
    using strip_eol_cases [of l] trim_snoc_ws [OF ws(1)] trim_snoc_ws [OF ws(2)] by metis
qed

lemma tlines_lines: "map trim (lines s) = tlines s"
  by (simp add: lines_def tlines_def trim_strip_eol)

lemma split_inclusive_Nil_iff [simp]: "split_inclusive s = [] \<longleftrightarrow> s = []"
  by (cases s) (auto split: list.splits)

lemma split_inclusive_append:
  "a = [] \<or> last a = NL \<Longrightarrow> split_inclusive (a @ b) = split_inclusive a @ split_inclusive b"
proof (induction a)
  case (Cons c a)
  show ?case
  proof (cases "a = []")
    case False
    then obtain l ls where "split_inclusive a = l # ls" by (cases "split_inclusive a") auto
    with False Cons show ?thesis by simp
  qed (use Cons.prems in simp)
qed simp

lemma split_inclusive_snoc_nl:
  "e \<noteq> [] \<Longrightarrow> last e \<noteq> NL \<Longrightarrow> \<exists>ls l. split_inclusive e = ls @ [l] \<and> split_inclusive (e @ [NL]) = ls @ [l @ [NL]]"
proof (induction e)
  case (Cons c e)
  show ?case
  proof (cases "e = []")
    case False
    then obtain ls l where *: "split_inclusive e = ls @ [l]" "split_inclusive (e @ [NL]) = ls @ [l @ [NL]]"
      using Cons by auto
    show ?thesis
    proof (cases "c = NL")
      case True
      with * show ?thesis by (intro exI [of _ "[c] # ls"] exI [of _ l]) simp
    next
      case False
      show ?thesis
      proof (cases ls)
        case Nil
        with False * show ?thesis by simp
      next
        case (Cons x xs)
        with False * show ?thesis by (intro exI [of _ "(c # x) # xs"] exI [of _ l]) simp
      qed
    qed
  qed (use Cons.prems in simp)
qed simp

lemma tlines_append: "a = [] \<or> last a = NL \<Longrightarrow> tlines (a @ b) = tlines a @ tlines b"
  by (simp add: tlines_def split_inclusive_append)

lemma tlines_snoc_nl: "e \<noteq> [] \<Longrightarrow> last e \<noteq> NL \<Longrightarrow> tlines (e @ [NL]) = tlines e"
  using split_inclusive_snoc_nl [of e] by (auto simp: tlines_def trim_snoc_ws is_ws_def)

lemma tlines_line: "no_nl l \<Longrightarrow> tlines (l @ NL # s) = trim l # tlines s"
  by (simp add: tlines_def no_nl_def split_inclusive_line trim_snoc_ws is_ws_def)

lemma tlines_unlines: "\<forall>l \<in> set ls. no_nl l \<Longrightarrow> tlines (unlines ls @ s) = map trim ls @ tlines s"
  by (induction ls) (auto simp: unlines_def tlines_line)

lemma split_inclusive_butlast: "l \<in> set (split_inclusive s) \<Longrightarrow> no_nl (butlast l)"
  by (induction s arbitrary: l) (auto simp: no_nl_def split: if_splits list.splits)

lemma no_nl_lines: "l \<in> set (lines s) \<Longrightarrow> no_nl l"
proof -
  assume "l \<in> set (lines s)"
  then obtain r where r: "r \<in> set (split_inclusive s)" "l = strip_eol r" by (auto simp: lines_def)
  have b: "no_nl (butlast r)" using split_inclusive_butlast [OF r(1)] .
  from strip_eol_cases [of r] consider "l = r" "\<not> suffix [NL] r" | "r = l @ [NL]" | "r = (l @ [CR]) @ [NL]"
    using r(2) by auto
  then show ?thesis
  proof cases
    case 1
    with b show ?thesis by (cases r rule: rev_cases) (auto simp: no_nl_def)
  qed (use b in \<open>simp_all add: no_nl_def butlast_append\<close>)
qed

abbreviation read_profile :: "string \<Rightarrow> profile_state \<Rightarrow> string list \<Rightarrow> profile_state" where
  "read_profile header \<equiv> foldl (\<lambda>st l. profile_line header l st)"

definition profile_init :: profile_state where
  "profile_init = \<lparr> ps_in_section = False, ps_found = False, ps_access = None, ps_secret = None \<rparr>"

lemma trim_trim [simp]: "trim (trim s) = trim s"
proof (rule trim_no_ws)
  have "hd (trim s) = hd (trim_start s)" if "trim s \<noteq> []"
    using that by (metis trim_def trim_end_def append_is_Nil_conv hd_append2 rev_append rev_is_Nil_conv rev_rev_ident takeWhile_dropWhile_id)
  moreover have "trim_start s \<noteq> [] \<Longrightarrow> \<not> is_ws (hd (trim_start s))"
    by (simp add: trim_start_def hd_dropWhile)
  moreover have "trim s \<noteq> [] \<Longrightarrow> \<not> is_ws (last (trim s))"
    by (simp add: trim_def trim_end_def last_rev hd_dropWhile)
  moreover have "trim s \<noteq> [] \<Longrightarrow> trim_start s \<noteq> []"
    by (auto simp: trim_def trim_end_def)
  ultimately show "trim s = [] \<or> \<not> is_ws (hd (trim s)) \<and> \<not> is_ws (last (trim s))"
    by auto
qed

lemma profile_line_trim: "profile_line header (trim l) = profile_line header l"
  by (simp add: profile_line_def fun_eq_iff)

lemma read_profile_trim: "read_profile header st (map trim ls) = read_profile header st ls"
  by (induction ls arbitrary: st) (simp_all add: profile_line_trim)

lemma profile_keys_tlines:
  "profile_keys text profile =
     (let st = read_profile (''['' @ profile @ '']'') profile_init (tlines text)
      in if ps_found st then Some (ps_access st, ps_secret st) else None)"
  by (simp add: profile_keys_def profile_init_def read_profile_trim flip: tlines_lines)

text \<open>Lines outside the section of the profile change nothing but the section they are in.\<close>

lemma read_profile_outside:
  "\<not> ps_in_section st \<Longrightarrow> \<forall>l \<in> set ls. l \<noteq> header \<Longrightarrow> \<forall>l \<in> set ls. trim l = l \<Longrightarrow>
   read_profile header st ls = st"
  by (induction ls arbitrary: st) (auto simp: profile_line_def)

lemma read_profile_body:
  "\<not> ps_in_section st \<Longrightarrow> \<forall>l \<in> set ls. \<not> starts_with ''['' (trim l) \<Longrightarrow> read_profile header st ls = st"
  by (induction ls arbitrary: st) (auto simp: profile_line_def)

lemma trim_start_starts: "starts_with ''['' (trim_start l) \<longleftrightarrow> starts_with ''['' (trim l)"
proof (cases "trim_start l")
  case (Cons c r)
  show ?thesis
  proof (cases "c = CHR ''[''")
    case True
    have "\<exists>t. trim l = c # t"
    proof (cases "\<exists>x \<in> set (rev r). \<not> is_ws x")
      case True
      then have "dropWhile is_ws (rev r @ [c]) = dropWhile is_ws (rev r) @ [c]"
        by (auto simp: dropWhile_append1)
      then show ?thesis by (simp add: trim_def trim_end_def Cons)
    next
      case False
      then have "dropWhile is_ws (rev r @ [c]) = dropWhile is_ws [c]"
        by (intro dropWhile_append2) auto
      with \<open>c = CHR ''[''\<close> show ?thesis
        by (simp add: trim_def trim_end_def Cons is_ws_def)
    qed
    with True show ?thesis by (auto simp: Cons starts_with_def)
  next
    case False
    have "trim l = [] \<or> hd (trim l) = c"
      by (metis Cons append_is_Nil_conv hd_append2 list.sel(1) rev_append rev_is_Nil_conv rev_rev_ident
            takeWhile_dropWhile_id trim_def trim_end_def)
    with False show ?thesis by (cases "trim l") (auto simp: Cons starts_with_def)
  qed
qed (simp add: trim_def trim_end_def starts_with_def)

definition section_tlines :: "string \<Rightarrow> string \<Rightarrow> string \<Rightarrow> string list" where
  "section_tlines profile ak sk =
     [''['' @ profile @ '']'', ''aws_access_key_id = '' @ ak, ''aws_secret_access_key = '' @ sk]"

text \<open>A value that survives the reader's trimming.\<close>

definition ini_value :: "string \<Rightarrow> bool" where
  "ini_value v \<longleftrightarrow> v \<noteq> [] \<and> no_nl v \<and> trim v = v"

lemma ini_value_last: "ini_value v \<Longrightarrow> \<not> is_ws (last v)"
  by (metis ini_value_def hd_dropWhile last_rev rev_is_Nil_conv trim_def trim_end_def)

lemma trim_key_value: "ini_value v \<Longrightarrow> k \<noteq> [] \<Longrightarrow> \<not> is_ws (hd k) \<Longrightarrow> trim (k @ v) = k @ v"
  using ini_value_last [of v] by (intro trim_no_ws) (auto simp: ini_value_def)

lemma tlines_aws_section:
  "no_nl profile \<Longrightarrow> ini_value ak \<Longrightarrow> ini_value sk \<Longrightarrow>
   tlines (aws_section profile ak sk @ s) = section_tlines profile ak sk @ tlines s"
proof -
  assume a: "no_nl profile" "ini_value ak" "ini_value sk"
  have "trim (''['' @ profile @ '']'') = ''['' @ profile @ '']''"
    by (rule trim_no_ws) (simp add: is_ws_def)
  moreover have "trim (''aws_access_key_id = '' @ ak) = ''aws_access_key_id = '' @ ak"
    by (rule trim_key_value) (use a in \<open>simp_all add: is_ws_def\<close>)
  moreover have "trim (''aws_secret_access_key = '' @ sk) = ''aws_secret_access_key = '' @ sk"
    by (rule trim_key_value) (use a in \<open>simp_all add: is_ws_def\<close>)
  moreover have "no_nl (''['' @ profile @ '']'')" "no_nl (''aws_access_key_id = '' @ ak)"
    "no_nl (''aws_secret_access_key = '' @ sk)"
    using a by (simp_all add: no_nl_def ini_value_def)
  ultimately show ?thesis
    using tlines_line [of "''['' @ profile @ '']''"] tlines_line [of "''aws_access_key_id = '' @ ak"]
      tlines_line [of "''aws_secret_access_key = '' @ sk"]
    by (simp add: aws_section_def section_tlines_def)
qed

text \<open>Reading the section: it sets its own profile's keys and is skipped for every other.\<close>

lemma read_section_own:
  assumes "ini_value ak" "ini_value sk"
  shows "read_profile (''['' @ profile @ '']'') st (section_tlines profile ak sk)
    = \<lparr> ps_in_section = True, ps_found = True, ps_access = Some ak, ps_secret = Some sk \<rparr>"
proof -
  have h: "trim (''['' @ profile @ '']'') = ''['' @ profile @ '']''"
    by (rule trim_no_ws) (simp add: is_ws_def)
  have k: "trim (''aws_access_key_id = '' @ ak) = ''aws_access_key_id = '' @ ak"
    "trim (''aws_secret_access_key = '' @ sk) = ''aws_secret_access_key = '' @ sk"
    by (rule trim_key_value; use assms in \<open>simp add: is_ws_def\<close>)+
  have v: "trim (CHR '' '' # ak) = ak" "trim (CHR '' '' # sk) = sk" "ak \<noteq> []" "sk \<noteq> []"
    using assms by (simp_all add: ini_value_def trim_def trim_start_def is_ws_def)
  have n: "trim ''aws_access_key_id '' = ''aws_access_key_id''"
    "trim ''aws_secret_access_key '' = ''aws_secret_access_key''" by code_simp+
  show ?thesis
    using h k by (simp add: section_tlines_def profile_line_def starts_with_def v n)
qed

lemma read_section_other:
  assumes "ini_value ak" "ini_value sk" "p' \<noteq> profile"
  shows "read_profile (''['' @ p' @ '']'') st (section_tlines profile ak sk) = st\<lparr>ps_in_section := False\<rparr>"
proof -
  have h: "trim (''['' @ profile @ '']'') = ''['' @ profile @ '']''"
    by (rule trim_no_ws) (simp add: is_ws_def)
  have k: "trim (''aws_access_key_id = '' @ ak) = ''aws_access_key_id = '' @ ak"
    "trim (''aws_secret_access_key = '' @ sk) = ''aws_secret_access_key = '' @ sk"
    by (rule trim_key_value; use assms in \<open>simp add: is_ws_def\<close>)+
  show ?thesis
    using h k assms(3) by (simp add: section_tlines_def profile_line_def starts_with_def)
qed

text \<open>
  The file before and after: the lines in front of the section and behind it are kept, the old
  section, if there is one, gives way to the new one.
\<close>

lemma aws_credentials_shape:
  assumes "no_nl profile" "ini_value ak" "ini_value sk"
  shows "\<exists>P body blank Q.
    tlines existing = P @ body @ Q
    \<and> tlines (aws_credentials_with_profile existing profile ak sk) = P @ blank @ section_tlines profile ak sk @ Q
    \<and> ''['' @ profile @ '']'' \<notin> set P
    \<and> (body = [] \<and> Q = [] \<and> (blank = [] \<or> blank = [[]])
       \<or> (\<exists>mid. body = (''['' @ profile @ '']'') # mid \<and> blank = [] \<and> (\<forall>l \<in> set mid. \<not> starts_with ''['' l)
             \<and> (Q = [] \<or> starts_with ''['' (hd Q))))"
proof (cases "position (\<lambda>l. trim l = ''['' @ profile @ '']'') (lines existing)")
  case None
  let ?o = "existing @ (if existing \<noteq> [] \<and> \<not> ends_with [NL] existing then [NL] else [])"
  have last: "?o = [] \<or> last ?o = NL"
    by (cases existing rule: rev_cases) (auto simp: ends_with_suffix suffix_def)
  have eq: "tlines ?o = tlines existing"
    using tlines_snoc_nl [of existing] by (cases existing rule: rev_cases) (auto simp: ends_with_suffix suffix_def)
  have sect: "tlines (aws_section profile ak sk) = section_tlines profile ak sk"
    using tlines_aws_section [OF assms, of "[]"] by (simp add: tlines_def)
  let ?b = "if ?o = [] then [] else [[] :: string]"
  have nl: "tlines (NL # s) = [] # tlines s" for s
    using tlines_line [of "[]" s] by (simp add: no_nl_def trim_def trim_end_def trim_start_def)
  have out: "aws_credentials_with_profile existing profile ak sk
      = ?o @ (if ?o \<noteq> [] then [NL] else []) @ aws_section profile ak sk"
    using None by (simp only: aws_credentials_with_profile_def Let_def option.case)
  have "tlines (aws_credentials_with_profile existing profile ak sk)
      = tlines existing @ ?b @ section_tlines profile ak sk"
    unfolding out tlines_append [OF last] eq by (simp add: nl sect)
  moreover have "''['' @ profile @ '']'' \<notin> set (tlines existing)"
    using None by (auto simp: position_None simp flip: tlines_lines)
  ultimately show ?thesis
    by (intro exI [of _ "tlines existing"] exI [of _ "[]"] exI [of _ ?b]) simp
next
  case (Some start)
  let ?ls = "lines existing"
  let ?rest = "drop (start + 1) ?ls"
  let ?n = "length (takeWhile (\<lambda>l. \<not> starts_with ''['' (trim_start l)) ?rest)"
  have s: "start < length ?ls" "trim (?ls ! start) = ''['' @ profile @ '']''"
    "\<forall>l \<in> set (take start ?ls). trim l \<noteq> ''['' @ profile @ '']''"
    using position_Some [OF Some] by (auto simp: in_set_conv_nth)
  have ls: "?ls = take start ?ls @ ?ls ! start # ?rest"
    using s(1) by (simp add: id_take_nth_drop)
  have stop: "(case position (\<lambda>l. starts_with ''['' (trim_start l)) ?rest of
      Some p \<Rightarrow> start + 1 + p | None \<Rightarrow> length ?ls) = start + 1 + ?n"
    using position_takeWhile [of ?rest "\<lambda>l. starts_with ''['' (trim_start l)"] s(1)
    by (cases "position (\<lambda>l. starts_with ''['' (trim_start l)) ?rest") simp_all
  have drp: "drop (start + 1 + ?n) ?ls = dropWhile (\<lambda>l. \<not> starts_with ''['' (trim_start l)) ?rest"
    by (simp add: dropWhile_eq_drop add.commute)
  let ?Q = "dropWhile (\<lambda>l. \<not> starts_with ''['' (trim_start l)) ?rest"
  let ?M = "takeWhile (\<lambda>l. \<not> starts_with ''['' (trim_start l)) ?rest"
  have out: "aws_credentials_with_profile existing profile ak sk
      = unlines (take start ?ls) @ aws_section profile ak sk @ unlines ?Q"
    using Some by (simp only: aws_credentials_with_profile_def Let_def option.case stop drp)
  have nl: "\<forall>l \<in> set (take start ?ls). no_nl l" "\<forall>l \<in> set ?Q. no_nl l"
    using no_nl_lines by (fastforce dest: in_set_takeD in_set_dropD set_dropWhileD)+
  have "tlines (unlines ?Q) = map trim ?Q"
    using tlines_unlines [OF nl(2), of "[]"] by (simp add: tlines_def)
  then have e2: "tlines (aws_credentials_with_profile existing profile ak sk)
      = map trim (take start ?ls) @ [] @ section_tlines profile ak sk @ map trim ?Q"
    unfolding out by (simp add: tlines_unlines [OF nl(1)] tlines_aws_section [OF assms])
  have e1: "tlines existing
      = map trim (take start ?ls) @ ((''['' @ profile @ '']'') # map trim ?M) @ map trim ?Q"
  proof -
    have "tlines existing = map trim (take start ?ls) @ trim (?ls ! start) # map trim ?rest"
      using arg_cong [OF ls, of "map trim"] by (simp only: map_append list.map tlines_lines)
    moreover have "map trim ?rest = map trim ?M @ map trim ?Q" by (simp flip: map_append)
    ultimately show ?thesis by (simp only: s(2) append_Cons)
  qed
  have e3: "map trim ?Q = [] \<or> starts_with ''['' (hd (map trim ?Q))"
  proof (cases "?Q = []")
    case False
    then have "starts_with ''['' (trim_start (hd ?Q))" by (meson hd_dropWhile)
    with False show ?thesis by (simp add: hd_map trim_start_starts)
  qed simp
  have e4: "\<forall>l \<in> set (map trim ?M). \<not> starts_with ''['' l"
    by (auto dest!: set_takeWhileD simp: trim_start_starts)
  have e5: "''['' @ profile @ '']'' \<notin> set (map trim (take start ?ls))"
    using s(3) by (metis (no_types, lifting) image_iff list.set_map)
  show ?thesis
    by (rule exI, rule exI, rule exI, rule exI, rule conjI [OF e1], rule conjI [OF e2], rule conjI [OF e5],
        rule disjI2, rule exI, rule conjI [OF refl], rule conjI [OF refl], rule conjI [OF e4 e3])
qed

lemma tlines_trimmed: "l \<in> set (tlines s) \<Longrightarrow> trim l = l"
  by (auto simp: tlines_def)

lemma count_tlines: "length (filter (\<lambda>l. trim l = h) (lines s)) = count_list (tlines s) h"
proof -
  have "count_list (map trim ls) h = length (filter (\<lambda>l. trim l = h) ls)" for ls
    by (induction ls) auto
  then show ?thesis by (simp flip: tlines_lines)
qed

lemma read_after_section:
  assumes "Q = [] \<or> starts_with ''['' (hd Q)" "h \<notin> set Q" "\<forall>l \<in> set Q. trim l = l"
  shows "\<exists>i. read_profile h st Q = st\<lparr>ps_in_section := i\<rparr>"
proof (cases Q)
  case Nil
  then show ?thesis by (intro exI [of _ "ps_in_section st"]) simp
next
  case (Cons q Q')
  with assms have q: "starts_with ''['' q" "trim q = q" "q \<noteq> h" by auto
  have "profile_line h q st = st\<lparr>ps_in_section := False\<rparr>"
    using q by (simp add: profile_line_def)
  moreover have "read_profile h (st\<lparr>ps_in_section := False\<rparr>) Q' = st\<lparr>ps_in_section := False\<rparr>"
    using assms Cons by (intro read_profile_outside) auto
  ultimately show ?thesis using Cons by (intro exI [of _ False]) simp
qed

lemma profile_keys_own:
  assumes "no_nl profile" "ini_value ak" "ini_value sk"
    and once: "length (filter (\<lambda>l. trim l = ''['' @ profile @ '']'') (lines existing)) \<le> 1"
  shows "profile_keys (aws_credentials_with_profile existing profile ak sk) profile = Some (Some ak, Some sk)"
proof -
  let ?h = "''['' @ profile @ '']''"
  from aws_credentials_shape [OF assms(1-3), of existing] obtain P body blank Q where
    ex: "tlines existing = P @ body @ Q" and
    out: "tlines (aws_credentials_with_profile existing profile ak sk) = P @ blank @ section_tlines profile ak sk @ Q" and
    P: "?h \<notin> set P" and
    sh: "body = [] \<and> Q = [] \<and> (blank = [] \<or> blank = [[]])
       \<or> (\<exists>mid. body = ?h # mid \<and> blank = [] \<and> (\<forall>l \<in> set mid. \<not> starts_with ''['' l)
             \<and> (Q = [] \<or> starts_with ''['' (hd Q)))"
    by blast
  have tr: "\<forall>l \<in> set P. trim l = l" "\<forall>l \<in> set Q. trim l = l"
    using tlines_trimmed [of _ existing] ex by auto
  have "blank = [] \<or> blank = [[]]" using sh by blast
  then have blank: "?h \<notin> set (P @ blank)" "\<forall>l \<in> set (P @ blank). trim l = l"
    using P tr by (auto simp: trim_def trim_end_def trim_start_def)
  let ?st = "\<lparr> ps_in_section = True, ps_found = True, ps_access = Some ak, ps_secret = Some sk \<rparr>"
  have front: "read_profile ?h profile_init (P @ blank) = profile_init"
    by (rule read_profile_outside) (use blank in \<open>auto simp: profile_init_def\<close>)
  have "?h \<notin> set Q"
    using once sh unfolding count_tlines ex by (auto simp: count_list_0_iff)
  moreover have "Q = [] \<or> starts_with ''['' (hd Q)" using sh by blast
  ultimately obtain i where i: "read_profile ?h ?st Q = ?st\<lparr>ps_in_section := i\<rparr>"
    using read_after_section [OF _ _ tr(2)] by blast
  have "read_profile ?h profile_init (P @ blank @ section_tlines profile ak sk @ Q) = ?st\<lparr>ps_in_section := i\<rparr>"
    using front i by (simp only: foldl_append read_section_own [OF assms(2,3)])
  then show ?thesis
    by (simp only: profile_keys_tlines out Let_def) simp
qed

lemma profile_keys_other:
  assumes "no_nl profile" "ini_value ak" "ini_value sk" "p' \<noteq> profile"
  shows "profile_keys (aws_credentials_with_profile existing profile ak sk) p' = profile_keys existing p'"
proof -
  let ?h = "''['' @ p' @ '']''"
  from aws_credentials_shape [OF assms(1-3), of existing] obtain P body blank Q where
    ex: "tlines existing = P @ body @ Q" and
    out: "tlines (aws_credentials_with_profile existing profile ak sk) = P @ blank @ section_tlines profile ak sk @ Q" and
    sh: "body = [] \<and> Q = [] \<and> (blank = [] \<or> blank = [[]])
       \<or> (\<exists>mid. body = (''['' @ profile @ '']'') # mid \<and> blank = [] \<and> (\<forall>l \<in> set mid. \<not> starts_with ''['' l)
             \<and> (Q = [] \<or> starts_with ''['' (hd Q)))"
    by blast
  let ?st = "read_profile ?h profile_init P"
  have empty: "read_profile ?h st [[]] = st" for st
    by (simp add: profile_line_def trim_def trim_end_def trim_start_def starts_with_def)
  note sec = read_section_other [OF assms(2,3,4)]
  from sh consider (absent) "body = [] \<and> Q = [] \<and> (blank = [] \<or> blank = [[]])"
    | (present) mid where "body = (''['' @ profile @ '']'') # mid" "blank = []" "\<forall>l \<in> set mid. \<not> starts_with ''['' l"
    by blast
  then show ?thesis
  proof cases
    case absent
    then have b: "body = []" "Q = []" "blank = [] \<or> blank = [[]]" by auto
    have "read_profile ?h ?st blank = ?st"
      using b(3) empty by (metis foldl_Nil)
    then have "read_profile ?h profile_init (P @ blank @ section_tlines profile ak sk @ Q)
        = ?st\<lparr>ps_in_section := False\<rparr>"
      using b(2) by (simp only: foldl_append sec foldl_Nil)
    then show ?thesis
      using b(1,2) by (simp only: profile_keys_tlines ex out Let_def append_Nil2) simp
  next
    case m: (present mid)
    have "\<forall>l \<in> set mid. trim l = l" using tlines_trimmed [of _ existing] ex m(1) by auto
    then have mid: "read_profile ?h (?st\<lparr>ps_in_section := False\<rparr>) mid = ?st\<lparr>ps_in_section := False\<rparr>"
      using m(3) by (intro read_profile_body) auto
    have "trim (''['' @ profile @ '']'') = ''['' @ profile @ '']''"
      by (rule trim_no_ws) (simp add: is_ws_def)
    then have "profile_line ?h (''['' @ profile @ '']'') ?st = ?st\<lparr>ps_in_section := False\<rparr>"
      using assms(4) by (simp add: profile_line_def starts_with_def)
    then show ?thesis
      unfolding profile_keys_tlines ex out using m(1,2) mid sec [of ?st]
      by (simp only: foldl_append foldl_Cons append_Nil append_Cons)
  qed
qed

text \<open>
  C35. The credentials written by setup are the ones the store reads. After
  \<open>aws_credentials_with_profile\<close> the reader finds exactly the two keys of the profile, resolution
  succeeds with them when the environment sets none, and every other profile of the file reads
  as it did before. The profile's header may occur at most once in the file, and the keys are
  non-empty, on one line and without outer blanks.
\<close>
theorem aws_profile_round_trip:
  assumes "no_nl profile" "ini_value ak" "ini_value sk"
    and "length (filter (\<lambda>l. trim l = ''['' @ profile @ '']'') (lines existing)) \<le> 1"
  shows "profile_keys (aws_credentials_with_profile existing profile ak sk) profile = Some (Some ak, Some sk)
    \<and> resolve_credentials (\<lambda>_. None) (Some (aws_credentials_with_profile existing profile ak sk)) path profile
        = Ok \<lparr> cr_access_key = ak, cr_secret_key = sk \<rparr>
    \<and> (\<nexists>p. p \<noteq> profile
        \<and> profile_keys (aws_credentials_with_profile existing profile ak sk) p \<noteq> profile_keys existing p)"
  using profile_keys_own [OF assms] profile_keys_other [OF assms(1-3)]
  by (auto simp: resolve_credentials_def)

theorem aws_profile_round_trip_witness:
  "profile_keys (aws_credentials_with_profile (''[a]'' @ [NL] ) ''rbs'' ''k'' ''s'') ''rbs'' = Some (Some ''k'', Some ''s'')"
proof -
  have "no_nl ''rbs''" "ini_value ''k''" "ini_value ''s''"
    "length (filter (\<lambda>l. trim l = ''['' @ ''rbs'' @ '']'') (lines (''[a]'' @ [NL]))) \<le> 1"
    by (simp_all add: no_nl_def ini_value_def) code_simp+
  from aws_profile_round_trip [OF this] show ?thesis by blast
qed

text \<open>With two sections of the same profile, only the first is replaced and the second still wins.\<close>

lemma aws_profile_duplicate_stale:
  "profile_keys (aws_credentials_with_profile
      (''[rbs]'' @ [NL] @ ''[rbs]'' @ [NL] @ ''aws_access_key_id = old'' @ [NL]) ''rbs'' ''k'' ''s'') ''rbs''
   = Some (Some ''old'', Some ''s'')"
  by code_simp

end
