(* ===== verification/Provision.thy ===== *)
theory Provision
  imports Setup_Text Real_Cargo
begin

text \<open>
  What the provisioning commands of \<open>crates/rbs-setup\<close> run on: the \<open>Runner\<close> of \<open>runner.rs\<close>, the
  locations of \<open>paths.rs\<close> and the file system.

  An operation takes the history of everything done so far and gives its result with the history
  extended by what it did. The machine's answers are the fields of \<open>sys\<close>, each an arbitrary
  function of that history: a command or a file may answer differently every time it is asked,
  and nothing is assumed about it.
\<close>

section \<open>Effects and answers\<close>

datatype effect =
    Ran "path option" string "string list"
  | ReadFile path
  | WroteFile path string
  | SetMode path nat
  | MadeDirs path
  | RemovedFile path
  | HardLinked path path
  | Symlinked path path
  | Printed string

type_synonym history = "effect list"

type_synonym ('a, 'e) act = "history \<Rightarrow> ('a, 'e) result \<times> history"

record 'io sys =
  sy_run :: "history \<Rightarrow> path option \<Rightarrow> string \<Rightarrow> string list \<Rightarrow> (cmd_output, 'io) result"
  sy_read :: "history \<Rightarrow> path \<Rightarrow> (string, 'io) result"
  sy_write :: "history \<Rightarrow> path \<Rightarrow> string \<Rightarrow> (unit, 'io) result"
  sy_chmod :: "history \<Rightarrow> path \<Rightarrow> nat \<Rightarrow> (unit, 'io) result"
  sy_mkdirs :: "history \<Rightarrow> path \<Rightarrow> (unit, 'io) result"
  sy_remove :: "history \<Rightarrow> path \<Rightarrow> (unit, 'io) result"
  sy_hard_link :: "history \<Rightarrow> path \<Rightarrow> path \<Rightarrow> (unit, 'io) result"
  sy_symlink :: "history \<Rightarrow> path \<Rightarrow> path \<Rightarrow> (unit, 'io) result"
  sy_is_file :: "history \<Rightarrow> path \<Rightarrow> bool"
  sy_exists :: "history \<Rightarrow> path \<Rightarrow> bool"
  sy_mode :: "history \<Rightarrow> path \<Rightarrow> u32 option"
  sy_not_found :: "'io \<Rightarrow> bool"
  sy_show_io :: "'io \<Rightarrow> string"
  sy_elapsed_ms :: "history \<Rightarrow> nat"
  sy_toolchain_toml :: "string \<Rightarrow> string option option"

definition act_ret :: "'a \<Rightarrow> ('a, 'e) act" where
  "act_ret x h = (Ok x, h)"

definition act_err :: "'e \<Rightarrow> ('a, 'e) act" where
  "act_err e h = (Err e, h)"

definition act_lift :: "('a, 'e) result \<Rightarrow> ('a, 'e) act" where
  "act_lift r h = (r, h)"

text \<open>The operator \<open>?\<close>: stop at an error.\<close>

definition act_bind :: "('a, 'e) act \<Rightarrow> ('a \<Rightarrow> ('b, 'e) act) \<Rightarrow> ('b, 'e) act" where
  "act_bind m f h = (case m h of (Inl e, h') \<Rightarrow> (Inl e, h') | (Inr x, h') \<Rightarrow> f x h')"

text \<open>Matching on a result, errors included.\<close>

definition act_match :: "('a, 'e) act \<Rightarrow> (('a, 'e) result \<Rightarrow> ('b, 'f) act) \<Rightarrow> ('b, 'f) act" where
  "act_match m f h = (case m h of (r, h') \<Rightarrow> f r h')"

definition act_map_err :: "('e \<Rightarrow> 'f) \<Rightarrow> ('a, 'e) act \<Rightarrow> ('a, 'f) act" where
  "act_map_err f m h = (case m h of (r, h') \<Rightarrow> (map_err f r, h'))"

definition act_print :: "string \<Rightarrow> (unit, 'e) act" where
  "act_print s h = (Ok (), h @ [Printed s])"

text \<open>A query of the machine that changes nothing.\<close>

definition act_ask :: "(history \<Rightarrow> 'a) \<Rightarrow> ('a, 'e) act" where
  "act_ask q h = (Ok (q h), h)"

fun act_for :: "'a list \<Rightarrow> ('a \<Rightarrow> ('b, 'e) act) \<Rightarrow> ('b list, 'e) act" where
  "act_for [] f = act_ret []"
| "act_for (x # xs) f = act_bind (f x) (\<lambda>y. act_bind (act_for xs f) (\<lambda>ys. act_ret (y # ys)))"

definition fs_read :: "'io sys \<Rightarrow> path \<Rightarrow> (string, 'io) act" where
  "fs_read sys p h = (sy_read sys h p, h @ [ReadFile p])"

definition fs_write :: "'io sys \<Rightarrow> path \<Rightarrow> string \<Rightarrow> (unit, 'io) act" where
  "fs_write sys p s h = (sy_write sys h p s, h @ [WroteFile p s])"

definition fs_chmod :: "'io sys \<Rightarrow> path \<Rightarrow> nat \<Rightarrow> (unit, 'io) act" where
  "fs_chmod sys p m h = (sy_chmod sys h p m, h @ [SetMode p m])"

definition fs_mkdirs :: "'io sys \<Rightarrow> path \<Rightarrow> (unit, 'io) act" where
  "fs_mkdirs sys p h = (sy_mkdirs sys h p, h @ [MadeDirs p])"

definition fs_remove :: "'io sys \<Rightarrow> path \<Rightarrow> (unit, 'io) act" where
  "fs_remove sys p h = (sy_remove sys h p, h @ [RemovedFile p])"

definition fs_hard_link :: "'io sys \<Rightarrow> path \<Rightarrow> path \<Rightarrow> (unit, 'io) act" where
  "fs_hard_link sys a b h = (sy_hard_link sys h a b, h @ [HardLinked a b])"

definition fs_symlink :: "'io sys \<Rightarrow> path \<Rightarrow> path \<Rightarrow> (unit, 'io) act" where
  "fs_symlink sys a b h = (sy_symlink sys h a b, h @ [Symlinked a b])"

section \<open>\<open>runner.rs\<close>\<close>

datatype 'io runner_error = Spawn string 'io

fun show_runner_error :: "('io \<Rightarrow> string) \<Rightarrow> 'io runner_error \<Rightarrow> string" where
  "show_runner_error show_io (Spawn program source) = ''failed to spawn `'' @ program @ ''`: '' @ show_io source"

text \<open>\<open>SystemRunner\<close>.\<close>

definition run_in :: "'io sys \<Rightarrow> path option \<Rightarrow> string \<Rightarrow> string list \<Rightarrow> (cmd_output, 'io runner_error) act" where
  "run_in sys cwd program args h = (map_err (Spawn program) (sy_run sys h cwd program args), h @ [Ran cwd program args])"

definition run_cmd :: "'io sys \<Rightarrow> string \<Rightarrow> string list \<Rightarrow> (cmd_output, 'io runner_error) act" where
  "run_cmd sys program args = run_in sys None program args"

section \<open>\<open>paths.rs\<close>\<close>

datatype 'io paths_error = NoHome | NoSelfExe 'io

record paths =
  pt_home :: path
  pt_config_dir :: path
  pt_self_exe :: path
  pt_path_dirs :: "path list"

definition paths_from_env ::
  "(string \<rightharpoonup> string) \<Rightarrow> (path, 'io) result \<Rightarrow> path option \<Rightarrow> (paths, 'io paths_error) result" where
  "paths_from_env env current_exe self_exe =
     and_then (ok_or NoHome (env ''HOME'')) (\<lambda>home.
       let config_dir = unwrap_or (path_join home ''.config'') (option_filter is_absolute (env ''XDG_CONFIG_HOME'')) in
       and_then (case self_exe of Some p \<Rightarrow> Ok p | None \<Rightarrow> map_err NoSelfExe current_exe) (\<lambda>exe.
         Ok \<lparr> pt_home = home, pt_config_dir = config_dir, pt_self_exe = exe,
              pt_path_dirs = unwrap_or [] (map_option split_paths (env ''PATH'')) \<rparr>))"

definition rbs_config_path :: "paths \<Rightarrow> path" where
  "rbs_config_path p = user_config_path (pt_home p) (Some (pt_config_dir p))"

definition minio_env :: "paths \<Rightarrow> path" where
  "minio_env p = path_join (pt_config_dir p) ''rbs/minio.env''"

definition kache_config_path :: "paths \<Rightarrow> path" where
  "kache_config_path p = path_join (pt_config_dir p) ''kache/config.toml''"

definition aws_credentials :: "paths \<Rightarrow> path" where
  "aws_credentials p = path_join (pt_home p) ''.aws/credentials''"

definition systemd_user_dir :: "paths \<Rightarrow> path" where
  "systemd_user_dir p = path_join (pt_config_dir p) ''systemd/user''"

definition shim_dir :: "paths \<Rightarrow> path" where
  "shim_dir p = path_join (pt_home p) ''.local/share/rbs/shim''"

definition kache_bin :: "'io sys \<Rightarrow> paths \<Rightarrow> history \<Rightarrow> string" where
  "kache_bin sys p h =
     (let k = path_join (pt_home p) ''.local/bin/kache'' in if sy_is_file sys h k then k else ''kache'')"

definition is_executable :: "'io sys \<Rightarrow> history \<Rightarrow> path \<Rightarrow> bool" where
  "is_executable sys h p \<longleftrightarrow>
     (case sy_mode sys h p of Some mode \<Rightarrow> sy_is_file sys h p \<and> and mode 0x49 \<noteq> 0 | None \<Rightarrow> False)"

definition find_on_path :: "'io sys \<Rightarrow> paths \<Rightarrow> string \<Rightarrow> history \<Rightarrow> path option" where
  "find_on_path sys p name h = find (is_executable sys h) (map (\<lambda>d. path_join d name) (pt_path_dirs p))"

section \<open>Reasoning about histories\<close>

named_theorems emits_rules \<open>which effects an operation has, by its structure\<close>

text \<open>Every effect an operation adds satisfies \<open>P\<close>, and it only adds.\<close>

definition emits :: "(effect \<Rightarrow> bool) \<Rightarrow> ('a, 'e) act \<Rightarrow> bool" where
  "emits P m \<longleftrightarrow> (\<forall>h. \<exists>es. snd (m h) = h @ es \<and> list_all P es)"

lemmas act_defs = act_ret_def act_err_def act_lift_def act_bind_def act_match_def act_map_err_def
  act_print_def act_ask_def

lemma emitsI: "(\<And>h. \<exists>es. snd (m h) = h @ es \<and> list_all P es) \<Longrightarrow> emits P m"
  by (simp add: emits_def)

lemma emitsD:
  assumes "emits P m" "m h = (r, h')"
  obtains es where "h' = h @ es" "list_all P es"
  using assms by (metis emits_def snd_conv)

lemma emits_mono: "emits P m \<Longrightarrow> (\<And>e. P e \<Longrightarrow> Q e) \<Longrightarrow> emits Q m"
  by (auto simp: emits_def list_all_iff) metis

lemma emits_pure [emits_rules]:
  "emits P (act_ret x)" "emits P (act_err e)" "emits P (act_lift r)" "emits P (act_ask q)"
  by (auto simp: emits_def act_defs)

lemma emits_bind [emits_rules]: "emits P m \<Longrightarrow> (\<And>x. emits P (f x)) \<Longrightarrow> emits P (act_bind m f)"
proof (rule emitsI)
  fix h
  assume m: "emits P m" and f: "\<And>x. emits P (f x)"
  obtain r h' where mh: "m h = (r, h')" by (rule prod.exhaust)
  obtain es where es: "h' = h @ es" "list_all P es" using emitsD [OF m mh] .
  show "\<exists>es. snd (act_bind m f h) = h @ es \<and> list_all P es"
  proof (cases r)
    case (Inr x)
    obtain r' h'' where fh: "f x h' = (r', h'')" by (rule prod.exhaust)
    obtain es' where "h'' = h' @ es'" "list_all P es'" using emitsD [OF f fh] .
    then show ?thesis using mh es Inr fh by (simp add: act_bind_def)
  qed (use mh es in \<open>simp add: act_bind_def\<close>)
qed

lemma emits_bind_lift:
  "(\<And>x. r = Inr x \<Longrightarrow> emits P (f x)) \<Longrightarrow> emits P (act_bind (act_lift r) f)"
proof (cases r)
  case (Inl e)
  then have "act_bind (act_lift r) f = act_err e" by (simp add: act_defs fun_eq_iff)
  then show ?thesis by (simp add: emits_pure)
next
  case (Inr x)
  assume "\<And>x. r = Inr x \<Longrightarrow> emits P (f x)"
  moreover from Inr have "act_bind (act_lift r) f = f x" by (simp add: act_defs fun_eq_iff)
  ultimately show ?thesis using Inr by simp
qed

lemma emits_bind_ask:
  "(\<And>h. emits P (f (q h))) \<Longrightarrow> emits P (act_bind (act_ask q) f)"
  by (auto simp: emits_def act_bind_def act_ask_def)

lemma emits_bind_if:
  "(b \<Longrightarrow> emits P (act_bind m f)) \<Longrightarrow> (\<not> b \<Longrightarrow> emits P (act_bind m' f)) \<Longrightarrow> emits P (act_bind (if b then m else m') f)"
  by auto

lemma act_bind_ret [simp]: "act_bind (act_ret x) f = f x"
  by (simp add: act_defs fun_eq_iff)

lemma emits_match [emits_rules]: "emits P m \<Longrightarrow> (\<And>r. emits P (f r)) \<Longrightarrow> emits P (act_match m f)"
proof (rule emitsI)
  fix h
  assume m: "emits P m" and f: "\<And>r. emits P (f r)"
  obtain r h' where mh: "m h = (r, h')" by (rule prod.exhaust)
  obtain es where es: "h' = h @ es" "list_all P es" using emitsD [OF m mh] .
  obtain r' h'' where fh: "f r h' = (r', h'')" by (rule prod.exhaust)
  obtain es' where "h'' = h' @ es'" "list_all P es'" using emitsD [OF f fh] .
  then show "\<exists>es. snd (act_match m f h) = h @ es \<and> list_all P es"
    using mh es fh by (simp add: act_match_def)
qed

lemma emits_map_err [emits_rules]: "emits P m \<Longrightarrow> emits P (act_map_err f m)"
  by (simp add: emits_def act_map_err_def split: prod.splits) (metis snd_conv)

lemma emits_for [emits_rules]: "(\<And>x. emits P (f x)) \<Longrightarrow> emits P (act_for xs f)"
  by (induction xs) (auto intro!: emits_rules)

lemma emits_split [emits_rules]:
  "(b \<Longrightarrow> emits P m) \<Longrightarrow> (\<not> b \<Longrightarrow> emits P m') \<Longrightarrow> emits P (if b then m else m')"
  "(x = None \<Longrightarrow> emits P m) \<Longrightarrow> (\<And>y. x = Some y \<Longrightarrow> emits P (f y)) \<Longrightarrow> emits P (case x of None \<Rightarrow> m | Some y \<Rightarrow> f y)"
  "(\<And>e. r = Inl e \<Longrightarrow> emits P (g e)) \<Longrightarrow> (\<And>y. r = Inr y \<Longrightarrow> emits P (k y)) \<Longrightarrow> emits P (case r of Inl e \<Rightarrow> g e | Inr y \<Rightarrow> k y)"
  "(\<And>a b. p = (a, b) \<Longrightarrow> emits P (k' a b)) \<Longrightarrow> emits P (case p of (a, b) \<Rightarrow> k' a b)"
  "(rl = Client \<Longrightarrow> emits P m) \<Longrightarrow> (rl = ServerRole \<Longrightarrow> emits P m') \<Longrightarrow> emits P (case rl of Client \<Rightarrow> m | ServerRole \<Rightarrow> m')"
  by (auto split: option.splits sum.splits prod.splits role.splits)

lemma emits_effect [emits_rules]:
  "P (Printed s) \<Longrightarrow> emits P (act_print s)"
  "P (ReadFile p) \<Longrightarrow> emits P (fs_read sys p)"
  "P (WroteFile p s) \<Longrightarrow> emits P (fs_write sys p s)"
  "P (SetMode p m) \<Longrightarrow> emits P (fs_chmod sys p m)"
  "P (MadeDirs p) \<Longrightarrow> emits P (fs_mkdirs sys p)"
  "P (RemovedFile p) \<Longrightarrow> emits P (fs_remove sys p)"
  "P (HardLinked p q) \<Longrightarrow> emits P (fs_hard_link sys p q)"
  "P (Symlinked p q) \<Longrightarrow> emits P (fs_symlink sys p q)"
  "P (Ran cwd prog args) \<Longrightarrow> emits P (run_in sys cwd prog args)"
  "P (Ran None prog args) \<Longrightarrow> emits P (run_cmd sys prog args)"
  by (auto simp: emits_def act_print_def fs_read_def fs_write_def fs_chmod_def fs_mkdirs_def fs_remove_def
      fs_hard_link_def fs_symlink_def run_in_def run_cmd_def)

text \<open>Cutting a successful run of a sequence into its parts.\<close>

lemma act_bind_Ok:
  "act_bind m f h = (Inr y, h'') \<longleftrightarrow> (\<exists>x h'. m h = (Inr x, h') \<and> f x h' = (Inr y, h''))"
  by (auto simp: act_bind_def split: prod.splits sum.splits)

lemma act_bindE:
  assumes "act_bind m f h = (r, h'')"
  obtains e where "m h = (Inl e, h'')" "r = Inl e" | x h' where "m h = (Inr x, h')" "f x h' = (r, h'')"
  using assms by (auto simp: act_bind_def split: prod.splits sum.splits)

text \<open>
  A triple over histories: from a history that satisfies \<open>P\<close>, success ends in \<open>Q\<close> and an error in \<open>E\<close>.
\<close>

definition hoare :: "(history \<Rightarrow> bool) \<Rightarrow> ('a, 'e) act \<Rightarrow> ('a \<Rightarrow> history \<Rightarrow> bool) \<Rightarrow> (history \<Rightarrow> bool) \<Rightarrow> bool" where
  "hoare P m Q E \<longleftrightarrow> (\<forall>h r h'. P h \<longrightarrow> m h = (r, h') \<longrightarrow> (case r of Inl e \<Rightarrow> E h' | Inr x \<Rightarrow> Q x h'))"

lemma hoare_bind:
  "hoare P m Q E \<Longrightarrow> (\<And>x. hoare (Q x) (f x) R E) \<Longrightarrow> hoare P (act_bind m f) R E"
  unfolding hoare_def by (fastforce elim!: act_bindE split: sum.splits)

lemma hoare_pure:
  "(\<And>h. P h \<Longrightarrow> Q x h) \<Longrightarrow> hoare P (act_ret x) Q E"
  "(\<And>h. P h \<Longrightarrow> E h) \<Longrightarrow> hoare P (act_err e) Q E"
  "(\<And>h y. P h \<Longrightarrow> r = Inr y \<Longrightarrow> Q y h) \<Longrightarrow> (\<And>h. P h \<Longrightarrow> E h) \<Longrightarrow> hoare P (act_lift r) Q E"
  by (auto simp: hoare_def act_defs split: sum.splits)

lemma hoare_conseq:
  "hoare P' m Q' E' \<Longrightarrow> (\<And>h. P h \<Longrightarrow> P' h) \<Longrightarrow> (\<And>x h. Q' x h \<Longrightarrow> Q x h) \<Longrightarrow> (\<And>h. E' h \<Longrightarrow> E h) \<Longrightarrow> hoare P m Q E"
  by (fastforce simp: hoare_def split: sum.splits)

lemma hoare_if:
  "(b \<Longrightarrow> hoare P m Q E) \<Longrightarrow> (\<not> b \<Longrightarrow> hoare P m' Q E) \<Longrightarrow> hoare P (if b then m else m') Q E"
  by auto

lemma hoare_match:
  "hoare P m Q' E' \<Longrightarrow> (\<And>x. hoare (Q' x) (f (Inr x)) R E) \<Longrightarrow> (\<And>e. hoare E' (f (Inl e)) R E) \<Longrightarrow>
   hoare P (act_match m f) R E"
proof (unfold hoare_def [of P "act_match m f"], intro allI impI)
  fix h r h''
  assume m: "hoare P m Q' E'" and f: "\<And>x. hoare (Q' x) (f (Inr x)) R E" "\<And>e. hoare E' (f (Inl e)) R E"
    and P: "P h" and run: "act_match m f h = (r, h'')"
  obtain r' h' where mh: "m h = (r', h')" by (rule prod.exhaust)
  with run have fh: "f r' h' = (r, h'')" by (simp add: act_match_def)
  show "case r of Inl e \<Rightarrow> E h'' | Inr x \<Rightarrow> R x h''"
  proof (cases r')
    case (Inl e)
    with m P mh have "E' h'" by (fastforce simp: hoare_def)
    with f(2) fh Inl show ?thesis by (simp add: hoare_def)
  next
    case (Inr x)
    with m P mh have "Q' x h'" by (fastforce simp: hoare_def)
    with f(1) fh Inr show ?thesis by (simp add: hoare_def)
  qed
qed

lemma hoare_ask: "(\<And>h. P h \<Longrightarrow> Q (q h) h) \<Longrightarrow> hoare P (act_ask q) Q E"
  by (auto simp: hoare_def act_ask_def)

text \<open>Results alone: triples whose conditions do not mention the history.\<close>

lemma hoare_any:
  "(\<And>r. hoare (\<lambda>_. True) (f r) R E) \<Longrightarrow> hoare (\<lambda>_. True) (act_match m f) R E"
  by (rule hoare_match [where Q' = "\<lambda>_ _. True" and E' = "\<lambda>_. True"]) (auto simp: hoare_def split: sum.splits)

lemma hoare_asked:
  "(\<And>x. hoare (\<lambda>_. True) (f x) R E) \<Longrightarrow> hoare (\<lambda>_. True) (act_bind (act_ask q) f) R E"
  by (rule hoare_bind [where Q = "\<lambda>_ _. True"]) (auto simp: hoare_def act_ask_def)

lemma hoare_value:
  "hoare (\<lambda>_. True) m (\<lambda>x _. Q x) E \<Longrightarrow> (\<And>x. Q x \<Longrightarrow> hoare (\<lambda>_. True) (f x) R E) \<Longrightarrow> hoare (\<lambda>_. True) (act_bind m f) R E"
  by (rule hoare_bind) (auto simp: hoare_def)

lemma hoare_for:
  assumes "\<And>x. x \<in> set xs \<Longrightarrow> hoare (\<lambda>_. True) (f x) (\<lambda>y _. Q x y) (\<lambda>_. False)"
  shows "hoare (\<lambda>_. True) (act_for xs f) (\<lambda>ys _. list_all2 Q xs ys) (\<lambda>_. False)"
  using assms
proof (induction xs)
  case Nil
  then show ?case by (auto intro: hoare_pure)
next
  case (Cons x xs)
  have hd: "hoare (\<lambda>_. True) (f x) (\<lambda>y _. Q x y) (\<lambda>_. False)" using Cons.prems by simp
  have tl: "hoare (\<lambda>_. True) (act_for xs f) (\<lambda>ys _. list_all2 Q xs ys) (\<lambda>_. False)" using Cons by simp
  show ?case
    by (simp only: act_for.simps, rule hoare_value [OF hd], rule hoare_value [OF tl], rule hoare_pure(1)) simp
qed

lemma hoare_case_pair: "(\<And>a b. p = (a, b) \<Longrightarrow> hoare P (f a b) Q E) \<Longrightarrow> hoare P (case p of (a, b) \<Rightarrow> f a b) Q E"
  by (cases p) auto

text \<open>Everything done since \<open>h0\<close> satisfies \<open>P\<close>.\<close>

definition since :: "history \<Rightarrow> (effect \<Rightarrow> bool) \<Rightarrow> history \<Rightarrow> bool" where
  "since h0 P h \<longleftrightarrow> (\<exists>es. h = h0 @ es \<and> list_all P es)"

lemma since_refl [simp, intro]: "since h P h"
  by (simp add: since_def)

lemma since_trans: "since h0 P h \<Longrightarrow> since h P h' \<Longrightarrow> since h0 P h'"
  by (auto simp: since_def)

lemma since_mono: "since h0 P h \<Longrightarrow> (\<And>e. P e \<Longrightarrow> Q e) \<Longrightarrow> since h0 Q h"
  by (auto simp: since_def list_all_iff)

lemma emits_since: "emits P m \<Longrightarrow> m h = (r, h') \<Longrightarrow> since h P h'"
  by (auto simp: since_def elim: emitsD)

lemma hoare_emits:
  assumes "emits Pe m" "\<And>h h'. P h \<Longrightarrow> since h Pe h' \<Longrightarrow> P h'" "\<And>h. P h \<Longrightarrow> E h"
  shows "hoare P m (\<lambda>x. P) E"
  using assms emits_since [OF assms(1)] by (fastforce simp: hoare_def split: sum.splits)

text \<open>
  Rules that look back: \<open>ok h e\<close> says that the effect \<open>e\<close> is allowed after the history \<open>h\<close>. A history
  is disciplined since \<open>h0\<close> when every effect after \<open>h0\<close> was allowed at its time.
\<close>

fun ok_from :: "(history \<Rightarrow> effect \<Rightarrow> bool) \<Rightarrow> history \<Rightarrow> effect list \<Rightarrow> bool" where
  "ok_from ok h [] = True"
| "ok_from ok h (e # es) = (ok h e \<and> ok_from ok (h @ [e]) es)"

definition disciplined :: "(history \<Rightarrow> effect \<Rightarrow> bool) \<Rightarrow> history \<Rightarrow> history \<Rightarrow> bool" where
  "disciplined ok h0 h \<longleftrightarrow> (\<exists>es. h = h0 @ es \<and> ok_from ok h0 es)"

lemma ok_from_append: "ok_from ok h (es @ es') \<longleftrightarrow> ok_from ok h es \<and> ok_from ok (h @ es) es'"
  by (induction es arbitrary: h) auto

lemma ok_from_nth: "ok_from ok h es \<Longrightarrow> i < length es \<Longrightarrow> ok (h @ take i es) (es ! i)"
proof (induction es arbitrary: h i)
  case (Cons e es)
  then show ?case by (cases i) fastforce+
qed simp

lemma disciplined_refl [simp, intro]: "disciplined ok h h"
  by (simp add: disciplined_def)

lemma disciplined_length: "disciplined ok h0 h \<Longrightarrow> length h0 \<le> length h"
  by (auto simp: disciplined_def)

lemma disciplined_snoc: "disciplined ok h0 h \<Longrightarrow> ok h e \<Longrightarrow> disciplined ok h0 (h @ [e])"
  by (auto simp: disciplined_def ok_from_append)

text \<open>
  A guard: once \<open>established\<close> holds it stays, and then every effect of the given kind is allowed.
  A program that emits only such effects keeps a disciplined history disciplined.
\<close>

locale guard =
  fixes ok :: "history \<Rightarrow> effect \<Rightarrow> bool" and established :: "history \<Rightarrow> bool" and kind :: "effect \<Rightarrow> bool"
  assumes allowed: "established h \<Longrightarrow> kind e \<Longrightarrow> ok h e"
    and stable: "established h \<Longrightarrow> established (h @ es)"
begin

lemma ok_from_kind: "list_all kind es \<Longrightarrow> established h \<Longrightarrow> ok_from ok h es"
  by (induction es arbitrary: h) (auto intro: allowed stable)

lemma disciplined_since:
  assumes "disciplined ok h0 h" "since h kind h'" "established h"
  shows "disciplined ok h0 h' \<and> established h'"
proof -
  obtain es where "h' = h @ es" "list_all kind es" using assms(2) by (auto simp: since_def)
  with assms(1,3) stable ok_from_kind show ?thesis by (auto simp: disciplined_def ok_from_append)
qed

lemma hoare_guarded:
  assumes "emits kind m"
  shows "hoare (\<lambda>h. disciplined ok h0 h \<and> established h) m (\<lambda>_ h. disciplined ok h0 h \<and> established h) (disciplined ok h0)"
proof (unfold hoare_def, intro allI impI)
  fix h r h'
  assume h: "disciplined ok h0 h \<and> established h" and run: "m h = (r, h')"
  have "disciplined ok h0 h' \<and> established h'"
    using disciplined_since [OF _ emits_since [OF assms run]] h by blast
  then show "case r of Inl e \<Rightarrow> disciplined ok h0 h' | Inr x \<Rightarrow> disciplined ok h0 h' \<and> established h'" by (cases r) auto
qed

end

end
