(* ===== verification/Toolchain_Sync.thy ===== *)
theory Toolchain_Sync
  imports Provision "HOL-Library.Option_ord"
begin

text \<open>
  \<open>rbs doctor --sync-toolchain\<close>: \<open>crates/rbs-setup/src/toolchain_sync\<close>. Ordering two releases and
  naming the one to pin (\<open>release.rs\<close>), writing the pin (\<open>pin.rs\<close>), and the sequence that installs,
  verifies and only then pins (\<open>mod.rs\<close>). Deserialising a toolchain file is the parameter
  \<open>sy_toolchain_toml\<close>.
\<close>

section \<open>Releases (\<open>release.rs\<close>)\<close>

datatype sync_policy = Newest | Oldest

fun sync_policy_name :: "sync_policy \<Rightarrow> string" where
  "sync_policy_name Newest = ''newest''"
| "sync_policy_name Oldest = ''oldest''"

definition sync_policy_from_str :: "string \<Rightarrow> (sync_policy, string) result" where
  "sync_policy_from_str s =
     (if s = ''newest'' then Ok Newest
      else if s = ''oldest'' then Ok Oldest
      else Err (''unknown sync policy `'' @ s @ ''` (expected newest|oldest)''))"

interpretation policy: round_trip sync_policy_name "\<lambda>s. result_ok (sync_policy_from_str s)"
proof
  show "result_ok (sync_policy_from_str (sync_policy_name p)) = Some p" for p
    by (cases p) (simp_all add: sync_policy_from_str_def)
qed

datatype channel = Nightly | Beta | Stable

fun channel_rank :: "channel \<Rightarrow> nat" where
  "channel_rank Nightly = 0"
| "channel_rank Beta = 1"
| "channel_rank Stable = 2"

instantiation channel :: linorder
begin

definition less_eq_channel :: "channel \<Rightarrow> channel \<Rightarrow> bool" where
  "less_eq_channel a b \<longleftrightarrow> channel_rank a \<le> channel_rank b"

definition less_channel :: "channel \<Rightarrow> channel \<Rightarrow> bool" where
  "less_channel a b \<longleftrightarrow> channel_rank a < channel_rank b"

instance
proof
  fix a b :: channel
  show "a \<le> b \<Longrightarrow> b \<le> a \<Longrightarrow> a = b" by (cases a; cases b) (simp_all add: less_eq_channel_def)
qed (auto simp: less_eq_channel_def less_channel_def)

end

datatype release =
  Release (rl_major: u32) (rl_minor: u32) (rl_patch: u32) (rl_channel: channel) (rl_commit_date: "string option")

text \<open>The derived order: field by field, in declaration order.\<close>

definition release_key :: "release \<Rightarrow> u32 \<times> u32 \<times> u32 \<times> channel \<times> string option" where
  "release_key r = (rl_major r, rl_minor r, rl_patch r, rl_channel r, rl_commit_date r)"

instantiation release :: linorder
begin

definition less_eq_release :: "release \<Rightarrow> release \<Rightarrow> bool" where
  "less_eq_release a b \<longleftrightarrow> release_key a \<le> release_key b"

definition less_release :: "release \<Rightarrow> release \<Rightarrow> bool" where
  "less_release a b \<longleftrightarrow> release_key a < release_key b"

instance
proof
  fix a b :: release
  show "a \<le> b \<Longrightarrow> b \<le> a \<Longrightarrow> a = b"
    unfolding less_eq_release_def by (drule (1) antisym) (cases a; cases b; simp add: release_key_def)
qed (auto simp: less_eq_release_def less_release_def)

end

datatype 'io tsync_error =
    UnparsableRelease string
  | HostTripleMismatch string string
  | Undecidable string
  | FloatingChannel string string string
  | SyCommand string string string
  | SyVerify string string string
  | Diverged string string toolchain_fingerprint toolchain_fingerprint
  | PinIo path 'io
  | PinEdit string

record probed =
  pr_fp :: toolchain_fingerprint
  pr_commit_date :: "string option"

definition release_parse :: "string \<Rightarrow> string option \<Rightarrow> (release, 'io tsync_error) result" where
  "release_parse release commit_date =
     (let bad = Err (UnparsableRelease release) in
      case (case split_once_by (\<lambda>c. c = CHR ''-'') release of
              None \<Rightarrow> Some (release, Stable)
            | Some (v, pre) \<Rightarrow>
                (if pre = ''nightly'' then Some (v, Nightly)
                 else if starts_with ''beta'' pre then Some (v, Beta)
                 else None)) of
        None \<Rightarrow> bad
      | Some (version, channel) \<Rightarrow>
          (case map parse_u32 (split_by (\<lambda>c. c = CHR ''.'') version) of
             [Some major, Some minor, Some patch] \<Rightarrow> Ok (Release major minor patch channel commit_date)
           | _ \<Rightarrow> bad))"

definition release_of :: "probed \<Rightarrow> (release, 'io tsync_error) result" where
  "release_of p = release_parse (rustc_version (pr_fp p)) (pr_commit_date p)"

definition commit_date :: "string \<Rightarrow> string option" where
  "commit_date rustc_vv =
     option_filter (\<lambda>d. d \<noteq> [] \<and> d \<noteq> ''unknown'')
       (map_option trim (find_map (strip_prefix ''commit-date:'') (lines rustc_vv)))"

datatype winner = WLocal | WRemote

record sync_target =
  tg_winner :: winner
  tg_release :: release

definition choose_target :: "sync_policy \<Rightarrow> probed \<Rightarrow> probed \<Rightarrow> (sync_target, 'io tsync_error) result" where
  "choose_target policy loc remote =
     (if fp_host (pr_fp loc) \<noteq> fp_host (pr_fp remote)
      then Err (HostTripleMismatch (fp_host (pr_fp loc)) (fp_host (pr_fp remote)))
      else and_then (release_of loc) (\<lambda>l. and_then (release_of remote) (\<lambda>r.
        if l = r then Err (Undecidable (rustc_version (pr_fp loc)))
        else let winner = (if (r < l \<and> policy = Newest) \<or> (l < r \<and> policy = Oldest) then WLocal else WRemote)
             in Ok \<lparr> tg_winner = winner, tg_release = (case winner of WLocal \<Rightarrow> l | WRemote \<Rightarrow> r) \<rparr>)))"

definition is_iso_date :: "string \<Rightarrow> bool" where
  "is_iso_date s \<longleftrightarrow> length s = 10
     \<and> list_all (\<lambda>(i, c). if i = 4 \<or> i = 7 then c = CHR ''-'' else is_digit c) (List.enumerate 0 s)"

definition pin_channel :: "release \<Rightarrow> string \<Rightarrow> string \<Rightarrow> string \<Rightarrow> (string, 'io tsync_error) result" where
  "pin_channel release rustup_name triple host_label =
     (if rl_channel release = Stable then
        Ok (show_nat (unat (rl_major release)) @ ''.'' @ show_nat (unat (rl_minor release)) @ ''.''
            @ show_nat (unat (rl_patch release)))
      else
        let prefix = (if rl_channel release = Nightly then ''nightly'' else ''beta'');
            name = unwrap_or rustup_name (Option.bind (strip_suffix triple rustup_name) (strip_suffix ''-''));
            dated = (case Option.bind (strip_prefix prefix name) (strip_prefix ''-'') of
                       None \<Rightarrow> False | Some d \<Rightarrow> is_iso_date d)
        in if dated then Ok name else Err (FloatingChannel host_label rustup_name prefix))"

section \<open>The pin (\<open>pin.rs\<close>)\<close>

definition is_channel_line :: "string \<Rightarrow> bool" where
  "is_channel_line l \<longleftrightarrow>
     (case strip_prefix ''channel'' (trim_start l) of
        None \<Rightarrow> False | Some rest \<Rightarrow> starts_with ''='' (trim_start rest))"

definition set_channel_lines :: "string list \<Rightarrow> string \<Rightarrow> string list" where
  "set_channel_lines ls line =
     (case position (\<lambda>l. trim l = ''[toolchain]'') ls of
        Some h \<Rightarrow>
          (let stop = (case position (\<lambda>l. starts_with ''['' (trim_start l)) (drop (h + 1) ls) of
                         None \<Rightarrow> length ls | Some i \<Rightarrow> h + 1 + i)
           in case find (\<lambda>i. is_channel_line (ls ! i)) [h + 1..<stop] of
                Some i \<Rightarrow> ls[i := line]
              | None \<Rightarrow> insert_at (h + 1) line ls)
      | None \<Rightarrow>
          ls @ (if ls \<noteq> [] \<and> trim (last ls) \<noteq> [] then [[]] else []) @ [''[toolchain]'', line])"

definition set_channel :: "(string \<Rightarrow> string option option) \<Rightarrow> string \<Rightarrow> string \<Rightarrow> (string, 'io tsync_error) result" where
  "set_channel deser text channel =
     (let line = ''channel = '' @ quoted channel;
          out = join [NL] (set_channel_lines (lines text) line) @ [NL];
          out' = (if starts_with [NL] out then tl out else out)
      in if parse_toolchain_channel deser out' = Some channel then Ok out' else Err (PinEdit channel))"

definition legacy_plain :: "path \<Rightarrow> string \<Rightarrow> bool" where
  "legacy_plain path text \<longleftrightarrow>
     file_name path = Some ''rust-toolchain'' \<and> length (lines (trim text)) \<le> 1
     \<and> \<not> contains ''['' text \<and> \<not> contains ''='' text"

definition write_pin :: "'io sys \<Rightarrow> path \<Rightarrow> string \<Rightarrow> (path, 'io tsync_error) act" where
  "write_pin sys cwd channel =
     act_bind (act_ask (\<lambda>h. find_toolchain_file (sy_is_file sys h) cwd)) (\<lambda>found.
       case found of
         None \<Rightarrow>
           (let path = path_join cwd ''rust-toolchain.toml'' in
            act_bind (act_lift (set_channel (sy_toolchain_toml sys) [] channel)) (\<lambda>text.
            act_bind (act_map_err (PinIo path) (fs_write sys path text)) (\<lambda>_. act_ret path)))
       | Some path \<Rightarrow>
           act_bind (act_map_err (PinIo path) (fs_read sys path)) (\<lambda>text.
           act_bind (if legacy_plain path text then act_ret (channel @ [NL])
                     else act_lift (set_channel (sy_toolchain_toml sys) text channel)) (\<lambda>new.
           act_bind (act_map_err (PinIo path) (fs_write sys path new)) (\<lambda>_. act_ret path))))"

section \<open>The sync (\<open>mod.rs\<close>)\<close>

definition LOCAL :: string where "LOCAL = ''local''"

record synced =
  sd_policy :: sync_policy
  sd_channel :: string
  sd_winner :: winner
  sd_installed :: "string list"
  sd_pin :: path
  sd_pin_pushed :: bool
  sd_local :: toolchain_fingerprint
  sd_remote :: toolchain_fingerprint

datatype sync_outcome = AlreadyInSync | Synced synced

definition describe :: "synced \<Rightarrow> string \<Rightarrow> string" where
  "describe s host =
     ''synced to '' @ sd_channel s @ '' ('' @ sync_policy_name (sd_policy s) @ '', from ''
     @ (case sd_winner s of WLocal \<Rightarrow> LOCAL | WRemote \<Rightarrow> host) @ ''); ''
     @ (if sd_installed s = [] then ''already installed on both hosts''
        else ''installed on '' @ join '', '' (sd_installed s))
     @ ''; pinned in '' @ sd_pin s @ ''; ''
     @ (if sd_pin_pushed s then ''copied the pin to '' @ host
        else host @ '' has no mirror of this workspace yet; the next remote build carries the pin'')"

datatype sync_host = LocalHost | RemoteHost string

fun host_label :: "sync_host \<Rightarrow> string" where
  "host_label LocalHost = LOCAL"
| "host_label (RemoteHost h) = h"

definition host_run :: "'io sys \<Rightarrow> sync_host \<Rightarrow> string list \<Rightarrow> (string, 'io tsync_error) act" where
  "host_run sys host argv =
     (let command = join '' '' argv;
          failed = (\<lambda>detail. act_err (SyCommand (host_label host) command detail)) in
      act_match (case host of
                   LocalHost \<Rightarrow> run_cmd sys (hd argv) (tl argv)
                 | RemoteHost h \<Rightarrow> run_cmd sys ''ssh'' (login_shell_args h command)) (\<lambda>res.
        case res of
          Inr out \<Rightarrow> if output_success out then act_ret (ou_stdout out) else failed (failure_detail out)
        | Inl e \<Rightarrow> failed (show_runner_error (sy_show_io sys) e)))"

definition ensure_installed :: "'io sys \<Rightarrow> sync_host \<Rightarrow> string \<Rightarrow> (bool, 'io tsync_error) act" where
  "ensure_installed sys host channel =
     act_bind (host_run sys host [''rustup'', ''toolchain'', ''list'']) (\<lambda>list.
       if toolchain_installed list channel then act_ret False
       else act_bind (host_run sys host [''rustup'', ''toolchain'', ''install'', channel, ''--profile'', ''minimal''])
              (\<lambda>_. act_ret True))"

fun show_toolchain_error :: "('io \<Rightarrow> string) \<Rightarrow> 'io toolchain_error \<Rightarrow> string" where
  "show_toolchain_error show_io (TSpawn program cwd source) =
     ''failed to run `'' @ program @ ''` in '' @ cwd @ '': '' @ show_io source"
| "show_toolchain_error show_io (TFailed program cwd status stderr) =
     ''`'' @ program @ ''` exited with '' @ status @ '' in '' @ cwd @ '': '' @ stderr"
| "show_toolchain_error show_io (TParse field) =
     ''could not parse `rustc -vV` output: missing `'' @ field @ ''`''"

definition verify :: "'io sys \<Rightarrow> sync_host \<Rightarrow> string \<Rightarrow> (toolchain_fingerprint, 'io tsync_error) act" where
  "verify sys host channel =
     act_bind (host_run sys host [''rustc'', ''+'' @ channel, ''-vV'']) (\<lambda>out.
     act_bind (act_lift (map_err (\<lambda>e. SyVerify (host_label host) channel (show_toolchain_error (sy_show_io sys) e))
                 (parse_rustc_vv out))) (\<lambda>vv.
       act_ret \<lparr> rustc_commit = vv_commit_hash vv, rustc_version = vv_release vv, fp_host = vv_host vv,
                 cargo_version = [], toolchain_name = channel \<rparr>))"

definition remote_active_toolchain :: "'io sys \<Rightarrow> string \<Rightarrow> path \<Rightarrow> (string, 'io tsync_error) act" where
  "remote_active_toolchain sys host cwd =
     (let command = ''cd '' @ shell_quote cwd @ '' && rustup show active-toolchain'';
          failed = (\<lambda>detail. act_err (SyCommand host command detail)) in
      act_match (run_cmd sys ''ssh'' (login_shell_args host command)) (\<lambda>res.
        case res of
          Inr out \<Rightarrow>
            if output_success out
            then act_ret (case split_whitespace (ou_stdout out) of [] \<Rightarrow> [] | w # _ \<Rightarrow> w)
            else failed (failure_detail out)
        | Inl e \<Rightarrow> failed (show_runner_error (sy_show_io sys) e)))"

definition push_pin :: "'io sys \<Rightarrow> string \<Rightarrow> path \<Rightarrow> (bool, 'io tsync_error) act" where
  "push_pin sys host pin =
     (case path_parent pin of
        None \<Rightarrow> act_ret False
      | Some dir \<Rightarrow>
          act_match (run_cmd sys ''ssh'' [host, ''test'', ''-d'', shell_quote dir]) (\<lambda>mirrored.
            if \<not> (case mirrored of Inr out \<Rightarrow> output_success out | Inl _ \<Rightarrow> False) then act_ret False
            else let dst = host @ '':'' @ pin;
                     failed = (\<lambda>detail. act_err (SyCommand host (''scp '' @ pin @ '' '' @ dst) detail)) in
                 act_match (run_cmd sys ''scp'' [''-q'', pin, dst]) (\<lambda>res.
                   case res of
                     Inr out \<Rightarrow> if output_success out then act_ret True else failed (failure_detail out)
                   | Inl e \<Rightarrow> failed (show_runner_error (sy_show_io sys) e))))"

definition sync_toolchain ::
  "'io sys \<Rightarrow> string \<Rightarrow> path \<Rightarrow> sync_policy \<Rightarrow> probed \<Rightarrow> probed \<Rightarrow> (sync_outcome, 'io tsync_error) act" where
  "sync_toolchain sys host cwd policy loc remote =
     (if compatible_with (pr_fp loc) (pr_fp remote) then act_ret AlreadyInSync
      else
        act_bind (act_lift (choose_target policy loc remote)) (\<lambda>target.
        act_bind (if tg_winner target = WLocal then act_ret (LOCAL, toolchain_name (pr_fp loc))
                  else if rl_channel (tg_release target) = Stable then act_ret (host, [])
                  else act_bind (remote_active_toolchain sys host cwd) (\<lambda>n. act_ret (host, n))) (\<lambda>(winner_host, rustup_name).
        act_bind (act_lift (pin_channel (tg_release target) rustup_name (fp_host (pr_fp loc)) winner_host)) (\<lambda>channel.
        act_bind (ensure_installed sys LocalHost channel) (\<lambda>on_local.
        act_bind (ensure_installed sys (RemoteHost host) channel) (\<lambda>on_remote.
        act_bind (verify sys LocalHost channel) (\<lambda>local_fp.
        act_bind (verify sys (RemoteHost host) channel) (\<lambda>remote_fp.
        if \<not> compatible_with local_fp remote_fp then act_err (Diverged host channel local_fp remote_fp)
        else
          act_bind (write_pin sys cwd channel) (\<lambda>pin.
          act_bind (push_pin sys host pin) (\<lambda>pin_pushed.
            act_ret (Synced \<lparr> sd_policy = policy, sd_channel = channel, sd_winner = tg_winner target,
                       sd_installed = (if on_local then [LOCAL] else []) @ (if on_remote then [host] else []),
                       sd_pin = pin, sd_pin_pushed = pin_pushed, sd_local = local_fp, sd_remote = remote_fp \<rparr>)))))))))))"

section \<open>Choosing a release\<close>

lemma choose_target_Ok:
  "choose_target policy a b = (Inr t :: (sync_target, 'io tsync_error) result) \<longleftrightarrow>
     fp_host (pr_fp a) = fp_host (pr_fp b)
     \<and> (\<exists>l r. release_of a = (Inr l :: (release, 'io tsync_error) result)
          \<and> release_of b = (Inr r :: (release, 'io tsync_error) result) \<and> l \<noteq> r
          \<and> tg_release t = (case policy of Newest \<Rightarrow> max l r | Oldest \<Rightarrow> min l r)
          \<and> tg_winner t = (if tg_release t = l then WLocal else WRemote))"
proof (cases "release_of a :: (release, 'io tsync_error) result")
  case (Inr l)
  show ?thesis
  proof (cases "release_of b :: (release, 'io tsync_error) result")
    case r: (Inr r)
    obtain w rl where t: "t = \<lparr> tg_winner = w, tg_release = rl \<rparr>" by (cases t) auto
    consider "l = r" | "l < r" | "r < l" by fastforce
    then show ?thesis
      using Inr r t by cases (cases policy; auto simp: choose_target_def max_def min_def)+
  qed (use Inr in \<open>simp add: choose_target_def\<close>)
qed (simp add: choose_target_def)

lemma parse_u32_show: "parse_u32 (show_nat (unat (x :: u32))) = Some x"
  using parse_show_nat [OF unat_lt_u32 [of x]] by (simp add: parse_u32_def)

lemma digits_no_char: "CHR ''.'' \<notin> set (show_nat n)" "CHR ''-'' \<notin> set (show_nat n)"
proof -
  have "is_digit c" if "c \<in> set (show_nat n)" for c
    using show_nat_digits [of n] that by (simp add: list_all_iff)
  moreover have "\<not> is_digit (CHR ''.'')" "\<not> is_digit (CHR ''-'')"
    by (simp_all add: is_digit_def less_eq_char_def)
  ultimately show "CHR ''.'' \<notin> set (show_nat n)" "CHR ''-'' \<notin> set (show_nat n)" by blast+
qed

lemma split_dots:
  "split_by (\<lambda>c. c = CHR ''.'') (show_nat a @ ''.'' @ show_nat b @ ''.'' @ show_nat c) = [show_nat a, show_nat b, show_nat c]"
proof -
  have n: "\<forall>x \<in> set (show_nat n). x \<noteq> CHR ''.''" for n
    using digits_no_char(1) [of n] by auto
  show ?thesis
    using split_by_append [of "show_nat a" "\<lambda>c. c = CHR ''.''"] split_by_append [of "show_nat b" "\<lambda>c. c = CHR ''.''"]
      split_by_none [of "show_nat c" "\<lambda>c. c = CHR ''.''"] n by simp
qed

lemma pin_channel_stable_parses:
  "\<exists>p. pin_channel (Release a b c Stable d) n tr hl = (Inr p :: (string, 'io tsync_error) result)
     \<and> release_parse p d = (Inr (Release a b c Stable d) :: (release, 'io tsync_error) result)"
proof -
  let ?p = "show_nat (unat a) @ ''.'' @ show_nat (unat b) @ ''.'' @ show_nat (unat c)"
  have "split_once_by (\<lambda>c. c = CHR ''-'') ?p = None"
    using digits_no_char(2) by (auto simp: split_once_by_None)
  then have "release_parse ?p d = (Inr (Release a b c Stable d) :: (release, 'io tsync_error) result)"
    using split_dots [of "unat a" "unat b" "unat c"] by (simp add: release_parse_def parse_u32_show)
  then show ?thesis by (simp add: pin_channel_def)
qed

lemma pin_channel_dated:
  "pin_channel r n tr hl = Inr p \<Longrightarrow> rl_channel r \<noteq> Stable \<Longrightarrow>
   (\<exists>d. p = (if rl_channel r = Nightly then ''nightly-'' else ''beta-'') @ d \<and> is_iso_date d)
   \<and> (n = p \<or> n = p @ ''-'' @ tr)"
proof -
  assume p: "pin_channel r n tr hl = Inr p" and ch: "rl_channel r \<noteq> Stable"
  let ?name = "unwrap_or n (Option.bind (strip_suffix tr n) (strip_suffix ''-''))"
  have "p = ?name" and d: "\<exists>d. ?name = (if rl_channel r = Nightly then ''nightly-'' else ''beta-'') @ d \<and> is_iso_date d"
    using p ch by (auto simp: pin_channel_def Let_def bind_eq_Some_conv split: if_splits option.splits)
  moreover have "n = ?name \<or> n = ?name @ ''-'' @ tr"
  proof (cases "Option.bind (strip_suffix tr n) (strip_suffix ''-'')")
    case (Some x)
    then have "n = x @ ''-'' @ tr" by (auto simp: bind_eq_Some_conv)
    then show ?thesis by (subst Some) simp
  qed simp
  ultimately show ?thesis by simp
qed

definition swap_winner :: "sync_target \<Rightarrow> sync_target" where
  "swap_winner t = \<lparr> tg_winner = (if tg_winner t = WLocal then WRemote else WLocal), tg_release = tg_release t \<rparr>"

lemma swap_winner_twice: "swap_winner (swap_winner t) = t"
  by (cases t; cases "tg_winner t") (simp_all add: swap_winner_def)

lemma choose_target_swap:
  assumes "choose_target policy a b = (Inr t :: (sync_target, 'io tsync_error) result)"
  shows "choose_target policy b a = (Inr (swap_winner t) :: (sync_target, 'io tsync_error) result)"
proof -
  from assms obtain l r where lr: "release_of a = (Inr l :: (release, 'io tsync_error) result)"
    "release_of b = (Inr r :: (release, 'io tsync_error) result)" "l \<noteq> r"
    "tg_release t = (case policy of Newest \<Rightarrow> max l r | Oldest \<Rightarrow> min l r)"
    "tg_winner t = (if tg_release t = l then WLocal else WRemote)" and h: "fp_host (pr_fp a) = fp_host (pr_fp b)"
    unfolding choose_target_Ok by blast
  have rel: "tg_release t = (case policy of Newest \<Rightarrow> max r l | Oldest \<Rightarrow> min r l)"
    using lr(4) by (cases policy) (simp_all add: max.commute min.commute)
  have "tg_release t = l \<or> tg_release t = r"
    using lr(4) by (cases policy) (auto simp: max_def min_def)
  then have "tg_winner (swap_winner t) = (if tg_release t = r then WLocal else WRemote)"
    using lr(3,5) by (auto simp: swap_winner_def)
  then show ?thesis
    unfolding choose_target_Ok using h lr(1-3) rel by (auto simp: swap_winner_def)
qed

text \<open>
  C38. Which toolchain wins. \<open>choose_target\<close> succeeds exactly when the hosts have the same target
  triple and both releases parse and differ; the target is then the greater release under
  \<open>newest\<close> and the smaller one under \<open>oldest\<close>, in the order version, channel (nightly before beta
  before stable), commit date, and the winner is the host that has it. Asking from the other host
  gives the same release with the winner's name exchanged, so two hosts never converge on
  different toolchains. The channel pinned for a stable release reads back as that release, and
  the one pinned for a pre-release carries a date.
\<close>
theorem choose_target_spec:
  "(choose_target policy a b = (Inr t :: (sync_target, 'io tsync_error) result) \<longleftrightarrow>
     fp_host (pr_fp a) = fp_host (pr_fp b)
     \<and> (\<exists>l r. release_of a = (Inr l :: (release, 'io tsync_error) result)
          \<and> release_of b = (Inr r :: (release, 'io tsync_error) result) \<and> l \<noteq> r
          \<and> tg_release t = (case policy of Newest \<Rightarrow> max l r | Oldest \<Rightarrow> min l r)
          \<and> tg_winner t = (if tg_release t = l then WLocal else WRemote)))
   \<and> (choose_target policy a b = (Inr t :: (sync_target, 'io tsync_error) result) \<longleftrightarrow>
      choose_target policy b a = (Inr \<lparr> tg_winner = (if tg_winner t = WLocal then WRemote else WLocal),
                                    tg_release = tg_release t \<rparr> :: (sync_target, 'io tsync_error) result))
   \<and> (\<exists>p. pin_channel (Release x y z Stable d) n tr hl = (Inr p :: (string, 'io tsync_error) result)
      \<and> release_parse p d = (Inr (Release x y z Stable d) :: (release, 'io tsync_error) result))
   \<and> (\<nexists>r p. pin_channel r n tr hl = (Inr p :: (string, 'io tsync_error) result) \<and> rl_channel r \<noteq> Stable
      \<and> (\<nexists>d. p = (if rl_channel r = Nightly then ''nightly-'' else ''beta-'') @ d \<and> is_iso_date d))"
proof (intro conjI)
  show "choose_target policy a b = (Inr t :: (sync_target, 'io tsync_error) result) \<longleftrightarrow>
      choose_target policy b a = (Inr \<lparr> tg_winner = (if tg_winner t = WLocal then WRemote else WLocal),
                                    tg_release = tg_release t \<rparr> :: (sync_target, 'io tsync_error) result)"
    using choose_target_swap [of policy a b t] choose_target_swap [of policy b a "swap_winner t"]
    by (auto simp: swap_winner_twice swap_winner_def [of t, symmetric])
  show "\<nexists>r p. pin_channel r n tr hl = (Inr p :: (string, 'io tsync_error) result) \<and> rl_channel r \<noteq> Stable
      \<and> (\<nexists>d. p = (if rl_channel r = Nightly then ''nightly-'' else ''beta-'') @ d \<and> is_iso_date d)"
    using pin_channel_dated by metis
qed (rule choose_target_Ok pin_channel_stable_parses)+

section \<open>The pin is written last\<close>

fun is_run :: "effect \<Rightarrow> bool" where
  "is_run (Ran cwd prog args) = True"
| "is_run _ = False"

lemma host_run_emits [emits_rules]: "emits is_run (host_run sys host argv)"
  unfolding host_run_def Let_def by (cases host) (auto intro!: emits_rules)

lemma ensure_installed_emits [emits_rules]: "emits is_run (ensure_installed sys host channel)"
  unfolding ensure_installed_def by (auto intro!: emits_rules)

lemma verify_emits [emits_rules]: "emits is_run (verify sys host channel)"
  unfolding verify_def by (auto intro!: emits_rules)

lemma remote_active_toolchain_emits [emits_rules]: "emits is_run (remote_active_toolchain sys host cwd)"
  unfolding remote_active_toolchain_def Let_def by (auto intro!: emits_rules)

lemma push_pin_emits [emits_rules]: "emits is_run (push_pin sys host pin)"
  unfolding push_pin_def Let_def by (auto intro!: emits_rules)

text \<open>A toolchain file that names the channel, in either of its two formats.\<close>

definition pins :: "'io sys \<Rightarrow> string \<Rightarrow> string \<Rightarrow> bool" where
  "pins sys channel text \<longleftrightarrow>
     text = channel @ [NL] \<or> parse_toolchain_channel (sy_toolchain_toml sys) text = Some channel"

fun pin_effect :: "'io sys \<Rightarrow> string \<Rightarrow> effect \<Rightarrow> bool" where
  "pin_effect sys channel (Ran cwd prog args) = True"
| "pin_effect sys channel (ReadFile p) = True"
| "pin_effect sys channel (WroteFile p text) = pins sys channel text"
| "pin_effect sys channel _ = False"

lemma set_channel_reads_back: "set_channel deser text channel = Inr t \<Longrightarrow> parse_toolchain_channel deser t = Some channel"
  by (simp add: set_channel_def Let_def split: if_splits)

lemma write_pin_emits [emits_rules]: "emits (pin_effect sys channel) (write_pin sys cwd channel)"
proof -
  have w: "emits (pin_effect sys channel) (act_bind (act_lift (set_channel (sy_toolchain_toml sys) s channel))
      (\<lambda>t. act_bind (act_map_err (PinIo p) (fs_write sys p t)) (\<lambda>_. act_ret p)))" for s p
    by (rule emits_bind_lift) (auto intro!: emits_rules simp: pins_def dest: set_channel_reads_back)
  have l: "emits (pin_effect sys channel) (act_bind (act_map_err (PinIo p) (fs_write sys p (channel @ [NL])))
      (\<lambda>_. act_ret p))" for p
    by (auto intro!: emits_rules simp: pins_def)
  have r: "emits (pin_effect sys channel) (act_bind (act_map_err (PinIo p) (fs_read sys p)) (\<lambda>text.
           act_bind (if legacy_plain p text then act_ret (channel @ [NL])
                     else act_lift (set_channel (sy_toolchain_toml sys) text channel)) (\<lambda>new.
           act_bind (act_map_err (PinIo p) (fs_write sys p new)) (\<lambda>_. act_ret p))))" for p
    by (intro emits_bind [OF emits_map_err [OF emits_effect(2)]] emits_bind_if w) (simp_all add: l)
  show ?thesis
    unfolding write_pin_def Let_def
    by (rule emits_bind [OF emits_pure(4)], rule emits_split(2), rule w, rule r)
qed

text \<open>Both hosts have run the channel's compiler and reported the same build, at history \<open>h\<close>.\<close>

definition verified_both :: "'io sys \<Rightarrow> string \<Rightarrow> string \<Rightarrow> history \<Rightarrow> bool" where
  "verified_both sys host channel h \<longleftrightarrow>
     (\<exists>h1 h2 local_fp remote_fp.
        verify sys LocalHost channel h1 = (Inr local_fp, h2)
        \<and> verify sys (RemoteHost host) channel h2 = (Inr remote_fp, h)
        \<and> compatible_with local_fp remote_fp)"

definition pinned_last :: "'io sys \<Rightarrow> string \<Rightarrow> history \<Rightarrow> history \<Rightarrow> bool" where
  "pinned_last sys host h0 h \<longleftrightarrow>
     since h0 is_run h
     \<or> (\<exists>channel h1. since h0 is_run h1 \<and> verified_both sys host channel h1 \<and> since h1 (pin_effect sys channel) h)"

lemma pinned_last_runs: "since h0 is_run h \<Longrightarrow> pinned_last sys host h0 h"
  by (simp add: pinned_last_def)

lemma is_run_pin_effect: "is_run e \<Longrightarrow> pin_effect sys channel e"
  by (cases e) auto

lemma hoare_runs:
  "emits is_run m \<Longrightarrow> hoare (since h0 is_run) m (\<lambda>_. since h0 is_run) (pinned_last sys host h0)"
  by (rule hoare_emits) (auto intro: since_trans pinned_last_runs)

lemma verify_local_hoare:
  "hoare (since h0 is_run) (verify sys LocalHost channel)
     (\<lambda>fp h. since h0 is_run h \<and> (\<exists>h1. verify sys LocalHost channel h1 = (Inr fp, h))) (pinned_last sys host h0)"
  unfolding hoare_def
  by (auto split: sum.splits intro: pinned_last_runs dest: since_trans emits_since [OF verify_emits])

lemma verify_remote_hoare:
  "hoare (\<lambda>h. since h0 is_run h \<and> (\<exists>h1. verify sys LocalHost channel h1 = (Inr lf, h))) (verify sys (RemoteHost host) channel)
     (\<lambda>fp h. since h0 is_run h \<and> (compatible_with lf fp \<longrightarrow> verified_both sys host channel h)) (pinned_last sys host h0)"
  unfolding hoare_def verified_both_def
  by (auto split: sum.splits intro: pinned_last_runs dest: since_trans emits_since [OF verify_emits])

definition pinning :: "'io sys \<Rightarrow> string \<Rightarrow> string \<Rightarrow> history \<Rightarrow> history \<Rightarrow> bool" where
  "pinning sys host channel h0 h \<longleftrightarrow>
     (\<exists>h1. since h0 is_run h1 \<and> verified_both sys host channel h1 \<and> since h1 (pin_effect sys channel) h)"

lemma hoare_pinning:
  "emits (pin_effect sys channel) m \<Longrightarrow>
   hoare (pinning sys host channel h0) m (\<lambda>_. pinning sys host channel h0) (pinned_last sys host h0)"
  by (rule hoare_emits) (auto simp: pinning_def pinned_last_def intro: since_trans)

lemma sync_toolchain_hoare:
  "hoare (since h0 is_run) (sync_toolchain sys host cwd policy loc remote)
     (\<lambda>_. pinned_last sys host h0) (pinned_last sys host h0)"
proof -
  have tail: "hoare (pinning sys host channel h0) (act_bind (write_pin sys cwd channel) (\<lambda>pin.
      act_bind (push_pin sys host pin) (\<lambda>pushed. act_ret (g pin pushed)))) (\<lambda>_. pinned_last sys host h0) (pinned_last sys host h0)"
    for channel and g :: "path \<Rightarrow> bool \<Rightarrow> sync_outcome"
    by (intro hoare_bind [OF hoare_pinning] hoare_pure emits_rules emits_mono [OF push_pin_emits] is_run_pin_effect)
       (auto simp: pinning_def pinned_last_def)
  have checked: "hoare (\<lambda>h. since h0 is_run h \<and> (compatible_with lf rf \<longrightarrow> verified_both sys host channel h))
      (if \<not> compatible_with lf rf then act_err (Diverged host channel lf rf)
       else act_bind (write_pin sys cwd channel) (\<lambda>pin.
            act_bind (push_pin sys host pin) (\<lambda>pushed. act_ret (g pin pushed))))
      (\<lambda>_. pinned_last sys host h0) (pinned_last sys host h0)" for lf rf channel and g :: "path \<Rightarrow> bool \<Rightarrow> sync_outcome"
    by (intro hoare_if hoare_pure hoare_conseq [OF tail]) (auto simp: pinning_def intro: pinned_last_runs)
  have verifying: "hoare (since h0 is_run) (act_bind (verify sys LocalHost channel) (\<lambda>lf.
      act_bind (verify sys (RemoteHost host) channel) (\<lambda>rf.
        if \<not> compatible_with lf rf then act_err (Diverged host channel lf rf)
        else act_bind (write_pin sys cwd channel) (\<lambda>pin.
             act_bind (push_pin sys host pin) (\<lambda>pushed. act_ret (g lf rf pin pushed))))))
      (\<lambda>_. pinned_last sys host h0) (pinned_last sys host h0)"
    for channel and g :: "toolchain_fingerprint \<Rightarrow> toolchain_fingerprint \<Rightarrow> path \<Rightarrow> bool \<Rightarrow> sync_outcome"
    by (rule hoare_bind [OF verify_local_hoare], rule hoare_bind [OF verify_remote_hoare], rule checked)
  show ?thesis
    unfolding sync_toolchain_def
    by (intro hoare_if hoare_pure(1) hoare_case_pair hoare_bind [OF hoare_runs] verifying emits_rules pinned_last_runs)
qed

end
