(* ===== verification/Doctor.thy ===== *)
theory Doctor
  imports Toolchain_Sync
begin

text \<open>
  \<open>rbs doctor\<close>: \<open>crates/rbs-setup/src/doctor.rs\<close>. The health checks of a host, of its link to the
  build server, and the toolchain sync they can trigger.
\<close>

section \<open>Model\<close>

definition SYNC_CHECK :: string where "SYNC_CHECK = ''toolchain-sync''"

definition REQUIRED_BINARIES :: "string list" where
  "REQUIRED_BINARIES = [''rbs'', ''cargo'', ''rustup'', ''kache'', ''rsync'', ''ssh'', ''systemd-run'']"

record doctor_check =
  ck_name :: string
  ck_ok :: bool
  ck_detail :: string

definition mk_check :: "string \<Rightarrow> bool \<Rightarrow> string \<Rightarrow> doctor_check" where
  "mk_check name ok detail = \<lparr> ck_name = name, ck_ok = ok, ck_detail = detail \<rparr>"

record doctor_opts =
  do_cwd :: path
  do_remote :: bool
  do_sync_toolchain :: "sync_policy option"

definition doctor_ok :: "doctor_check list \<Rightarrow> bool" where
  "doctor_ok checks = list_all ck_ok checks"

definition daemon_is_running :: "string \<Rightarrow> bool" where
  "daemon_is_running status \<longleftrightarrow>
     (let s = map to_lower status in contains ''running'' s \<and> \<not> contains ''not running'' s)"

definition cmd_outcome :: "'io sys \<Rightarrow> (cmd_output, 'io runner_error) result \<Rightarrow> (string, string) result" where
  "cmd_outcome sys res =
     (case res of
        Inr out \<Rightarrow> if output_success out then Ok (ou_stdout out) else Err (failure_detail out)
      | Inl e \<Rightarrow> Err (show_runner_error (sy_show_io sys) e))"

definition doctor_run :: "'io sys \<Rightarrow> path option \<Rightarrow> string \<Rightarrow> string list \<Rightarrow> (string, string) act" where
  "doctor_run sys cwd program args = act_match (run_in sys cwd program args) (\<lambda>res. act_lift (cmd_outcome sys res))"

definition first_word :: "string \<Rightarrow> string" where
  "first_word s = (case split_whitespace s of [] \<Rightarrow> [] | w # _ \<Rightarrow> w)"

definition local_fingerprint :: "'io sys \<Rightarrow> path \<Rightarrow> (probed, string) act" where
  "local_fingerprint sys cwd =
     act_bind (doctor_run sys (Some cwd) ''rustc'' [''-vV'']) (\<lambda>out.
     act_bind (act_lift (map_err (show_toolchain_error (sy_show_io sys)) (parse_rustc_vv out))) (\<lambda>vv.
     act_bind (doctor_run sys (Some cwd) ''cargo'' [''-V'']) (\<lambda>cargo.
     act_match (doctor_run sys (Some cwd) ''rustup'' [''show'', ''active-toolchain'']) (\<lambda>name.
       act_ret \<lparr> pr_fp = \<lparr> rustc_commit = vv_commit_hash vv, rustc_version = vv_release vv, fp_host = vv_host vv,
                           cargo_version = trim cargo,
                           toolchain_name = (case name of Inr s \<Rightarrow> first_word s | Inl _ \<Rightarrow> []) \<rparr>,
                 pr_commit_date = commit_date out \<rparr>))))"

definition remote_fingerprint :: "'io sys \<Rightarrow> string \<Rightarrow> path \<Rightarrow> (probed, string) act" where
  "remote_fingerprint sys host cwd =
     act_bind (doctor_run sys None ''ssh'' [host, ''cd '' @ cwd @ '' && rustc -vV'']) (\<lambda>out.
     act_bind (act_lift (map_err (show_toolchain_error (sy_show_io sys)) (parse_rustc_vv out))) (\<lambda>vv.
       act_ret \<lparr> pr_fp = \<lparr> rustc_commit = vv_commit_hash vv, rustc_version = vv_release vv, fp_host = vv_host vv,
                           cargo_version = [], toolchain_name = [] \<rparr>,
                 pr_commit_date = commit_date out \<rparr>))"

definition skip_sync :: "sync_policy option \<Rightarrow> string \<Rightarrow> doctor_check list" where
  "skip_sync sync why = (if sync \<noteq> None then [mk_check SYNC_CHECK False (''skipped: '' @ why)] else [])"

fun show_tsync_error :: "('io \<Rightarrow> string) \<Rightarrow> 'io tsync_error \<Rightarrow> string" where
  "show_tsync_error show_io (UnparsableRelease release) =
     ''cannot order rustc release `'' @ release @ ''` (expected X.Y.Z, X.Y.Z-beta.N or X.Y.Z-nightly)''"
| "show_tsync_error show_io (HostTripleMismatch l r) =
     ''host triples differ (local '' @ l @ '', remote '' @ r @ ''); one toolchain cannot serve both''"
| "show_tsync_error show_io (Undecidable release) =
     ''both hosts report rustc '' @ release @ '' with different commits; neither is newer '' @ EM_DASH
     @ '' reinstall it on one host''"
| "show_tsync_error show_io (FloatingChannel host name pfx) =
     host @ '' runs a floating toolchain `'' @ name @ ''`; pin `'' @ pfx
     @ ''-YYYY-MM-DD` there (e.g. nightly-YYYY-MM-DD) so it can be reproduced''"
| "show_tsync_error show_io (SyCommand host command detail) = host @ '': `'' @ command @ ''` failed: '' @ detail"
| "show_tsync_error show_io (SyVerify host channel detail) =
     host @ '': cannot parse `rustc +'' @ channel @ '' -vV`: '' @ detail"
| "show_tsync_error show_io (Diverged host channel l r) =
     ''installed '' @ channel @ '' on both hosts but they resolve different builds'' @ [NL] @ ''    local:  ''
     @ show_fingerprint l @ [NL] @ ''    '' @ host @ '': '' @ show_fingerprint r"
| "show_tsync_error show_io (PinIo path source) = ''cannot write '' @ path @ '': '' @ show_io source"
| "show_tsync_error show_io (PinEdit channel) =
     ''cannot set `[toolchain] channel = '' @ quoted channel @ ''` safely; edit the toolchain file by hand''"

text \<open>The last part of \<open>remote_checks\<close>: the comparison that knows whether a toolchain is declared.\<close>

definition toolchain_check :: "'io sys \<Rightarrow> string \<Rightarrow> path \<Rightarrow> toolchain_fingerprint \<Rightarrow> toolchain_fingerprint \<Rightarrow> history \<Rightarrow> doctor_check" where
  "toolchain_check sys host cwd l r h =
     (if compatible_with l r then mk_check ''remote-toolchain'' True (host @ '': '' @ show_fingerprint r)
      else
        let pinned = find_toolchain_file (sy_is_file sys h) cwd \<noteq> None;
            both = [NL] @ ''    local:  '' @ show_fingerprint l @ [NL] @ ''    '' @ host @ '': '' @ show_fingerprint r @ [NL] in
        mk_check ''remote-toolchain'' (\<not> pinned)
          (if pinned
           then ''mismatch for '' @ cwd @ both @ ''    run `rustup toolchain install '' @ rustc_version l @ ''` on '' @ host
           else ''defaults differ, but '' @ cwd @ '' is unpinned so nothing is broken'' @ both
                @ ''    remote builds from an unpinned directory fall back to a local build; add rust-toolchain.toml to build remotely''))"

definition sync_checks ::
  "'io sys \<Rightarrow> string \<Rightarrow> path \<Rightarrow> probed \<Rightarrow> probed \<Rightarrow> sync_policy option \<Rightarrow> (doctor_check list, 'e) act" where
  "sync_checks sys host cwd loc remote sync =
     (let compare = act_ask (toolchain_check sys host cwd (pr_fp loc) (pr_fp remote)) in
      case sync of
        None \<Rightarrow> act_bind compare (\<lambda>c. act_ret [c])
      | Some policy \<Rightarrow>
          act_match (sync_toolchain sys host cwd policy loc remote) (\<lambda>res.
            case res of
              Inr AlreadyInSync \<Rightarrow>
                act_bind compare (\<lambda>c. act_ret [mk_check SYNC_CHECK True (''already in sync: '' @ show_fingerprint (pr_fp loc)), c])
            | Inr (Synced s) \<Rightarrow>
                act_ret [mk_check SYNC_CHECK True (describe s host),
                         mk_check ''remote-toolchain'' True
                           (''in sync after --sync-toolchain: '' @ host @ '': '' @ show_fingerprint (sd_remote s))]
            | Inl e \<Rightarrow>
                act_bind compare (\<lambda>c. act_ret [mk_check SYNC_CHECK False (show_tsync_error (sy_show_io sys) e), c])))"

definition remote_checks ::
  "'io sys \<Rightarrow> string \<Rightarrow> string \<Rightarrow> path \<Rightarrow> probed option \<Rightarrow> sync_policy option \<Rightarrow> (doctor_check list, 'e) act" where
  "remote_checks sys host remote_bin cwd loc sync =
     act_match (doctor_run sys None ''ssh'' [''-o'', ''BatchMode=yes'', ''-o'', ''ConnectTimeout=3'', host, ''true'']) (\<lambda>ssh.
       case ssh of
         Inl e \<Rightarrow>
           act_ret ([mk_check ''remote-ssh'' False (''ssh '' @ host @ '': '' @ e),
                     mk_check ''remote-rbs'' False ''skipped: ssh unreachable'',
                     mk_check ''remote-toolchain'' False ''skipped: ssh unreachable''] @ skip_sync sync ''ssh unreachable'')
       | Inr _ \<Rightarrow>
           act_bind (act_ask (sy_elapsed_ms sys)) (\<lambda>rtt.
           act_match (doctor_run sys None ''ssh'' [host, remote_bin, ''--version'']) (\<lambda>version.
             let reached = [mk_check ''remote-ssh'' True (host @ '' reachable, rtt '' @ show_nat rtt @ '' ms''),
                            (case version of
                               Inr v \<Rightarrow> mk_check ''remote-rbs'' True (trim v)
                             | Inl e \<Rightarrow> mk_check ''remote-rbs'' False (e @ '' (run `rbs setup --remote-host '' @ host @ ''`)''))] in
             case loc of
               None \<Rightarrow>
                 act_ret (reached @ [mk_check ''remote-toolchain'' False ''skipped: local toolchain unknown'']
                          @ skip_sync sync ''local toolchain unknown'')
             | Some l \<Rightarrow>
                 act_match (remote_fingerprint sys host cwd) (\<lambda>remote.
                   case remote of
                     Inl e \<Rightarrow>
                       act_ret (reached @ [mk_check ''remote-toolchain'' False (host @ '': '' @ e)]
                                @ skip_sync sync ''remote toolchain unknown'')
                   | Inr r \<Rightarrow> act_bind (sync_checks sys host cwd l r sync) (\<lambda>cs. act_ret (reached @ cs))))))"

definition binary_check :: "'io sys \<Rightarrow> paths \<Rightarrow> history \<Rightarrow> string \<Rightarrow> doctor_check" where
  "binary_check sys paths h bin =
     (case find_on_path sys paths bin h of
        Some p \<Rightarrow> mk_check (''binary:'' @ bin) True p
      | None \<Rightarrow> mk_check (''binary:'' @ bin) False (bin @ '' not found on PATH''))"

definition kache_remote_check :: "paths \<Rightarrow> (string, string) result \<Rightarrow> doctor_check" where
  "kache_remote_check paths res =
     (case res of
        Inr out \<Rightarrow>
          if kache_stats_has_remote out
          then mk_check ''kache-remote'' True (trim (unwrap_or [] (find (starts_with ''Remote:'') (lines out))))
          else mk_check ''kache-remote'' False
                 (''`kache stats` shows no s3 remote; check '' @ kache_config_path paths @ [NL] @ trim out)
      | Inl e \<Rightarrow> mk_check ''kache-remote'' False e)"

definition kache_daemon_check :: "(string, string) result \<Rightarrow> doctor_check" where
  "kache_daemon_check res =
     (case res of
        Inr out \<Rightarrow>
          if daemon_is_running out then mk_check ''kache-daemon'' True (trim out)
          else mk_check ''kache-daemon'' False (''not running: '' @ trim out)
      | Inl e \<Rightarrow> mk_check ''kache-daemon'' False e)"

definition socket_check :: "'io sys \<Rightarrow> path \<Rightarrow> history \<Rightarrow> doctor_check" where
  "socket_check sys sock h =
     (if sy_exists sys h sock then mk_check ''server-socket'' True sock
      else mk_check ''server-socket'' False (sock @ '' missing (systemctl --user status rbs-server)''))"

definition shim_check :: "'io sys \<Rightarrow> paths \<Rightarrow> history \<Rightarrow> doctor_check" where
  "shim_check sys paths h =
     (case find_on_path sys paths ''cargo'' h of
        Some p \<Rightarrow>
          if path_starts_with (shim_dir paths) p then mk_check ''shim-precedence'' True p
          else mk_check ''shim-precedence'' False
                 (''first cargo on PATH is '' @ p @ '' '' @ EM_DASH @ '' add: export PATH=''
                  @ quoted ''$HOME/.local/share/rbs/shim:$PATH'')
      | None \<Rightarrow> mk_check ''shim-precedence'' False ''no cargo on PATH'')"

definition doctor_with ::
  "'io sys \<Rightarrow> paths \<Rightarrow> config \<Rightarrow> doctor_opts \<Rightarrow> (doctor_check list, 'io runner_error) act" where
  "doctor_with sys paths cfg opts =
     act_bind (act_ask (\<lambda>h. map (binary_check sys paths h) REQUIRED_BINARIES)) (\<lambda>binaries.
     act_bind (act_ask (kache_bin sys paths)) (\<lambda>kache.
     act_match (doctor_run sys None kache [''stats'']) (\<lambda>stats.
     act_match (doctor_run sys None kache [''daemon'', ''status'']) (\<lambda>daemon.
     act_bind (act_ask (socket_check sys (ls_socket (cfg_local_server cfg)))) (\<lambda>socket.
     act_bind (act_ask (shim_check sys paths)) (\<lambda>shim.
     act_match (local_fingerprint sys (do_cwd opts)) (\<lambda>loc.
       let checks = binaries @ [kache_remote_check paths stats, kache_daemon_check daemon, socket, shim,
             (case loc of
                Inr pb \<Rightarrow> mk_check ''toolchain'' True (show_fingerprint (pr_fp pb))
              | Inl e \<Rightarrow> mk_check ''toolchain'' False (do_cwd opts @ '': '' @ e))] in
       if do_remote opts \<or> do_sync_toolchain opts \<noteq> None
       then act_bind (remote_checks sys (rm_host (cfg_remote cfg)) (rm_remote_bin (cfg_remote cfg)) (do_cwd opts)
                        (result_ok loc) (do_sync_toolchain opts)) (\<lambda>cs. act_ret (checks @ cs))
       else act_ret checks)))))))"

section \<open>What a check-up changes\<close>

lemma doctor_run_emits [emits_rules]: "emits is_run (doctor_run sys cwd program args)"
  unfolding doctor_run_def by (auto intro!: emits_rules)

lemma local_fingerprint_emits [emits_rules]: "emits is_run (local_fingerprint sys cwd)"
  unfolding local_fingerprint_def by (auto intro!: emits_rules)

lemma remote_fingerprint_emits [emits_rules]: "emits is_run (remote_fingerprint sys host cwd)"
  unfolding remote_fingerprint_def by (auto intro!: emits_rules)

text \<open>A command that was looked at, whatever it answered.\<close>

lemma hoare_match_runs:
  assumes "emits is_run m" "\<And>r. hoare (since h0 is_run) (f r) R E"
  shows "hoare (since h0 is_run) (act_match m f) R E"
proof (rule hoare_match)
  show "hoare (since h0 is_run) m (\<lambda>_. since h0 is_run) (since h0 is_run)"
    by (rule hoare_emits [OF assms(1)]) (auto intro: since_trans)
qed (rule assms(2))+

lemma hoare_ask_bind:
  "(\<And>x. hoare P (f x) R E) \<Longrightarrow> hoare P (act_bind (act_ask q) f) R E"
  by (rule hoare_bind [where Q = "\<lambda>_. P"]) (auto intro: hoare_ask)

text \<open>The goal: without a sync request only commands are run, with one the pin comes last.\<close>

definition doctor_safe :: "'io sys \<Rightarrow> string \<Rightarrow> sync_policy option \<Rightarrow> history \<Rightarrow> history \<Rightarrow> bool" where
  "doctor_safe sys host sync h0 h \<longleftrightarrow> (if sync = None then since h0 is_run h else pinned_last sys host h0 h)"

lemma doctor_safe_runs: "since h0 is_run h \<Longrightarrow> doctor_safe sys host sync h0 h"
  by (simp add: doctor_safe_def pinned_last_runs)

lemma sync_checks_hoare:
  "hoare (since h0 is_run) (sync_checks sys host cwd loc remote sync) (\<lambda>_. doctor_safe sys host sync h0) (\<lambda>_. False)"
proof (cases sync)
  case None
  then show ?thesis
    unfolding sync_checks_def Let_def by (auto intro!: hoare_ask_bind hoare_pure(1) doctor_safe_runs)
next
  case (Some policy)
  have "hoare (since h0 is_run) (sync_toolchain sys host cwd policy loc remote)
      (\<lambda>_. doctor_safe sys host sync h0) (doctor_safe sys host sync h0)"
  proof -
    have "doctor_safe sys host sync h0 = pinned_last sys host h0" by (simp add: doctor_safe_def Some fun_eq_iff)
    then show ?thesis by (simp add: sync_toolchain_hoare)
  qed
  then show ?thesis
    unfolding sync_checks_def Let_def Some option.case
    by (rule hoare_match) (auto split: sync_outcome.splits intro!: hoare_ask_bind hoare_pure(1))
qed

lemma remote_checks_hoare:
  "hoare (since h0 is_run) (remote_checks sys host remote_bin cwd loc sync) (\<lambda>_. doctor_safe sys host sync h0) (\<lambda>_. False)"
proof -
  have inner: "hoare (since h0 is_run) (act_bind (sync_checks sys host cwd l r sync) (\<lambda>cs. act_ret (g cs)))
      (\<lambda>_. doctor_safe sys host sync h0) (\<lambda>_. False)" for l r and g :: "doctor_check list \<Rightarrow> doctor_check list"
    by (rule hoare_bind [OF sync_checks_hoare]) (auto intro: hoare_pure(1))
  show ?thesis
    unfolding remote_checks_def Let_def
    by (rule hoare_match_runs [OF doctor_run_emits])
       (auto split: sum.splits option.splits intro!: hoare_pure(1) doctor_safe_runs hoare_ask_bind
          hoare_match_runs [OF doctor_run_emits] hoare_match_runs [OF remote_fingerprint_emits] inner)
qed

lemma doctor_with_hoare:
  "hoare (since h0 is_run) (doctor_with sys paths cfg opts)
     (\<lambda>_. doctor_safe sys (rm_host (cfg_remote cfg)) (do_sync_toolchain opts) h0) (\<lambda>_. False)"
proof -
  have tail: "hoare (since h0 is_run)
      (act_bind (remote_checks sys (rm_host (cfg_remote cfg)) bin cwd loc (do_sync_toolchain opts)) (\<lambda>cs. act_ret (checks @ cs)))
      (\<lambda>_. doctor_safe sys (rm_host (cfg_remote cfg)) (do_sync_toolchain opts) h0) (\<lambda>_. False)" for bin cwd loc checks
    by (rule hoare_bind [OF remote_checks_hoare]) (auto intro: hoare_pure(1))
  show ?thesis
    unfolding doctor_with_def Let_def
    by (intro hoare_ask_bind hoare_match_runs doctor_run_emits local_fingerprint_emits hoare_if tail hoare_pure(1) doctor_safe_runs)
qed

text \<open>
  C36. A check-up always ends with a report, and what it may change is limited. Without
  \<open>--sync-toolchain\<close> it only runs commands and touches no file. With it, the only file written is a
  toolchain file, and only after both hosts were made to run the compiler of the chosen channel
  and reported the same build; the text written names that channel. So no failure on the way
  leaves a pin that one host cannot satisfy.
\<close>
theorem doctor_pins_last:
  "\<exists>checks h. doctor_with sys paths cfg opts h0 = (Inr checks, h)
     \<and> (if do_sync_toolchain opts = None then since h0 is_run h
        else since h0 is_run h
          \<or> (\<exists>channel h1. since h0 is_run h1
               \<and> verified_both sys (rm_host (cfg_remote cfg)) channel h1
               \<and> since h1 (pin_effect sys channel) h))"
proof -
  obtain r h where d: "doctor_with sys paths cfg opts h0 = (r, h)" by (rule prod.exhaust)
  with doctor_with_hoare [of h0 sys paths cfg opts]
  have "case r of Inl e \<Rightarrow> False | Inr c \<Rightarrow> doctor_safe sys (rm_host (cfg_remote cfg)) (do_sync_toolchain opts) h0 h"
    unfolding hoare_def by blast
  then show ?thesis
    using d by (cases r) (auto simp: doctor_safe_def pinned_last_def)
qed

end
