(* ===== verification/Setup.thy ===== *)
theory Setup
  imports Provision
begin

text \<open>
  \<open>rbs setup\<close>: \<open>crates/rbs-setup/src/setup.rs\<close>. The steps that provision a host: the configuration
  files, kache and its credentials, the systemd units, the cargo shim, and the remote host. The
  text of the generated configuration comes from serialising the configuration record, which is
  the parameter \<open>to_toml\<close>.
\<close>

section \<open>Templates\<close>

definition UNIT_NAME :: string where "UNIT_NAME = ''rbs-server''"
definition GC_UNIT_NAME :: string where "GC_UNIT_NAME = ''rbs-store-gc''"

definition path_comment :: string where
  "path_comment = ''# cargo/rustc/kache are resolved from the user'' @ [CHR 0x27]
     @ ''s PATH; keep ~/.cargo/bin and ~/.local/bin visible.''"

definition UNIT_TEMPLATE :: string where
  "UNIT_TEMPLATE = unlines
     [''[Unit]'',
      ''Description=rbs build server (resource-aware cargo job scheduler)'',
      ''Documentation=https://github.com/RhizoNymph/rust-build-server'',
      ''After=default.target'',
      [],
      ''[Service]'',
      ''Type=simple'',
      ''ExecStart={self_exe} server'',
      ''Restart=on-failure'',
      ''RestartSec=2'',
      ''Environment=RBS_LOG=info'',
      path_comment,
      ''Environment=PATH=%h/.cargo/bin:%h/.local/bin:/usr/local/bin:/usr/bin:/bin:/snap/bin'',
      ''KillMode=control-group'',
      ''TimeoutStopSec=30'',
      [],
      ''[Install]'',
      ''WantedBy=default.target'']"

definition GC_SERVICE_TEMPLATE :: string where
  "GC_SERVICE_TEMPLATE = unlines
     [''[Unit]'',
      ''Description=rbs shared store garbage collection (kache S3 size cap, LFU eviction)'',
      ''Documentation=https://github.com/RhizoNymph/rust-build-server'',
      [],
      ''[Service]'',
      ''Type=oneshot'',
      ''ExecStart={self_exe} store-gc'',
      ''Environment=RBS_LOG=info'',
      path_comment,
      ''Environment=PATH=%h/.cargo/bin:%h/.local/bin:/usr/local/bin:/usr/bin:/bin:/snap/bin'']"

definition STORE_GC_TIMER :: string where
  "STORE_GC_TIMER = unlines
     [''[Unit]'',
      ''Description=Daily rbs shared store garbage collection'',
      [],
      ''[Timer]'',
      ''OnCalendar=daily'',
      ''RandomizedDelaySec=1h'',
      ''Persistent=true'',
      [],
      ''[Install]'',
      ''WantedBy=timers.target'']"

text \<open>\<open>str::replace\<close> for a non-empty pattern: every non-overlapping occurrence, from the left.\<close>

function replace_sub :: "string \<Rightarrow> string \<Rightarrow> string \<Rightarrow> string" where
  "replace_sub p r [] = []"
| "replace_sub p r (c # cs) =
     (if p \<noteq> [] \<and> starts_with p (c # cs) then r @ replace_sub p r (drop (length p) (c # cs))
      else c # replace_sub p r cs)"
  by pat_completeness auto
termination
  by (relation "measure (\<lambda>(p, r, s). length s)") (auto simp: neq_Nil_conv)

definition render_unit :: "path \<Rightarrow> string" where
  "render_unit self_exe = replace_sub ''{self_exe}'' self_exe UNIT_TEMPLATE"

definition render_store_gc_service :: "path \<Rightarrow> string" where
  "render_store_gc_service self_exe = replace_sub ''{self_exe}'' self_exe GC_SERVICE_TEMPLATE"

definition generate_config :: "(config \<Rightarrow> string option) \<Rightarrow> role \<Rightarrow> string" where
  "generate_config to_toml role =
     (let cfg = config_default\<lparr>cfg_server := server_default\<lparr>sv_reserve_cores := 4\<rparr>\<rparr>;
          cfg = (case role of
             Client \<Rightarrow> cfg\<lparr>cfg_server := (cfg_server cfg)\<lparr>sv_max_jobs := 3, sv_job_mem_max_gib := 12,
                         sv_min_mem_available_gib := 8\<rparr>\<rparr>
           | ServerRole \<Rightarrow> cfg\<lparr>cfg_server := (cfg_server cfg)\<lparr>sv_max_jobs := 12, sv_job_mem_max_gib := 24,
                         sv_min_mem_available_gib := 16\<rparr>,
                       cfg_remote := (cfg_remote cfg)\<lparr>rm_enabled := False\<rparr>\<rparr>)
      in ''# Generated by `rbs setup --role '' @ role_name role
         @ ''`. Edit freely; rerun with --force to regenerate.'' @ [NL] @ unwrap_or [] (to_toml cfg))"

section \<open>Steps\<close>

datatype 'io setup_error =
    StRead path 'io
  | StWrite path 'io
  | MissingMinioEnv path
  | MissingMinioKey path string
  | KacheRemoteNotConfigured path string
  | StCommandFailed string string string
  | StShim path path 'io
  | StRunner "'io runner_error"

record setup_opts =
  se_role :: role
  se_remote_host :: "string option"
  se_force :: bool
  se_self_exe :: path

definition read_opt :: "'io sys \<Rightarrow> path \<Rightarrow> (string option, 'io setup_error) act" where
  "read_opt sys path =
     act_match (fs_read sys path) (\<lambda>res.
       case res of
         Inr s \<Rightarrow> act_ret (Some s)
       | Inl e \<Rightarrow> if sy_not_found sys e then act_ret None else act_err (StRead path e))"

definition write_file :: "'io sys \<Rightarrow> path \<Rightarrow> string \<Rightarrow> nat option \<Rightarrow> (unit, 'io setup_error) act" where
  "write_file sys path text mode =
     act_bind (case path_parent path of
                 Some parent \<Rightarrow> act_map_err (StWrite path) (fs_mkdirs sys parent)
               | None \<Rightarrow> act_ret ()) (\<lambda>_.
     act_bind (act_map_err (StWrite path) (fs_write sys path text)) (\<lambda>_.
       case mode of
         Some m \<Rightarrow> act_map_err (StWrite path) (fs_chmod sys path m)
       | None \<Rightarrow> act_ret ()))"

definition write_config_file :: "'io sys \<Rightarrow> path \<Rightarrow> string \<Rightarrow> bool \<Rightarrow> (bool, 'io setup_error) act" where
  "write_config_file sys path text force =
     act_bind (read_opt sys path) (\<lambda>found.
       case found of
         None \<Rightarrow> act_bind (write_file sys path text None) (\<lambda>_. act_ret True)
       | Some existing \<Rightarrow>
           (if existing = text then act_ret True
            else if force then act_bind (write_file sys path text None) (\<lambda>_. act_ret True)
            else act_bind (act_print (''--- '' @ path @ '' (existing)'' @ [NL] @ ''+++ generated'' @ [NL])) (\<lambda>_.
                 act_bind (act_print (line_diff existing text)) (\<lambda>_. act_ret False))))"

definition run_checked :: "'io sys \<Rightarrow> string \<Rightarrow> string list \<Rightarrow> (string, 'io setup_error) act" where
  "run_checked sys program args =
     act_bind (act_map_err StRunner (run_cmd sys program args)) (\<lambda>out.
       if output_success out then act_ret (ou_stdout out)
       else act_err (StCommandFailed program (join '' '' args) (failure_detail out)))"

definition minio_key :: "path \<Rightarrow> (string \<rightharpoonup> string) \<Rightarrow> string \<Rightarrow> (string, 'io setup_error) result" where
  "minio_key env_path env k = ok_or (MissingMinioKey env_path k) (option_filter (\<lambda>v. v \<noteq> []) (env k))"

definition write_credentials :: "'io sys \<Rightarrow> path \<Rightarrow> string \<Rightarrow> string \<Rightarrow> (unit, 'io setup_error) act" where
  "write_credentials sys creds access secret =
     act_bind (read_opt sys creds) (\<lambda>found.
       let existing = unwrap_or [] found;
           updated = aws_credentials_with_profile existing AWS_PROFILE access secret in
       act_bind (case path_parent creds of
                   Some dir \<Rightarrow>
                     act_bind (act_map_err (StWrite dir) (fs_mkdirs sys dir)) (\<lambda>_.
                     act_match (fs_chmod sys dir 0x1C0) (\<lambda>_. act_ret ()))
                 | None \<Rightarrow> act_ret ()) (\<lambda>_.
       write_file sys creds updated (Some 0x180)))"

definition setup_kache :: "'io sys \<Rightarrow> paths \<Rightarrow> bool \<Rightarrow> (unit, 'io setup_error) act" where
  "setup_kache sys paths force =
     (let env_path = minio_env paths in
      act_bind (read_opt sys env_path) (\<lambda>found.
      act_bind (act_lift (ok_or (MissingMinioEnv env_path) found)) (\<lambda>env_text.
        let env = parse_env_file env_text in
        act_bind (act_lift (minio_key env_path env ''KACHE_S3_ACCESS_KEY'')) (\<lambda>access.
        act_bind (act_lift (minio_key env_path env ''KACHE_S3_SECRET_KEY'')) (\<lambda>secret.
          let endpoint = unwrap_or DEFAULT_ENDPOINT (env ''KACHE_S3_ENDPOINT'');
              bucket = unwrap_or DEFAULT_BUCKET (env ''KACHE_S3_BUCKET'');
              kache_cfg = kache_config_path paths in
          act_bind (write_config_file sys kache_cfg (kache_config endpoint bucket) force) (\<lambda>_.
          act_bind (write_credentials sys (aws_credentials paths) access secret) (\<lambda>_.
          act_bind (act_ask (kache_bin sys paths)) (\<lambda>kache.
          act_bind (run_checked sys kache [''stats'']) (\<lambda>stats.
            if \<not> kache_stats_has_remote stats then act_err (KacheRemoteNotConfigured kache_cfg stats)
            else act_ret ())))))))))"

definition install_units :: "'io sys \<Rightarrow> paths \<Rightarrow> role \<Rightarrow> (unit, 'io setup_error) act" where
  "install_units sys paths role =
     (let dir = systemd_user_dir paths in
      act_bind (write_file sys (path_join dir (UNIT_NAME @ ''.service'')) (render_unit (pt_self_exe paths)) None) (\<lambda>_.
        if role = ServerRole then
          act_bind (write_file sys (path_join dir (GC_UNIT_NAME @ ''.service'')) (render_store_gc_service (pt_self_exe paths)) None) (\<lambda>_.
            write_file sys (path_join dir (GC_UNIT_NAME @ ''.timer'')) STORE_GC_TIMER None)
        else act_ret ()))"

definition setup_services :: "'io sys \<Rightarrow> paths \<Rightarrow> role \<Rightarrow> (unit, 'io setup_error) act" where
  "setup_services sys paths role =
     act_bind (install_units sys paths role) (\<lambda>_.
     act_bind (run_checked sys ''systemctl'' [''--user'', ''daemon-reload'']) (\<lambda>_.
     act_bind (run_checked sys ''systemctl'' [''--user'', ''enable'', ''--now'', UNIT_NAME]) (\<lambda>_.
     act_bind (if role = ServerRole
               then act_bind (run_checked sys ''systemctl'' [''--user'', ''enable'', ''--now'', GC_UNIT_NAME @ ''.timer'']) (\<lambda>_. act_ret ())
               else act_ret ()) (\<lambda>_.
     act_bind (act_ask (kache_bin sys paths)) (\<lambda>kache.
     act_bind (act_map_err StRunner (run_cmd sys kache [''daemon'', ''install''])) (\<lambda>out.
       if output_success out then act_ret ()
       else if contains ''already'' (map to_lower (failure_detail out)) then act_ret ()
       else act_err (StCommandFailed kache ''daemon install'' (failure_detail out))))))))"

definition clear_shim :: "'io sys \<Rightarrow> paths \<Rightarrow> (unit, 'io setup_error) act" where
  "clear_shim sys paths =
     (let dir = shim_dir paths; shim = path_join dir ''cargo''; exe = pt_self_exe paths in
      act_bind (act_map_err (StWrite dir) (fs_mkdirs sys dir)) (\<lambda>_.
      act_match (fs_remove sys shim) (\<lambda>removed.
        case removed of
          Inl e \<Rightarrow> if sy_not_found sys e then act_ret () else act_err (StShim shim exe e)
        | Inr _ \<Rightarrow> act_ret ())))"

definition link_shim :: "'io sys \<Rightarrow> paths \<Rightarrow> (unit, 'io setup_error) act" where
  "link_shim sys paths =
     (let shim = path_join (shim_dir paths) ''cargo''; exe = pt_self_exe paths in
      act_bind (act_match (fs_hard_link sys exe shim) (\<lambda>linked.
        case linked of
          Inr _ \<Rightarrow> act_ret ()
        | Inl _ \<Rightarrow> act_map_err (StShim shim exe) (fs_symlink sys exe shim))) (\<lambda>_.
      act_bind (act_print (''Add the shim to PATH for agent environments:'' @ [NL])) (\<lambda>_.
      act_print (''  export PATH='' @ quoted ''$HOME/.local/share/rbs/shim:$PATH'' @ [NL]))))"

definition setup_shim :: "'io sys \<Rightarrow> paths \<Rightarrow> (unit, 'io setup_error) act" where
  "setup_shim sys paths = act_bind (clear_shim sys paths) (\<lambda>_. link_shim sys paths)"

definition setup_remote :: "'io sys \<Rightarrow> paths \<Rightarrow> string \<Rightarrow> bool \<Rightarrow> (unit, 'io setup_error) act" where
  "setup_remote sys paths host force =
     act_bind (run_checked sys ''ssh'' [host, ''mkdir'', ''-p'', ''.local/bin'']) (\<lambda>_.
     act_bind (run_checked sys ''scp'' [pt_self_exe paths, host @ '':.local/bin/rbs'']) (\<lambda>_.
     act_bind (run_checked sys ''ssh'' ([host, ''.local/bin/rbs'', ''setup'', ''--role'', ''server'']
                 @ (if force then [''--force''] else []))) (\<lambda>out.
       if trim out \<noteq> [] then
         act_bind (act_print (''--- '' @ host @ '': rbs setup ---'' @ [NL])) (\<lambda>_. act_print out)
       else act_ret ())))"

definition setup_with :: "'io sys \<Rightarrow> (config \<Rightarrow> string option) \<Rightarrow> paths \<Rightarrow> setup_opts \<Rightarrow> (unit, 'io setup_error) act" where
  "setup_with sys to_toml paths0 opts =
     (let paths = paths0\<lparr>pt_self_exe := se_self_exe opts\<rparr> in
      act_bind (write_config_file sys (rbs_config_path paths) (generate_config to_toml (se_role opts)) (se_force opts)) (\<lambda>_.
      act_bind (setup_kache sys paths (se_force opts)) (\<lambda>_.
      act_bind (setup_services sys paths (se_role opts)) (\<lambda>_.
      act_bind (setup_shim sys paths) (\<lambda>_.
        case (se_role opts, se_remote_host opts) of
          (Client, Some host) \<Rightarrow> setup_remote sys paths host (se_force opts)
        | _ \<Rightarrow> act_ret ())))))"

section \<open>What setup may overwrite, and in which order it works\<close>

definition absent_at :: "'io sys \<Rightarrow> path \<Rightarrow> history \<Rightarrow> bool" where
  "absent_at sys p h \<longleftrightarrow> (\<exists>e. sy_read sys h p = Inl e \<and> sy_not_found sys e)"

definition remote_verified_at :: "'io sys \<Rightarrow> paths \<Rightarrow> history \<Rightarrow> bool" where
  "remote_verified_at sys paths h \<longleftrightarrow>
     (\<exists>stats h'. run_checked sys (kache_bin sys paths h) [''stats''] h = (Inr stats, h') \<and> kache_stats_has_remote stats)"

text \<open>\<open>Q\<close> held at some moment of the run before \<open>h\<close>.\<close>

definition earlier :: "history \<Rightarrow> (history \<Rightarrow> bool) \<Rightarrow> history \<Rightarrow> bool" where
  "earlier h0 Q h \<longleftrightarrow> (\<exists>k \<ge> length h0. k \<le> length h \<and> Q (take k h))"

fun setup_allowed :: "'io sys \<Rightarrow> paths \<Rightarrow> bool \<Rightarrow> history \<Rightarrow> history \<Rightarrow> effect \<Rightarrow> bool" where
  "setup_allowed sys paths force h0 h (WroteFile p t) \<longleftrightarrow>
     (p = rbs_config_path paths \<or> p = kache_config_path paths \<longrightarrow> force \<or> earlier h0 (absent_at sys p) h)"
| "setup_allowed sys paths force h0 h (Ran cwd prog args) \<longleftrightarrow>
     (prog = ''systemctl'' \<or> prog = ''ssh'' \<or> prog = ''scp'' \<longrightarrow> earlier h0 (remote_verified_at sys paths) h)"
| "setup_allowed sys paths force h0 h (HardLinked a b) \<longleftrightarrow> earlier h0 (remote_verified_at sys paths) h"
| "setup_allowed sys paths force h0 h (Symlinked a b) \<longleftrightarrow> earlier h0 (remote_verified_at sys paths) h"
| "setup_allowed sys paths force h0 h _ \<longleftrightarrow> True"

lemma earlier_append: "earlier h0 Q h \<Longrightarrow> earlier h0 Q (h @ es)"
  unfolding earlier_def by (metis append_Nil2 diff_is_0_eq le_trans length_append le_add1 take0 take_append)

lemma earlier_now: "length h0 \<le> length h \<Longrightarrow> Q h \<Longrightarrow> earlier h0 Q (h @ es)"
  by (rule earlier_append) (auto simp: earlier_def intro!: exI [of _ "length h"])

lemma path_join_last: "b \<noteq> [] \<Longrightarrow> last (path_join a b) = last b"
  by (simp add: path_join_def)

lemma kache_bin_last: "last (kache_bin sys paths h) = CHR ''e''"
  by (simp add: kache_bin_def Let_def path_join_last)

lemma config_path_last: "last (rbs_config_path paths) = CHR ''l''" "last (kache_config_path paths) = CHR ''l''"
  by (simp_all add: rbs_config_path_def user_config_path_def kache_config_path_def path_join_last)

definition quiet :: "effect \<Rightarrow> bool" where
  "quiet e \<longleftrightarrow> (case e of WroteFile p t \<Rightarrow> last p \<noteq> CHR ''l'' | Ran cwd prog args \<Rightarrow> last prog = CHR ''e''
     | HardLinked a b \<Rightarrow> False | Symlinked a b \<Rightarrow> False | _ \<Rightarrow> True)"

definition mild :: "effect \<Rightarrow> bool" where
  "mild e \<longleftrightarrow> (case e of WroteFile p t \<Rightarrow> last p \<noteq> CHR ''l'' | _ \<Rightarrow> True)"

abbreviation setup_inv :: "'io sys \<Rightarrow> paths \<Rightarrow> bool \<Rightarrow> history \<Rightarrow> history \<Rightarrow> bool" where
  "setup_inv sys paths force h0 \<equiv> disciplined (setup_allowed sys paths force h0) h0"

abbreviation kache_verified :: "'io sys \<Rightarrow> paths \<Rightarrow> history \<Rightarrow> history \<Rightarrow> bool" where
  "kache_verified sys paths h0 \<equiv> earlier h0 (remote_verified_at sys paths)"

lemma quiet_allowed: "quiet e \<Longrightarrow> setup_allowed sys paths force h0 h e"
  using config_path_last [of paths] by (cases e) (auto simp: quiet_def)

lemma mild_allowed: "kache_verified sys paths h0 h \<Longrightarrow> mild e \<Longrightarrow> setup_allowed sys paths force h0 h e"
  using config_path_last [of paths] by (cases e) (auto simp: mild_def)

text \<open>Quiet effects are always allowed; once the store is verified, so are mild ones.\<close>

interpretation always: guard "setup_allowed sys paths force h0" "\<lambda>_. True" quiet for sys paths force h0
  by unfold_locales (auto intro: quiet_allowed)

interpretation verified: guard "setup_allowed sys paths force h0" "kache_verified sys paths h0" mild for sys paths force h0
  by unfold_locales (auto intro: mild_allowed earlier_append)

lemma hoare_quiet:
  "emits quiet m \<Longrightarrow> hoare (setup_inv sys paths force h0) m (\<lambda>_. setup_inv sys paths force h0) (setup_inv sys paths force h0)"
  using always.hoare_guarded by fastforce

lemmas hoare_mild = verified.hoare_guarded

lemma read_opt_hoare:
  "hoare (setup_inv sys paths force h0) (read_opt sys p) (\<lambda>r h. setup_inv sys paths force h0 h \<and> (r = None \<longrightarrow> earlier h0 (absent_at sys p) h)) (setup_inv sys paths force h0)"
proof -
  have "setup_inv sys paths force h0 (h @ [ReadFile p])" if "setup_inv sys paths force h0 h" for h
    using that by (rule disciplined_snoc) simp
  moreover have "earlier h0 (absent_at sys p) (h @ [ReadFile p])" if "setup_inv sys paths force h0 h" "sy_read sys h p = Inl e" "sy_not_found sys e" for h e
    using that disciplined_length [OF that(1)] by (intro earlier_now) (auto simp: absent_at_def)
  ultimately show ?thesis
    by (auto simp: hoare_def read_opt_def act_match_def fs_read_def act_ret_def act_err_def split: sum.splits if_splits)
qed

text \<open>A configuration file may be written when it is absent or the write is forced.\<close>

definition writable :: "'io sys \<Rightarrow> paths \<Rightarrow> bool \<Rightarrow> history \<Rightarrow> path \<Rightarrow> history \<Rightarrow> bool" where
  "writable sys paths force h0 p h \<longleftrightarrow>
     force \<or> earlier h0 (absent_at sys p) h \<or> (p \<noteq> rbs_config_path paths \<and> p \<noteq> kache_config_path paths)"

definition writes_only :: "path \<Rightarrow> effect \<Rightarrow> bool" where
  "writes_only p e \<longleftrightarrow> (case e of WroteFile q t \<Rightarrow> q = p | MadeDirs d \<Rightarrow> True | SetMode q m \<Rightarrow> True | _ \<Rightarrow> False)"

interpretation writing: guard "setup_allowed sys paths force h0" "writable sys paths force h0 p" "writes_only p" for sys paths force h0 p
proof
  show "setup_allowed sys paths force h0 h e" if "writable sys paths force h0 p h" "writes_only p e" for h e
    using that by (cases e) (auto simp: writes_only_def writable_def)
qed (auto simp: writable_def intro: earlier_append)

lemma write_file_emits: "emits (writes_only p) (write_file sys p t mode)"
  unfolding write_file_def by (auto intro!: emits_rules simp: writes_only_def)

lemma write_file_hoare:
  "hoare (\<lambda>h. setup_inv sys paths force h0 h \<and> writable sys paths force h0 p h) (write_file sys p t mode)
     (\<lambda>_ h. setup_inv sys paths force h0 h \<and> writable sys paths force h0 p h) (setup_inv sys paths force h0)"
  by (rule writing.hoare_guarded [OF write_file_emits])

lemma write_config_file_hoare:
  "hoare (setup_inv sys paths force h0) (write_config_file sys p t force) (\<lambda>_. setup_inv sys paths force h0)
     (setup_inv sys paths force h0)"
proof -
  have w: "hoare (\<lambda>h. setup_inv sys paths force h0 h \<and> writable sys paths force h0 p h)
      (act_bind (write_file sys p t None) (\<lambda>_. act_ret True)) (\<lambda>_. setup_inv sys paths force h0) (setup_inv sys paths force h0)"
    by (rule hoare_bind [OF write_file_hoare]) (auto intro: hoare_pure(1))
  have print: "hoare (setup_inv sys paths force h0) (act_bind (act_print a) (\<lambda>_. act_bind (act_print b) (\<lambda>_. act_ret False)))
      (\<lambda>_. setup_inv sys paths force h0) (setup_inv sys paths force h0)" for a b
    by (rule hoare_quiet) (auto intro!: emits_rules simp: quiet_def)
  show ?thesis
    unfolding write_config_file_def
  proof (rule hoare_bind [OF read_opt_hoare], goal_cases)
    case (1 found)
    show ?case
    proof (cases found)
      case None
      then show ?thesis by (auto simp: writable_def intro: hoare_conseq [OF w])
    next
      case (Some existing)
      then show ?thesis
        by (auto simp: writable_def intro!: hoare_if intro: hoare_conseq [OF w] hoare_conseq [OF print] hoare_pure(1))
    qed
  qed
qed

lemma run_checked_emits: "P (Ran None program args) \<Longrightarrow> emits P (run_checked sys program args)"
  unfolding run_checked_def by (auto intro!: emits_rules)

lemma write_credentials_emits: "last creds \<noteq> CHR ''l'' \<Longrightarrow> emits quiet (write_credentials sys creds access secret)"
  unfolding write_credentials_def Let_def
  by (auto intro!: emits_rules emits_mono [OF write_file_emits] simp: quiet_def read_opt_def writes_only_def split: effect.splits)

lemma kache_stats_hoare:
  "hoare (setup_inv sys paths force h0)
     (act_bind (act_ask (kache_bin sys paths)) (\<lambda>kache.
      act_bind (run_checked sys kache [''stats'']) (\<lambda>stats.
        if \<not> kache_stats_has_remote stats then act_err (KacheRemoteNotConfigured cfg stats) else act_ret ())))
     (\<lambda>_ h. setup_inv sys paths force h0 h \<and> kache_verified sys paths h0 h) (setup_inv sys paths force h0)"
proof (unfold hoare_def, intro allI impI)
  fix h r h'
  assume i: "setup_inv sys paths force h0 h" and run: "act_bind (act_ask (kache_bin sys paths)) (\<lambda>kache.
      act_bind (run_checked sys kache [''stats'']) (\<lambda>stats.
        if \<not> kache_stats_has_remote stats then act_err (KacheRemoteNotConfigured cfg stats) else act_ret ())) h = (r, h')"
  let ?k = "kache_bin sys paths h"
  obtain q h1 where q: "run_checked sys ?k [''stats''] h = (q, h1)" by (rule prod.exhaust)
  have "emits quiet (run_checked sys ?k [''stats''])"
    by (rule run_checked_emits) (simp add: quiet_def kache_bin_last)
  from emits_since [OF this q] obtain es where h1: "h1 = h @ es" by (auto simp: since_def)
  have inv1: "setup_inv sys paths force h0 h1"
    using hoare_quiet [OF \<open>emits quiet (run_checked sys ?k [''stats''])\<close>, of sys paths force h0] i q
    by (cases q) (auto simp: hoare_def)
  from run q have h': "h' = h1" and r: "\<And>u. r = Inr u \<Longrightarrow> \<exists>stats. q = Inr stats \<and> kache_stats_has_remote stats"
    by (auto simp: act_bind_def act_ask_def act_err_def act_ret_def split: sum.splits if_splits)
  have "kache_verified sys paths h0 h1" if "r = Inr u" for u
    using r [OF that] q disciplined_length [OF i] unfolding h1
    by (intro earlier_now) (auto simp: remote_verified_at_def)
  with inv1 show "case r of Inl e \<Rightarrow> setup_inv sys paths force h0 h'
      | Inr u \<Rightarrow> setup_inv sys paths force h0 h' \<and> kache_verified sys paths h0 h'"
    unfolding h' by (auto split: sum.splits)
qed

lemma setup_kache_hoare:
  fixes sys :: "'io sys"
  shows "hoare (setup_inv sys paths force h0) (setup_kache sys paths force)
     (\<lambda>_ h. setup_inv sys paths force h0 h \<and> kache_verified sys paths h0 h) (setup_inv sys paths force h0)"
proof -
  have creds: "hoare (setup_inv sys paths force h0) (write_credentials sys (aws_credentials paths) access secret)
      (\<lambda>_. setup_inv sys paths force h0) (setup_inv sys paths force h0)" for access secret
    by (rule hoare_quiet [OF write_credentials_emits]) (simp add: aws_credentials_def path_join_last)
  have reading: "hoare (setup_inv sys paths force h0) (read_opt sys p) (\<lambda>_. setup_inv sys paths force h0) (setup_inv sys paths force h0)" for p
    by (rule hoare_conseq [OF read_opt_hoare]) auto
  have lift: "hoare (setup_inv sys paths force h0) (act_lift r) (\<lambda>_. setup_inv sys paths force h0) (setup_inv sys paths force h0)"
    for r :: "(string, 'io setup_error) result"
    by (rule hoare_pure(3)) auto
  show ?thesis
    unfolding setup_kache_def Let_def
    by (rule hoare_bind [OF reading],
        rule hoare_bind [OF lift], rule hoare_bind [OF lift], rule hoare_bind [OF lift],
        rule hoare_bind [OF write_config_file_hoare], rule hoare_bind [OF creds], rule kache_stats_hoare)
qed

lemma install_units_emits: "emits mild (install_units sys paths role)"
proof -
  have "emits mild (write_file sys p t mode)" if "last p \<noteq> CHR ''l''" for p t mode
    by (rule emits_mono [OF write_file_emits]) (use that in \<open>auto simp: mild_def writes_only_def split: effect.splits\<close>)
  then show ?thesis
    unfolding install_units_def Let_def
    by (intro emits_bind emits_split emits_pure) (simp_all add: path_join_last UNIT_NAME_def GC_UNIT_NAME_def)
qed

lemma services_emit: "emits mild (setup_services sys paths role)"
  unfolding setup_services_def
  by (intro emits_bind install_units_emits emits_split emits_pure emits_map_err emits_effect run_checked_emits) (simp_all add: mild_def)

lemma shim_emits: "emits mild (setup_shim sys paths)"
  unfolding setup_shim_def clear_shim_def link_shim_def Let_def by (auto intro!: emits_rules simp: mild_def)

lemma setup_remote_emits: "emits mild (setup_remote sys paths host force)"
  unfolding setup_remote_def by (auto intro!: emits_rules run_checked_emits simp: mild_def)

lemma setup_with_hoare:
  fixes sys :: "'io sys" and paths :: paths and opts :: setup_opts
  defines "p \<equiv> paths\<lparr>pt_self_exe := se_self_exe opts\<rparr>"
  shows "hoare (setup_inv sys p (se_force opts) h0) (setup_with sys to_toml paths opts)
     (\<lambda>_. setup_inv sys p (se_force opts) h0) (setup_inv sys p (se_force opts) h0)"
proof -
  have tail: "hoare (\<lambda>h. setup_inv sys p (se_force opts) h0 h \<and> kache_verified sys p h0 h)
      (case (se_role opts, se_remote_host opts) of
          (Client, Some host) \<Rightarrow> setup_remote sys p host (se_force opts)
        | _ \<Rightarrow> act_ret ()) (\<lambda>_. setup_inv sys p (se_force opts) h0) (setup_inv sys p (se_force opts) h0)"
    by (rule hoare_conseq [OF hoare_mild])
       (auto split: role.splits option.splits intro: setup_remote_emits emits_pure)
  show ?thesis
    unfolding setup_with_def Let_def p_def [symmetric]
    by (rule hoare_bind [OF write_config_file_hoare], rule hoare_bind [OF setup_kache_hoare],
        rule hoare_bind [OF hoare_mild [OF services_emit]], rule hoare_bind [OF hoare_mild [OF shim_emits]], rule tail)
qed

lemma setup_allowed_self_exe:
  "setup_allowed sys (paths\<lparr>pt_self_exe := x\<rparr>) = setup_allowed sys paths"
proof -
  have r: "rbs_config_path (paths\<lparr>pt_self_exe := x\<rparr>) = rbs_config_path paths"
    "kache_config_path (paths\<lparr>pt_self_exe := x\<rparr>) = kache_config_path paths"
    "remote_verified_at sys (paths\<lparr>pt_self_exe := x\<rparr>) = remote_verified_at sys paths"
    by (simp_all add: rbs_config_path_def kache_config_path_def remote_verified_at_def kache_bin_def fun_eq_iff)
  have "setup_allowed sys (paths\<lparr>pt_self_exe := x\<rparr>) f h0 h e = setup_allowed sys paths f h0 h e" for f h0 h e
    by (cases e) (simp_all add: r)
  then show ?thesis by (simp add: fun_eq_iff)
qed

text \<open>
  C39. The discipline of \<open>rbs setup\<close>, whatever its commands and files answer and wherever it stops.
  The user's \<open>config.toml\<close> and kache's configuration are written only if they were found absent
  during this run or the write was forced; and no unit is started, no shim linked and no other
  host contacted before \<open>kache stats\<close> confirmed the shared store during this run.
\<close>
theorem setup_discipline:
  "disciplined (setup_allowed sys paths (se_force opts) h0) h0 (snd (setup_with sys to_toml paths opts h0))"
proof -
  obtain r h where run: "setup_with sys to_toml paths opts h0 = (r, h)" by (rule prod.exhaust)
  with setup_with_hoare [where sys = sys and paths = paths and opts = opts and ?h0.0 = h0 and to_toml = to_toml]
  have "setup_inv sys paths (se_force opts) h0 h"
    by (cases r) (auto simp: hoare_def setup_allowed_self_exe)
  with run show ?thesis by simp
qed

end
