(* ===== verification/Bootstrap.thy ===== *)
theory Bootstrap
  imports Provision
begin

text \<open>
  \<open>rbs bootstrap\<close>: \<open>crates/rbs-setup/src/bootstrap.rs\<close>. Provisioning a fleet over ssh: the steps for
  one host, the dry run, the loop over the hosts and the report. The pure helpers of the file are
  in theory \<open>Setup_Text\<close>.
\<close>

section \<open>Constants and data\<close>

definition REMOTE_BIN_DIR :: string where "REMOTE_BIN_DIR = ''.local/bin''"
definition REMOTE_RBS :: string where "REMOTE_RBS = ''.local/bin/rbs''"
definition REMOTE_KACHE :: string where "REMOTE_KACHE = ''.local/bin/kache''"
definition REMOTE_MINIO_ENV :: string where "REMOTE_MINIO_ENV = ''.config/rbs/minio.env''"
definition CONNECT_TIMEOUT_SECS :: nat where "CONNECT_TIMEOUT_SECS = 5"
definition REMOTE_PROFILE :: string where "REMOTE_PROFILE = ''.profile''"
definition REMOTE_BASH_PROFILE :: string where "REMOTE_BASH_PROFILE = ''.bash_profile''"
definition REMOTE_ZPROFILE :: string where "REMOTE_ZPROFILE = ''.zprofile''"
definition SHIM_MARKER_BEGIN :: string where "SHIM_MARKER_BEGIN = ''# >>> rbs shim >>>''"
definition SHIM_MARKER_END :: string where "SHIM_MARKER_END = ''# <<< rbs shim <<<''"
definition SHIM_EXPORT :: string where "SHIM_EXPORT = ''export PATH='' @ quoted ''$HOME/.local/share/rbs/shim:$PATH''"

definition STEPS :: "string list" where
  "STEPS = [''reach'', ''binaries'', ''secrets'', ''ssh-alias'', ''toolchain'', ''shim-path'', ''setup'', ''doctor'']"

text \<open>A word in single quotes, as the source writes it into its commands.\<close>

definition sq :: "string \<Rightarrow> string" where
  "sq s = [CHR 0x27] @ s @ [CHR 0x27]"

datatype bootstrap_error = NoHosts

record bootstrap_opts =
  bo_server :: "string option"
  bo_clients :: "string list"
  bo_dry_run :: bool
  bo_force :: bool
  bo_self_exe :: path
  bo_workspace :: path

datatype step_status = StepOk | StepSkipped | StepFailed

fun step_label :: "step_status \<Rightarrow> string" where
  "step_label StepOk = ''ok''"
| "step_label StepSkipped = ''skip''"
| "step_label StepFailed = ''FAIL''"

record boot_step =
  st_name :: string
  st_status :: step_status
  st_detail :: string

record host_report =
  hr_host :: string
  hr_role :: role
  hr_steps :: "boot_step list"
  hr_notes :: "string list"

definition host_report_new :: "string \<Rightarrow> role \<Rightarrow> host_report" where
  "host_report_new host role = \<lparr> hr_host = host, hr_role = role, hr_steps = [], hr_notes = [] \<rparr>"

definition host_ok :: "host_report \<Rightarrow> bool" where
  "host_ok r \<longleftrightarrow> list_all (\<lambda>s. st_status s \<noteq> StepFailed) (hr_steps r)"

definition host_status :: "host_report \<Rightarrow> string \<Rightarrow> step_status option" where
  "host_status r name = map_option st_status (find (\<lambda>s. st_name s = name) (hr_steps r))"

definition add_step :: "string \<Rightarrow> step_status \<Rightarrow> string \<Rightarrow> host_report \<Rightarrow> host_report" where
  "add_step name status detail r =
     r\<lparr>hr_steps := hr_steps r @ [\<lparr> st_name = name, st_status = status, st_detail = detail \<rparr>]\<rparr>"

definition add_note :: "string \<Rightarrow> host_report \<Rightarrow> host_report" where
  "add_note note r = r\<lparr>hr_notes := hr_notes r @ [note]\<rparr>"

record fleet =
  fl_paths :: paths
  fl_cfg :: config
  fl_opts :: bootstrap_opts
  fl_server :: string
  fl_toolchain :: "(string, string) result"

section \<open>Running\<close>

definition boot_exec :: "'io sys \<Rightarrow> string \<Rightarrow> string list \<Rightarrow> (cmd_output, string) act" where
  "boot_exec sys program args = act_map_err (show_runner_error (sy_show_io sys)) (run_cmd sys program args)"

definition run_ok :: "'io sys \<Rightarrow> string \<Rightarrow> string list \<Rightarrow> (string, string) act" where
  "run_ok sys program args =
     act_bind (boot_exec sys program args) (\<lambda>out.
       if output_success out then act_ret (ou_stdout out) else act_err (failure_detail out))"

definition login_exec :: "'io sys \<Rightarrow> string \<Rightarrow> string \<Rightarrow> (cmd_output, string) act" where
  "login_exec sys host cmd = boot_exec sys ''ssh'' (login_shell_args host cmd)"

definition login_run_ok :: "'io sys \<Rightarrow> string \<Rightarrow> string \<Rightarrow> (string, string) act" where
  "login_run_ok sys host cmd =
     act_bind (login_exec sys host cmd) (\<lambda>out.
       if output_success out then act_ret (ou_stdout out) else act_err (failure_detail out))"

definition kache_source :: "fleet \<Rightarrow> path" where
  "kache_source fl =
     (let configured = trim (bs_kache_bin (cfg_bootstrap (fl_cfg fl))); home = pt_home (fl_paths fl) in
      case strip_prefix ''~/'' configured of
        Some rest \<Rightarrow> path_join home rest
      | None \<Rightarrow> if configured = [] then path_join home REMOTE_KACHE else configured)"

section \<open>The steps for one host\<close>

definition step_reach :: "'io sys \<Rightarrow> string \<Rightarrow> host_report \<Rightarrow> (bool \<times> host_report, 'e) act" where
  "step_reach sys host rep =
     act_match (run_ok sys ''ssh'' [''-o'', ''BatchMode=yes'', ''-o'', ''ConnectTimeout='' @ show_nat CONNECT_TIMEOUT_SECS, host, ''true'']) (\<lambda>r.
       case r of
         Inr _ \<Rightarrow> act_ret (True, add_step ''reach'' StepOk ''reachable'' rep)
       | Inl e \<Rightarrow> act_ret (False,
           add_note (host @ '' is unreachable with BatchMode ssh; check `ssh '' @ host
                     @ '' true`, the host'' @ [CHR 0x27] @ ''s ssh alias and its authorized_keys'')
             (add_step ''reach'' StepFailed (''ssh '' @ host @ '': '' @ e) rep)))"

definition push_binary :: "'io sys \<Rightarrow> string \<Rightarrow> path \<Rightarrow> string \<Rightarrow> (unit, string) act" where
  "push_binary sys host src remote =
     (let staged = remote @ ''.new''; dest = host @ '':'' @ staged in
      act_bind (act_map_err (\<lambda>e. ''scp '' @ src @ '' '' @ dest @ '': '' @ e) (run_ok sys ''scp'' [src, dest])) (\<lambda>_.
      act_bind (act_map_err (\<lambda>e. ''mv '' @ staged @ '' '' @ remote @ '' on '' @ host @ '': '' @ e)
                 (run_ok sys ''ssh'' [host, ''mv'', ''-f'', staged, remote])) (\<lambda>_. act_ret ())))"

definition step_binaries :: "'io sys \<Rightarrow> fleet \<Rightarrow> string \<Rightarrow> host_report \<Rightarrow> (host_report, 'e) act" where
  "step_binaries sys fl host rep =
     act_match (run_ok sys ''ssh'' [host, ''mkdir'', ''-p'', REMOTE_BIN_DIR]) (\<lambda>r.
       case r of
         Inl e \<Rightarrow> act_ret (add_step ''binaries'' StepFailed (''mkdir -p '' @ REMOTE_BIN_DIR @ '': '' @ e) rep)
       | Inr _ \<Rightarrow>
           act_match (push_binary sys host (bo_self_exe (fl_opts fl)) REMOTE_RBS) (\<lambda>r.
             case r of
               Inl e \<Rightarrow> act_ret (add_step ''binaries'' StepFailed e rep)
             | Inr _ \<Rightarrow>
                 (let kache = kache_source fl in
                  act_bind (act_ask (\<lambda>h. sy_is_file sys h kache)) (\<lambda>there.
                    if \<not> there then
                      act_ret (add_step ''binaries'' StepOk ''rbs pushed; kache skipped (no local binary)''
                        (add_note (''no local kache binary at '' @ kache @ ''; nothing pushed to '' @ host @ '' '' @ EM_DASH
                           @ '' install kache there by hand (or set `[bootstrap] kache_bin`) if doctor reports it missing'') rep))
                    else
                      act_match (push_binary sys host kache REMOTE_KACHE) (\<lambda>r.
                        case r of
                          Inl e \<Rightarrow> act_ret (add_step ''binaries'' StepFailed e rep)
                        | Inr _ \<Rightarrow> act_ret (add_step ''binaries'' StepOk ''rbs + kache pushed'' rep))))))"

definition push_secrets :: "'io sys \<Rightarrow> string \<Rightarrow> path \<Rightarrow> (unit, string) act" where
  "push_secrets sys host src =
     act_bind (run_ok sys ''ssh'' [host, ''mkdir'', ''-p'', ''.config/rbs'']) (\<lambda>_.
     act_bind (run_ok sys ''scp'' [src, host @ '':'' @ REMOTE_MINIO_ENV]) (\<lambda>_.
     act_bind (run_ok sys ''ssh'' [host, ''chmod'', ''600'', REMOTE_MINIO_ENV]) (\<lambda>_. act_ret ())))"

definition step_secrets :: "'io sys \<Rightarrow> fleet \<Rightarrow> string \<Rightarrow> host_report \<Rightarrow> (host_report, 'e) act" where
  "step_secrets sys fl host rep =
     (let src = minio_env (fl_paths fl) in
      if \<not> bs_push_secrets (cfg_bootstrap (fl_cfg fl)) then
        act_match (run_ok sys ''ssh'' [host, ''test -f '' @ REMOTE_MINIO_ENV]) (\<lambda>r.
          if is_ok r then act_ret (add_step ''secrets'' StepSkipped ''present on host (push_secrets = false)'' rep)
          else act_ret (add_step ''secrets'' StepSkipped ''missing on host (push_secrets = false)''
                 (add_note (host @ '' has no '' @ REMOTE_MINIO_ENV @ ''; copy it yourself with `scp '' @ src @ '' '' @ host @ '':''
                    @ REMOTE_MINIO_ENV @ ''` or set `[bootstrap] push_secrets = true` '' @ EM_DASH
                    @ '' until then the kache step of setup on '' @ host @ '' fails'') rep)))
      else
        act_bind (act_ask (\<lambda>h. sy_is_file sys h src)) (\<lambda>there.
          if \<not> there then
            act_ret (add_step ''secrets'' StepSkipped ''no local minio.env''
              (add_note (''push_secrets is on but '' @ src @ '' does not exist locally; nothing copied to '' @ host) rep))
          else
            act_match (push_secrets sys host src) (\<lambda>r.
              case r of
                Inr _ \<Rightarrow> act_ret (add_step ''secrets'' StepOk ''minio.env copied, mode 600'' rep)
              | Inl e \<Rightarrow> act_ret (add_step ''secrets'' StepFailed e rep))))"

definition alias_append :: "string \<Rightarrow> string \<Rightarrow> string" where
  "alias_append server hostname =
     ''mkdir -p .ssh && chmod 700 .ssh && printf '' @ sq (''%s'' @ [CHR 0x5C] @ ''n'') @ '' '' @ sq (''Host '' @ server)
     @ '' '' @ sq (''  HostName '' @ hostname) @ '' '' @ sq ''  StrictHostKeyChecking accept-new'' @ '' >> .ssh/config''"

definition step_ssh_alias :: "'io sys \<Rightarrow> fleet \<Rightarrow> string \<Rightarrow> role \<Rightarrow> host_report \<Rightarrow> (host_report, 'e) act" where
  "step_ssh_alias sys fl host role rep =
     (let server = fl_server fl; local_config = path_join (pt_home (fl_paths fl)) ''.ssh/config'' in
      if role = ServerRole then act_ret (add_step ''ssh-alias'' StepSkipped ''not applicable (server)'' rep)
      else if server = [] then act_ret (add_step ''ssh-alias'' StepSkipped ''no server configured'' rep)
      else
        act_match (run_ok sys ''ssh'' [host, ''test -f .ssh/config && grep -q '' @ sq (''Host '' @ server) @ '' .ssh/config'']) (\<lambda>r.
          if is_ok r then
            act_ret (add_step ''ssh-alias'' StepSkipped (''`Host '' @ server @ ''` already in '' @ host @ '':.ssh/config'') rep)
          else
            act_match (fs_read sys local_config) (\<lambda>text.
              case Option.bind (result_ok text) (\<lambda>t. ssh_config_hostname t server) of
                None \<Rightarrow>
                  act_ret (add_step ''ssh-alias'' StepSkipped ''no local HostName to copy''
                    (add_note (''no HostName for `'' @ server @ ''` in '' @ local_config @ ''; add a `Host '' @ server
                       @ ''` block to '' @ host @ '':.ssh/config by hand so it can reach the server'') rep))
              | Some hostname \<Rightarrow>
                  act_match (run_ok sys ''ssh'' [host, alias_append server hostname]) (\<lambda>r.
                    case r of
                      Inr _ \<Rightarrow> act_ret (add_step ''ssh-alias'' StepOk (''appended `Host '' @ server @ ''` -> '' @ hostname) rep)
                    | Inl e \<Rightarrow> act_ret (add_step ''ssh-alias'' StepFailed e rep)))))"

definition step_toolchain :: "'io sys \<Rightarrow> fleet \<Rightarrow> string \<Rightarrow> host_report \<Rightarrow> (host_report, 'e) act" where
  "step_toolchain sys fl host rep =
     (case fl_toolchain fl of
        Inl note \<Rightarrow> act_ret (add_step ''toolchain'' StepSkipped ''channel unknown'' (add_note note rep))
      | Inr channel \<Rightarrow>
          act_match (login_run_ok sys host ''rustup toolchain list'') (\<lambda>r.
            case r of
              Inl e \<Rightarrow>
                act_ret (add_step ''toolchain'' StepSkipped ''rustup unavailable''
                  (add_note (''rustup is not usable on '' @ host @ '' ('' @ e @ ''); install it with `ssh '' @ host @ '' ''
                     @ quoted (''curl --proto '' @ sq ''=https'' @ '' --tlsv1.2 -sSf https://sh.rustup.rs | sh -s -- -y --profile minimal'')
                     @ ''`'') rep))
            | Inr list \<Rightarrow>
                if toolchain_installed list channel then
                  act_ret (add_step ''toolchain'' StepSkipped (channel @ '' already installed'') rep)
                else
                  let install = ''rustup toolchain install '' @ channel @ '' --profile minimal'' in
                  act_match (login_run_ok sys host install) (\<lambda>r.
                    case r of
                      Inr _ \<Rightarrow> act_ret (add_step ''toolchain'' StepOk (''installed '' @ channel) rep)
                    | Inl e \<Rightarrow> act_ret (add_step ''toolchain'' StepFailed (install @ '': '' @ e) rep))))"

definition shim_append :: "string \<Rightarrow> string" where
  "shim_append file =
     ''printf '' @ sq (''%s'' @ [CHR 0x5C] @ ''n'') @ '' '' @ sq SHIM_MARKER_BEGIN @ '' '' @ sq SHIM_EXPORT @ '' ''
     @ sq SHIM_MARKER_END @ '' >> '' @ file"

definition profile_file :: "'io sys \<Rightarrow> string \<Rightarrow> (string, 'e) act" where
  "profile_file sys host =
     act_match (run_ok sys ''ssh'' [host, ''basename '' @ quoted ''$SHELL'']) (\<lambda>r.
       let shell = (case r of Inr out \<Rightarrow> trim out | Inl _ \<Rightarrow> []) in
       if shell = ''zsh'' then act_ret REMOTE_ZPROFILE
       else act_match (run_ok sys ''ssh'' [host, ''test -f '' @ REMOTE_BASH_PROFILE]) (\<lambda>r.
              act_ret (if is_ok r then REMOTE_BASH_PROFILE else REMOTE_PROFILE)))"

definition step_shim_path :: "'io sys \<Rightarrow> fleet \<Rightarrow> string \<Rightarrow> host_report \<Rightarrow> (host_report, 'e) act" where
  "step_shim_path sys fl host rep =
     (if \<not> bs_shim_on_path (cfg_bootstrap (fl_cfg fl)) then
        act_ret (add_step ''shim-path'' StepSkipped ''shim_on_path = false (manual line in the note)''
          (add_note (host @ '' has the rbs shim but nothing puts it on PATH (`[bootstrap] shim_on_path = false`); add this line to its shell profile by hand or cargo there bypasses rbs: ''
             @ SHIM_EXPORT) rep))
      else
        act_bind (profile_file sys host) (\<lambda>file.
        act_match (run_ok sys ''ssh'' [host, ''grep -q '' @ sq SHIM_MARKER_BEGIN @ '' '' @ file]) (\<lambda>r.
          if is_ok r then act_ret (add_step ''shim-path'' StepOk (''already present in ~/'' @ file) rep)
          else
            act_match (run_ok sys ''ssh'' [host, shim_append file]) (\<lambda>r.
              case r of
                Inr _ \<Rightarrow> act_ret (add_step ''shim-path'' StepOk (''added to ~/'' @ file) rep)
              | Inl e \<Rightarrow> act_ret (add_step ''shim-path'' StepFailed (shim_append file @ '': '' @ e) rep)))))"

definition step_setup :: "'io sys \<Rightarrow> fleet \<Rightarrow> string \<Rightarrow> role \<Rightarrow> host_report \<Rightarrow> (host_report, 'e) act" where
  "step_setup sys fl host role rep =
     (let cmd = REMOTE_RBS @ '' setup --role '' @ role_name role @ (if bo_force (fl_opts fl) then '' --force'' else []) in
      act_match (login_exec sys host cmd) (\<lambda>r.
        case r of
          Inr out \<Rightarrow>
            if output_success out then act_ret (add_step ''setup'' StepOk (''rbs setup --role '' @ role_name role) rep)
            else act_ret (add_step ''setup'' StepFailed (failure_detail out) rep)
        | Inl e \<Rightarrow> act_ret (add_step ''setup'' StepFailed e rep)))"

definition step_doctor :: "'io sys \<Rightarrow> string \<Rightarrow> role \<Rightarrow> host_report \<Rightarrow> (host_report, 'e) act" where
  "step_doctor sys host role rep =
     (let cmd = REMOTE_RBS @ '' doctor'' @ (if role = Client then '' --remote'' else []) in
      act_match (login_exec sys host cmd) (\<lambda>r.
        case r of
          Inr out \<Rightarrow>
            if output_success out then act_ret (add_step ''doctor'' StepOk ''all checks passed'' rep)
            else
              let failed = doctor_failed_checks (ou_stdout out) in
              act_ret (add_step ''doctor'' StepFailed
                (if failed = [] then failure_detail out else ''failed checks: '' @ join '', '' failed) rep)
        | Inl e \<Rightarrow> act_ret (add_step ''doctor'' StepFailed e rep)))"

definition run_host :: "'io sys \<Rightarrow> fleet \<Rightarrow> string \<times> role \<Rightarrow> (host_report, 'e) act" where
  "run_host sys fl = (\<lambda>(host, role).
     act_bind (step_reach sys host (host_report_new host role)) (\<lambda>(reached, rep).
       if \<not> reached then act_ret rep
       else
         act_bind (step_binaries sys fl host rep) (\<lambda>rep.
         act_bind (step_secrets sys fl host rep) (\<lambda>rep.
         act_bind (step_ssh_alias sys fl host role rep) (\<lambda>rep.
         act_bind (step_toolchain sys fl host rep) (\<lambda>rep.
         act_bind (step_shim_path sys fl host rep) (\<lambda>rep.
         act_bind (step_setup sys fl host role rep) (\<lambda>rep.
         step_doctor sys host role rep))))))))"

section \<open>The dry run and the whole fleet\<close>

definition boot_plan :: "fleet \<Rightarrow> string \<Rightarrow> role \<Rightarrow> (string \<times> string) list" where
  "boot_plan fl host role =
     (let force = (if bo_force (fl_opts fl) then '' --force'' else []);
          remote = (if role = Client then '' --remote'' else []) in
      [(''reach'', ''ssh -o BatchMode=yes -o ConnectTimeout='' @ show_nat CONNECT_TIMEOUT_SECS @ '' '' @ host @ '' true''),
       (''binaries'', ''push '' @ bo_self_exe (fl_opts fl) @ '' -> '' @ host @ '':'' @ REMOTE_RBS @ '' and '' @ kache_source fl
          @ '' -> '' @ host @ '':'' @ REMOTE_KACHE @ '' (staged .new, then mv -f)''),
       (''secrets'',
          if bs_push_secrets (cfg_bootstrap (fl_cfg fl))
          then ''copy '' @ minio_env (fl_paths fl) @ '' -> '' @ host @ '':'' @ REMOTE_MINIO_ENV @ '' (mode 600)''
          else ''check '' @ host @ '':'' @ REMOTE_MINIO_ENV @ '' exists (push_secrets = false)''),
       (''ssh-alias'',
          if role = ServerRole then ''not applicable (server)''
          else ''ensure `Host '' @ fl_server fl @ ''` in '' @ host @ '':.ssh/config''),
       (''toolchain'',
          case fl_toolchain fl of
            Inr channel \<Rightarrow> ''ensure rustup toolchain '' @ channel @ '' on '' @ host
          | Inl note \<Rightarrow> ''skipped: '' @ note),
       (''shim-path'',
          if bs_shim_on_path (cfg_bootstrap (fl_cfg fl))
          then ''ensure the `'' @ SHIM_MARKER_BEGIN @ ''` block in '' @ host @ '':~/.bash_profile or ~/.profile''
          else ''not applicable (shim_on_path = false)''),
       (''setup'', ''ssh '' @ host @ '' bash -lc '' @ sq (REMOTE_RBS @ '' setup --role '' @ role_name role @ force)),
       (''doctor'', ''ssh '' @ host @ '' bash -lc '' @ sq (REMOTE_RBS @ '' doctor'' @ remote))])"

definition dry_host :: "fleet \<Rightarrow> string \<times> role \<Rightarrow> (host_report, 'e) act" where
  "dry_host fl = (\<lambda>(host, role).
     act_bind (act_print ([NL] @ host @ '' ('' @ role_name role @ ''):'' @ [NL])) (\<lambda>_.
     act_bind (act_for (boot_plan fl host role) (\<lambda>(name, action).
                 act_print (''  '' @ pad_right 9 name @ ''  '' @ action @ [NL]))) (\<lambda>_.
       act_ret (foldl (\<lambda>rep (name, action). add_step name StepSkipped action rep)
                  (host_report_new host role) (boot_plan fl host role)))))"

definition dry_run :: "fleet \<Rightarrow> (string \<times> role) list \<Rightarrow> (host_report list, 'e) act" where
  "dry_run fl hosts =
     act_bind (act_print (''dry run: nothing is executed'' @ [NL])) (\<lambda>_. act_for hosts (dry_host fl))"

definition resolve_channel :: "'io sys \<Rightarrow> config \<Rightarrow> bootstrap_opts \<Rightarrow> (string, string) act" where
  "resolve_channel sys cfg opts =
     (let configured = trim (bs_toolchain (cfg_bootstrap cfg)) in
      if configured \<noteq> [] then act_ret configured
      else
        act_bind (act_ask (\<lambda>h. find_pin_file (sy_is_file sys h) (bo_workspace opts))) (\<lambda>found.
          case found of
            None \<Rightarrow> act_err (''no rust-toolchain.toml at or above '' @ bo_workspace opts
                      @ ''; set `[bootstrap] toolchain` or run bootstrap from the workspace to pin the fleet''
                      @ [CHR 0x27] @ ''s toolchain'')
          | Some file \<Rightarrow>
              act_bind (act_map_err (\<lambda>e. ''cannot read '' @ file @ '': '' @ sy_show_io sys e) (fs_read sys file)) (\<lambda>text.
              act_lift (ok_or (file @ '' has no `[toolchain] channel`; set `[bootstrap] toolchain` instead'')
                (parse_toolchain_channel (sy_toolchain_toml sys) text)))))"

definition boot_hosts :: "config \<Rightarrow> bootstrap_opts \<Rightarrow> (string \<times> role) list" where
  "boot_hosts cfg opts =
     plan_hosts (trim (unwrap_or (bs_server (cfg_bootstrap cfg)) (bo_server opts)))
       (if bo_clients opts = [] then bs_clients (cfg_bootstrap cfg) else bo_clients opts)"

definition bootstrap_with ::
  "'io sys \<Rightarrow> paths \<Rightarrow> config \<Rightarrow> bootstrap_opts \<Rightarrow> (host_report list, bootstrap_error) act" where
  "bootstrap_with sys paths cfg opts =
     (let hosts = boot_hosts cfg opts in
      if hosts = [] then act_err NoHosts
      else
        act_match (resolve_channel sys cfg opts) (\<lambda>toolchain.
          let fl = \<lparr> fl_paths = paths, fl_cfg = cfg, fl_opts = opts,
                     fl_server = trim (unwrap_or (bs_server (cfg_bootstrap cfg)) (bo_server opts)),
                     fl_toolchain = toolchain \<rparr> in
          if bo_dry_run opts then dry_run fl hosts else act_for hosts (run_host sys fl)))"

definition fleet_ok :: "host_report list \<Rightarrow> bool" where
  "fleet_ok hosts = list_all host_ok hosts"

definition report_row :: "nat \<Rightarrow> string \<Rightarrow> string \<Rightarrow> (string \<Rightarrow> string) \<Rightarrow> string" where
  "report_row host_w host role cell =
     trim_end (pad_right host_w host @ ''  '' @ pad_right 6 role
               @ concat (map (\<lambda>step. ''  '' @ pad_right (length step) (cell step)) STEPS)) @ [NL]"

definition render_report :: "host_report list \<Rightarrow> string" where
  "render_report hosts =
     (let host_w = Max (set (map (length \<circ> hr_host) hosts @ [length ''HOST'']));
          rows = map (\<lambda>h. report_row host_w (hr_host h) (role_name (hr_role h))
                      (\<lambda>step. case host_status h step of None \<Rightarrow> ''-'' | Some s \<Rightarrow> step_label s)) hosts;
          failures = concat (map (\<lambda>h. map (\<lambda>s. ''  '' @ hr_host h @ '' '' @ st_name s @ '': '' @ trim (st_detail s))
                       (filter (\<lambda>s. st_status s = StepFailed) (hr_steps h))) hosts);
          notes = concat (map (\<lambda>h. map (\<lambda>n. ''  '' @ hr_host h @ '': '' @ n) (hr_notes h)) hosts);
          failed = length (filter (\<lambda>h. \<not> host_ok h) hosts)
      in report_row host_w ''HOST'' ''ROLE'' (\<lambda>step. step) @ concat rows
         @ (if failures \<noteq> [] then [NL] @ ''failures:'' @ [NL] @ join [NL] failures @ [NL] else [])
         @ (if notes \<noteq> [] then [NL] @ ''notes:'' @ [NL] @ join [NL] notes @ [NL] else [])
         @ [NL] @ show_nat (length hosts) @ '' hosts: '' @ show_nat (length hosts - failed) @ '' ok, '' @ show_nat failed @ '' failed'' @ [NL])"

section \<open>What a run copies and reports\<close>

lemma boot_exec_emits: "P (Ran None program args) \<Longrightarrow> emits P (boot_exec sys program args)"
  unfolding boot_exec_def by (auto intro!: emits_rules)

lemma run_ok_emits: "P (Ran None program args) \<Longrightarrow> emits P (run_ok sys program args)"
  unfolding run_ok_def by (auto intro!: emits_rules boot_exec_emits)

lemma login_emits:
  "P (Ran None ''ssh'' (login_shell_args host cmd)) \<Longrightarrow> emits P (login_exec sys host cmd)"
  "P (Ran None ''ssh'' (login_shell_args host cmd)) \<Longrightarrow> emits P (login_run_ok sys host cmd)"
  unfolding login_exec_def login_run_ok_def by (auto intro!: emits_rules boot_exec_emits)

text \<open>
  The effects a fleet run may have: ssh commands; copies of the two binaries, and of the
  credentials only when configured; reading the local ssh configuration. A dry run only prints.
\<close>

fun boot_effect :: "paths \<Rightarrow> config \<Rightarrow> bootstrap_opts \<Rightarrow> path \<Rightarrow> effect \<Rightarrow> bool" where
  "boot_effect paths cfg opts kache (Ran cwd prog args) \<longleftrightarrow>
     \<not> bo_dry_run opts \<and> (prog = ''ssh''
       \<or> (prog = ''scp'' \<and> (hd args = bo_self_exe opts \<or> hd args = kache
             \<or> (bs_push_secrets (cfg_bootstrap cfg) \<and> hd args = minio_env paths))))"
| "boot_effect paths cfg opts kache (ReadFile p) \<longleftrightarrow>
     p = path_join (pt_home paths) ''.ssh/config'' \<or> (\<exists>d. p = path_join d ''rust-toolchain.toml'')"
| "boot_effect paths cfg opts kache (Printed s) \<longleftrightarrow> bo_dry_run opts"
| "boot_effect paths cfg opts kache _ \<longleftrightarrow> False"

abbreviation fl_effect :: "fleet \<Rightarrow> effect \<Rightarrow> bool" where
  "fl_effect fl \<equiv> boot_effect (fl_paths fl) (fl_cfg fl) (fl_opts fl) (kache_source fl)"

lemmas boot_emits = emits_rules run_ok_emits login_emits

lemma run_host_emits:
  assumes "\<not> bo_dry_run (fl_opts fl)"
  shows "emits (fl_effect fl) (run_host sys fl hr)"
proof -
  have push: "emits (fl_effect fl) (push_binary sys host src remote)"
    if "src = bo_self_exe (fl_opts fl) \<or> src = kache_source fl" for host src remote
    unfolding push_binary_def Let_def using that assms by (auto intro!: boot_emits)
  have "emits (fl_effect fl) (step_reach sys host rep)" for host rep
    unfolding step_reach_def using assms by (auto intro!: boot_emits)
  moreover have "emits (fl_effect fl) (step_binaries sys fl host rep)" for host rep
    unfolding step_binaries_def Let_def using assms by (auto intro!: boot_emits push)
  moreover have "emits (fl_effect fl) (step_secrets sys fl host rep)" for host rep
    unfolding step_secrets_def push_secrets_def Let_def using assms by (auto intro!: boot_emits)
  moreover have "emits (fl_effect fl) (step_ssh_alias sys fl host role rep)" for host role rep
    unfolding step_ssh_alias_def Let_def using assms by (auto intro!: boot_emits)
  moreover have "emits (fl_effect fl) (step_toolchain sys fl host rep)" for host rep
    unfolding step_toolchain_def Let_def using assms by (auto intro!: boot_emits)
  moreover have "emits (fl_effect fl) (step_shim_path sys fl host rep)" for host rep
    unfolding step_shim_path_def profile_file_def Let_def using assms by (auto intro!: boot_emits)
  moreover have "emits (fl_effect fl) (step_setup sys fl host role rep)" for host role rep
    unfolding step_setup_def Let_def using assms by (auto intro!: boot_emits)
  moreover have "emits (fl_effect fl) (step_doctor sys host role rep)" for host role rep
    unfolding step_doctor_def Let_def using assms by (auto intro!: boot_emits)
  ultimately show ?thesis
    unfolding run_host_def by (cases hr) (auto intro!: emits_bind emits_split emits_pure)
qed

lemma dry_run_emits: "bo_dry_run (fl_opts fl) \<Longrightarrow> emits (fl_effect fl) (dry_run fl hosts)"
  unfolding dry_run_def dry_host_def by (auto intro!: emits_rules)

lemma resolve_channel_emits: "emits (boot_effect paths cfg opts kache) (resolve_channel sys cfg opts)"
proof -
  have "\<exists>d. p = path_join d ''rust-toolchain.toml''" if "find_pin_file f w = Some p" for f w p
    using that by (auto simp: find_pin_file_def find_Some_iff)
  then show ?thesis
    unfolding resolve_channel_def Let_def
    by (intro emits_split emits_pure emits_bind_ask) (auto intro!: emits_rules)
qed

text \<open>Each step reports under its own name, and keeps the host.\<close>

definition adds :: "string \<Rightarrow> host_report \<Rightarrow> host_report \<Rightarrow> bool" where
  "adds name rep rep' \<longleftrightarrow> hr_host rep' = hr_host rep \<and> hr_role rep' = hr_role rep
     \<and> map st_name (hr_steps rep') = map st_name (hr_steps rep) @ [name]"

lemma adds_step [simp]: "adds name rep (add_step name status detail rep)"
  "adds name rep (add_step name status detail (add_note note rep))"
  by (simp_all add: adds_def add_step_def add_note_def)

lemmas boot_value = hoare_any hoare_asked hoare_pure(1)

lemma steps_add:
  "hoare (\<lambda>_. True) (step_binaries sys fl host rep) (\<lambda>rep' _. adds ''binaries'' rep rep') (\<lambda>_. False)"
  "hoare (\<lambda>_. True) (step_secrets sys fl host rep) (\<lambda>rep' _. adds ''secrets'' rep rep') (\<lambda>_. False)"
  "hoare (\<lambda>_. True) (step_ssh_alias sys fl host role rep) (\<lambda>rep' _. adds ''ssh-alias'' rep rep') (\<lambda>_. False)"
  "hoare (\<lambda>_. True) (step_toolchain sys fl host rep) (\<lambda>rep' _. adds ''toolchain'' rep rep') (\<lambda>_. False)"
  "hoare (\<lambda>_. True) (step_setup sys fl host role rep) (\<lambda>rep' _. adds ''setup'' rep rep') (\<lambda>_. False)"
  "hoare (\<lambda>_. True) (step_doctor sys host role rep) (\<lambda>rep' _. adds ''doctor'' rep rep') (\<lambda>_. False)"
  unfolding step_binaries_def step_secrets_def step_ssh_alias_def step_toolchain_def step_setup_def step_doctor_def Let_def
  by (auto split: sum.splits option.splits intro!: boot_value)

lemma profile_file_value: "hoare (\<lambda>_. True) (profile_file sys host) (\<lambda>_ _. True) (\<lambda>_. False)"
  unfolding profile_file_def Let_def by (auto intro!: boot_value)

lemma step_shim_path_adds:
  "hoare (\<lambda>_. True) (step_shim_path sys fl host rep) (\<lambda>rep' _. adds ''shim-path'' rep rep') (\<lambda>_. False)"
  unfolding step_shim_path_def
  by (auto split: sum.splits intro!: boot_value hoare_value [OF profile_file_value])

text \<open>The report of one host: every step, or the failed first one alone.\<close>

definition complete_report :: "string \<times> role \<Rightarrow> host_report \<Rightarrow> bool" where
  "complete_report hr rep \<longleftrightarrow> (hr_host rep, hr_role rep) = hr
     \<and> (map st_name (hr_steps rep) = STEPS
        \<or> (map st_name (hr_steps rep) = [''reach''] \<and> map st_status (hr_steps rep) = [StepFailed]))"

definition reach_report :: "string \<Rightarrow> role \<Rightarrow> bool \<times> host_report \<Rightarrow> bool" where
  "reach_report host role x \<longleftrightarrow> hr_host (snd x) = host \<and> hr_role (snd x) = role
     \<and> map st_name (hr_steps (snd x)) = [''reach'']
     \<and> (fst x \<or> map st_status (hr_steps (snd x)) = [StepFailed])"

lemma step_reach_value:
  "hoare (\<lambda>_. True) (step_reach sys host (host_report_new host role))
     (\<lambda>x _. reach_report host role x) (\<lambda>_. False)"
  unfolding step_reach_def
  by (auto split: sum.splits intro!: boot_value simp: reach_report_def host_report_new_def add_step_def add_note_def)

lemma run_host_complete:
  "hoare (\<lambda>_. True) (run_host sys fl hr) (\<lambda>rep _. complete_report hr rep) (\<lambda>_. False)"
proof -
  obtain host role where hr: "hr = (host, role)" by (rule prod.exhaust)
  show ?thesis
    unfolding run_host_def hr prod.case
  proof (rule hoare_value [OF step_reach_value], goal_cases)
    case reach: (1 x)
    obtain b rep where x: "x = (b, rep)" by (rule prod.exhaust)
    show ?case
      unfolding x prod.case
    proof (rule hoare_if, goal_cases)
      case 1
      with reach x show ?case by (auto intro!: hoare_pure(1) simp: complete_report_def reach_report_def)
    next
      case 2
      have chain: "complete_report (host, role) r7"
        if "adds ''binaries'' rep r1" "adds ''secrets'' r1 r2" "adds ''ssh-alias'' r2 r3" "adds ''toolchain'' r3 r4"
          "adds ''shim-path'' r4 r5" "adds ''setup'' r5 r6" "adds ''doctor'' r6 r7" for r1 r2 r3 r4 r5 r6 r7
        using that reach x by (simp add: adds_def complete_report_def reach_report_def STEPS_def)
      show ?case
        by (rule hoare_value [OF steps_add(1)], rule hoare_value [OF steps_add(2)], rule hoare_value [OF steps_add(3)],
            rule hoare_value [OF steps_add(4)], rule hoare_value [OF step_shim_path_adds], rule hoare_value [OF steps_add(5)],
            rule hoare_conseq [OF steps_add(6)]) (auto intro: chain)
    qed
  qed
qed

lemma foldl_add_step:
  "map st_name (hr_steps (foldl (\<lambda>rep (name, action). add_step name StepSkipped action rep) rep xs))
     = map st_name (hr_steps rep) @ map fst xs
   \<and> hr_host (foldl (\<lambda>rep (name, action). add_step name StepSkipped action rep) rep xs) = hr_host rep
   \<and> hr_role (foldl (\<lambda>rep (name, action). add_step name StepSkipped action rep) rep xs) = hr_role rep"
  by (induction xs arbitrary: rep) (auto simp: add_step_def)

lemma hoare_print: "(\<And>x. hoare (\<lambda>_. True) (f x) R E) \<Longrightarrow> hoare (\<lambda>_. True) (act_bind (act_print s) f) R E"
  by (rule hoare_bind [where Q = "\<lambda>_ _. True"]) (auto simp: hoare_def act_print_def)

lemma dry_host_complete:
  "hoare (\<lambda>_. True) (dry_host fl hr) (\<lambda>rep _. complete_report hr rep) (\<lambda>_. False)"
proof -
  obtain host role where hr: "hr = (host, role)" by (rule prod.exhaust)
  have "map fst (boot_plan fl host role) = STEPS" by (simp add: boot_plan_def STEPS_def Let_def)
  then have fin: "complete_report hr (foldl (\<lambda>rep (name, action). add_step name StepSkipped action rep)
      (host_report_new host role) (boot_plan fl host role))"
    by (simp add: complete_report_def foldl_add_step host_report_new_def hr)
  have printing: "hoare (\<lambda>_. True) (act_for (boot_plan fl host role) (\<lambda>(name, action). act_print (g name action)))
      (\<lambda>ys _. list_all2 (\<lambda>_ _. True) (boot_plan fl host role) ys) (\<lambda>_. False)" for g
    by (rule hoare_for) (auto simp: hoare_def act_print_def split: prod.splits)
  show ?thesis
    unfolding dry_host_def hr prod.case
    by (rule hoare_print, rule hoare_value [OF printing], rule hoare_pure(1)) (use fin hr in simp)
qed

lemma plan_clients_distinct: "fst ` set (plan_clients seen cs) \<inter> seen = {} \<and> distinct (map fst (plan_clients seen cs))"
  by (induction cs arbitrary: seen) (auto simp: Let_def)

lemma boot_hosts_distinct: "distinct (map fst (boot_hosts cfg opts))"
proof -
  have "distinct (map fst (plan_hosts s cs))" for s cs
    using plan_clients_distinct [of "{}" cs] plan_clients_distinct [of "{trim s}" cs]
    by (auto simp: plan_hosts_def Let_def)
  then show ?thesis by (simp add: boot_hosts_def)
qed

text \<open>
  C40. A fleet run visits every configured host once and reports on each, and secrets travel only
  when asked for. Whatever the hosts answer, \<open>bootstrap_with\<close> fails only for an empty fleet and
  otherwise gives one report per planned host, in order: all eight steps, or the failed first
  step alone for a host that cannot be reached. Everything it does is an ssh command, a copy of
  one of the two binaries, a read of the local ssh configuration or toolchain file, or a copy of
  the credentials, which happens only when \<open>push_secrets\<close> is set; a dry run executes nothing.
\<close>
theorem bootstrap_run:
  "distinct (map fst (boot_hosts cfg opts))
   \<and> (\<exists>r h fl. bootstrap_with sys paths cfg opts h0 = (r, h) \<and> fl_paths fl = paths \<and> fl_cfg fl = cfg
        \<and> since h0 (boot_effect paths cfg opts (kache_source fl)) h
        \<and> (if boot_hosts cfg opts = [] then r = Inl NoHosts
           else \<exists>reps. r = Inr reps \<and> list_all2 complete_report (boot_hosts cfg opts) reps))"
proof (intro conjI boot_hosts_distinct)
  let ?hosts = "boot_hosts cfg opts"
  obtain tc h1 where tc: "resolve_channel sys cfg opts h0 = (tc, h1)" by (rule prod.exhaust)
  define fl where "fl = \<lparr> fl_paths = paths, fl_cfg = cfg, fl_opts = opts,
    fl_server = trim (unwrap_or (bs_server (cfg_bootstrap cfg)) (bo_server opts)), fl_toolchain = tc \<rparr>"
  define go :: "(host_report list, bootstrap_error) act" where "go = (if bo_dry_run opts then dry_run fl ?hosts else act_for ?hosts (run_host sys fl))"
  have fl: "fl_paths fl = paths" "fl_cfg fl = cfg" "fl_opts fl = opts" by (simp_all add: fl_def)
  have e: "emits (boot_effect paths cfg opts (kache_source fl)) go"
  proof (cases "bo_dry_run opts")
    case True
    then show ?thesis using dry_run_emits [of fl ?hosts] by (simp add: go_def fl)
  next
    case False
    then have "emits (fl_effect fl) (run_host sys fl hr :: (host_report, bootstrap_error) act)" for hr
      by (intro run_host_emits) (simp add: fl)
    then show ?thesis using False by (auto simp: go_def fl intro!: emits_for)
  qed
  have "hoare (\<lambda>_. True) go (\<lambda>reps _. list_all2 complete_report ?hosts reps) (\<lambda>_. False)"
    unfolding go_def dry_run_def by (auto intro!: hoare_print hoare_for run_host_complete dry_host_complete)
  moreover obtain r h where go: "go h1 = (r, h)" by (rule prod.exhaust)
  ultimately have reps: "\<exists>reps. r = Inr reps \<and> list_all2 complete_report ?hosts reps"
    unfolding hoare_def by (cases r) fastforce+
  have s: "since h0 (boot_effect paths cfg opts (kache_source fl)) h"
    using emits_since [OF resolve_channel_emits tc] emits_since [OF e go] since_trans by blast
  show "\<exists>r h fl. bootstrap_with sys paths cfg opts h0 = (r, h) \<and> fl_paths fl = paths \<and> fl_cfg fl = cfg
        \<and> since h0 (boot_effect paths cfg opts (kache_source fl)) h
        \<and> (if ?hosts = [] then r = Inl NoHosts
           else \<exists>reps. r = Inr reps \<and> list_all2 complete_report ?hosts reps)"
  proof (cases "?hosts = []")
    case True
    then have "bootstrap_with sys paths cfg opts h0 = (Inl NoHosts, h0)" by (simp add: bootstrap_with_def act_err_def)
    with True fl show ?thesis by auto
  next
    case False
    then have "bootstrap_with sys paths cfg opts h0 = (r, h)"
      using go by (simp add: bootstrap_with_def act_match_def tc Let_def fl_def [symmetric]) (simp add: go_def split: if_splits)
    with False fl reps s show ?thesis by auto
  qed
qed

end
