(* ===== verification/Client.thy ===== *)
theory Client
  imports System
begin

text \<open>
  The client binary around the shim: \<open>main.rs\<close> of \<open>crates/rbs-client\<close> up to the subcommands of
  \<open>rbs\<close>, the two production transports of \<open>transport.rs\<close>, and \<open>rbs status\<close> (\<open>status.rs\<close>).

  The trait object \<open>RealHooks\<close> is \<open>real_hooks\<close>, an instance of the record \<open>hooks\<close> of the theory
  \<open>Shim\<close> built from the configuration. What the operating system answers is a \<open>client_world\<close>:
  the environment and the directories, the processes it runs, the sockets it opens (\<open>cl_dial k\<close>
  is the \<open>k\<close>-th attempt on a path) and the clock of the autostart loop. A result \<open>None\<close> is an
  autostart loop that does not end; under the clock law of the theory \<open>Transport\<close> there is none.
  A run that waits for a silent server for ever has its effects and no exit code.
\<close>

section \<open>The world of a client\<close>

record ('io, 'je) ssh_child =
  sc_stdin :: bool
  sc_stdout :: bool
  sc_link :: "('io, 'je) link"

record ('v, 'io, 'je) client_world =
  cl_cwd :: "(path, 'io) result"
  cl_exe :: "(path, 'io) result"
  cl_vars :: "(string \<times> string) list"
  cl_hostname :: string
  cl_pid :: u32
  cl_tty :: bool
  cl_parse_toml :: "string \<Rightarrow> ('v table, string) result"
  cl_deser :: "'v table \<Rightarrow> (config, string) result"
  cl_fs :: "path \<Rightarrow> 'io file_read"
  cl_is_file :: "path \<Rightarrow> bool"
  cl_is_exec :: "path \<Rightarrow> bool"
  cl_canonicalize :: "path \<Rightarrow> path option"
  cl_probe :: "'io exec"
  cl_run :: "'io exec_in"
  cl_exec_err :: "cargo_command \<Rightarrow> 'io option"
  cl_exit :: "cargo_command \<Rightarrow> i32"
  cl_ssh :: "string list \<Rightarrow> (('io, 'je) ssh_child, 'io) result"
  cl_ssh_slow :: bool
  cl_dial :: "nat \<Rightarrow> path \<Rightarrow> (('io, 'je) link, 'io) result"
  cl_dial_slow :: bool
  cl_mkdirs :: "path \<Rightarrow> 'io option"
  cl_spawn :: "self_command \<Rightarrow> 'io option"
  cl_clock :: "nat \<Rightarrow> nat"
  cl_io_other :: "string \<Rightarrow> 'io"
  cl_show_io :: "'io \<Rightarrow> string"
  cl_show_frame :: "'je frame_error \<Rightarrow> string"
  cl_show_duration :: "nat \<Rightarrow> string"
  cl_dbg :: "server_message \<Rightarrow> string"
  cl_show_f32 :: "f32 \<Rightarrow> string"

abbreviation cl_env :: "('v, 'io, 'je) client_world \<Rightarrow> (string \<rightharpoonup> string)" where
  "cl_env w \<equiv> map_of (cl_vars w)"

fun show_transport_error :: "('v, 'io, 'je) client_world \<Rightarrow> ('io, 'je) transport_error \<Rightarrow> string" where
  "show_transport_error w (TConnect target source) = ''connect to '' @ target @ '' failed: '' @ cl_show_io w source"
| "show_transport_error w (TIo e) = ''i/o error: '' @ cl_show_io w e"
| "show_transport_error w (TFrame e) = ''framing error: '' @ cl_show_frame w e"
| "show_transport_error w TClosed = ''connection closed by peer''"
| "show_transport_error w (TProtocol m) = ''server rejected protocol: '' @ m"
| "show_transport_error w (TUnexpected m) = ''unexpected message from server: '' @ m"
| "show_transport_error w (TTimeout d) = ''timed out after '' @ cl_show_duration w d"

fun show_sync_error :: "('io \<Rightarrow> string) \<Rightarrow> 'io sync_error \<Rightarrow> string" where
  "show_sync_error show_io (SySpawn program source) = ''failed to spawn `'' @ program @ ''`: '' @ show_io source"
| "show_sync_error show_io (SyFailed program st stderr) = ''`'' @ program @ ''` exited with '' @ st @ '': '' @ stderr"
| "show_sync_error show_io (SyNoWorkspace cwd reason) = ''could not locate workspace root from '' @ cwd @ '': '' @ reason"

definition load_config :: "('v, 'io, 'je) client_world \<Rightarrow> path \<Rightarrow> (config, 'io config_error) result" where
  "load_config w cwd = load (cl_parse_toml w) (cl_deser w) (cl_fs w) (cl_is_file w) (cl_env w) cwd"

section \<open>The transports (\<open>transport.rs\<close>, \<open>local.rs\<close>)\<close>

definition unix_connect ::
  "('v, 'io, 'je) client_world \<Rightarrow> nat \<Rightarrow> path \<Rightarrow> (('io, 'je) link, ('io, 'je) transport_error) result" where
  "unix_connect w k p = map_err (TConnect p) (cl_dial w k p)"

definition unix_endpoint :: "('v, 'io, 'je) client_world \<Rightarrow> path \<Rightarrow> ('io, 'je) endpoint" where
  "unix_endpoint w p =
     \<lparr> ep_describe = p, ep_connect = unix_connect w 0 p, ep_connect_elapsed = cl_dial_slow w \<rparr>"

definition ssh_connect ::
  "('v, 'io, 'je) client_world \<Rightarrow> ssh_transport \<Rightarrow> (('io, 'je) link, ('io, 'je) transport_error) result" where
  "ssh_connect w t =
     and_then (map_err (TConnect (sh_host t)) (cl_ssh w (ssh_argv t))) (\<lambda>child.
       if \<not> sc_stdin child then Err (TConnect (sh_host t) (cl_io_other w ''ssh stdin not piped''))
       else if \<not> sc_stdout child then Err (TConnect (sh_host t) (cl_io_other w ''ssh stdout not piped''))
       else Ok (sc_link child))"

definition ssh_endpoint :: "('v, 'io, 'je) client_world \<Rightarrow> ssh_transport \<Rightarrow> ('io, 'je) endpoint" where
  "ssh_endpoint w t =
     \<lparr> ep_describe = sh_host t, ep_connect = ssh_connect w t, ep_connect_elapsed = cl_ssh_slow w \<rparr>"

definition local_endpoint :: "('v, 'io, 'je) client_world \<Rightarrow> local_transport \<Rightarrow> ('io, 'je) endpoint option" where
  "local_endpoint w t =
     map_option (\<lambda>r. \<lparr> ep_describe = lt_socket t, ep_connect = r, ep_connect_elapsed = False \<rparr>)
       (local_connect (cl_mkdirs w) (cl_spawn w) (unix_connect w 0 (lt_socket t))
          (\<lambda>k. unix_connect w (Suc k) (lt_socket t)) (cl_clock w) t)"

section \<open>Production hooks (\<open>main.rs\<close>)\<close>

definition ssh_of :: "config \<Rightarrow> ssh_transport" where
  "ssh_of cfg =
     \<lparr> sh_host = rm_host (cfg_remote cfg), sh_connect_timeout_ms = rm_connect_timeout_ms (cfg_remote cfg),
       sh_remote_bin = rm_remote_bin (cfg_remote cfg) \<rparr>"

definition local_of :: "config \<Rightarrow> path \<Rightarrow> local_transport" where
  "local_of cfg exe =
     \<lparr> lt_socket = ls_socket (cfg_local_server cfg), lt_autostart = ls_autostart (cfg_local_server cfg), lt_exe = exe \<rparr>"

text \<open>
  \<open>exec_local\<close>: the command that replaces this process, if one does; then its exit code is this
  process's own.
\<close>

definition local_command :: "('v, 'io, 'je) client_world \<Rightarrow> string list \<Rightarrow> cargo_command option" where
  "local_command w argv =
     (case argv of
        [] \<Rightarrow> None
      | program # args \<Rightarrow>
          (if program = ''cargo''
           then result_ok (exec_real_cargo (cl_is_exec w) (cl_canonicalize w) (cl_exec_err w) (cl_env w)
                             (result_ok (cl_exe w)) args)
           else let cmd = \<lparr> cc_program = program, cc_args = args, cc_env = (cl_env w)(SHIM_ACTIVE_ENV \<mapsto> ''1'') \<rparr>
                in (case cl_exec_err w cmd of Some e \<Rightarrow> None | None \<Rightarrow> Some cmd)))"

definition exec_local :: "('v, 'io, 'je) client_world \<Rightarrow> string list \<Rightarrow> i32" where
  "exec_local w argv = (case local_command w argv of Some cmd \<Rightarrow> cl_exit w cmd | None \<Rightarrow> 1)"

text \<open>What the effect \<open>ETouch dir\<close> starts, detached.\<close>

definition spawn_touch_command :: "path \<Rightarrow> path \<Rightarrow> self_command" where
  "spawn_touch_command exe dir = (self_spawn_command exe)\<lparr>se_args := [''store-touch'', ''--workspace'', dir]\<rparr>"

definition real_hooks :: "('v, 'io, 'je) client_world \<Rightarrow> config \<Rightarrow> path \<Rightarrow> ('io, 'je) hooks option" where
  "real_hooks w cfg exe =
     (let mk = (\<lambda>loc. \<lparr> hk_remote = Some (ssh_endpoint w (ssh_of cfg)), hk_local = loc,
                  hk_fingerprint = fingerprint_with_path (cl_probe w),
                  hk_workspace_root = workspace_root (cl_run w) (show_sync_error (cl_show_io w)),
                  hk_push = sync_push (cl_run w) (cfg_sync cfg), hk_pull = sync_pull (cl_run w),
                  hk_exec = exec_local w, hk_dbg = cl_dbg w, hk_show_error = show_transport_error w \<rparr>) in
      if ls_enabled (cfg_local_server cfg)
      then map_option (\<lambda>t. mk (Some t)) (local_endpoint w (local_of cfg exe))
      else Some (mk None))"

datatype 'io client_error =
    NoCwd 'io
  | LoadingConfig "'io config_error"
  | NoExe 'io
  | NoRealCargo "'io real_cargo_error"

type_synonym 'io client_run = "effect list \<times> (i32, 'io client_error) result option"

definition run_chain ::
  "('v, 'io, 'je) client_world \<Rightarrow> string list \<Rightarrow> mode option \<Rightarrow> bool \<Rightarrow> 'io client_run option" where
  "run_chain w argv m cargo_policy =
     (case cl_cwd w of
        Inl e \<Rightarrow> Some ([], Some (Err (NoCwd e)))
      | Inr cwd \<Rightarrow>
     (case load_config w cwd of
        Inl e \<Rightarrow> Some ([], Some (Err (LoadingConfig e)))
      | Inr cfg0 \<Rightarrow>
          (let cfg = (case m of Some md \<Rightarrow> cfg0\<lparr>cfg_policy := (cfg_policy cfg0)\<lparr>po_mode := md\<rparr>\<rparr> | None \<Rightarrow> cfg0) in
           case cl_exe w of
             Inl e \<Rightarrow> Some ([], Some (Err (NoExe e)))
           | Inr exe \<Rightarrow>
               map_option (\<lambda>h. map_prod id (map_option Ok) (shim_run h
                   (shim_input_from_env (cl_is_file w) (cl_vars w) (cl_hostname w) (cl_pid w) (cl_tty w) cwd argv cfg cargo_policy)))
                 (real_hooks w cfg exe))))"

definition shim_main :: "('v, 'io, 'je) client_world \<Rightarrow> string list \<Rightarrow> 'io client_run option" where
  "shim_main w args =
     (if shim_active (cl_env w) then
        Some ([EExec (''cargo'' # args)],
          Some (case exec_real_cargo (cl_is_exec w) (cl_canonicalize w) (cl_exec_err w) (cl_env w) (result_ok (cl_exe w)) args of
             Inr cmd \<Rightarrow> Ok (cl_exit w cmd)
           | Inl e \<Rightarrow> Err (NoRealCargo e)))
      else run_chain w (''cargo'' # args) None True)"

text \<open>The exit code of \<open>main\<close>; an error is logged and is code 1.\<close>

definition main_exit :: "(i32, 'e) result \<Rightarrow> i32" where
  "main_exit r = (case r of Inr code \<Rightarrow> code | Inl e \<Rightarrow> 1)"

section \<open>\<open>rbs status\<close> (\<open>status.rs\<close>)\<close>

text \<open>
  \<open>{:.1}\<close> of a 64-bit count divided by a power of two: the count is first rounded to the 53 bits
  of an \<open>f64\<close>, the division is exact, and the decimal is rounded to nearest, ties to even.
\<close>

definition round_half_even :: "nat \<Rightarrow> nat \<Rightarrow> nat" where
  "round_half_even a b =
     (let q = a div b; r = a mod b in if 2 * r < b \<or> 2 * r = b \<and> even q then q else Suc q)"

definition f64_of_u64 :: "u64 \<Rightarrow> nat" where
  "f64_of_u64 x =
     (let n = unat x; e = length (takeWhile (\<lambda>e. 2 ^ 53 \<le> n div 2 ^ e) [0..<12])
      in round_half_even n (2 ^ e) * 2 ^ e)"

definition show_tenths :: "nat \<Rightarrow> u64 \<Rightarrow> string" where
  "show_tenths unit_bits x =
     (let t = round_half_even (f64_of_u64 x * 10) (2 ^ unit_bits) in show_nat (t div 10) @ ''.'' @ show_nat (t mod 10))"

definition pad_left :: "nat \<Rightarrow> string \<Rightarrow> string" where
  "pad_left n s = replicate (n - length s) (CHR '' '') @ s"

record backend_line =
  bl_backend :: backend
  bl_target :: string
  bl_result :: "(probe_result, string) result"

definition format_line :: "(f32 \<Rightarrow> string) \<Rightarrow> backend_line \<Rightarrow> string" where
  "format_line show_f32 line =
     pad_right 7 (show_backend (bl_backend line)) @ '' '' @ pad_right 24 (bl_target line)
     @ (case bl_result line of
          Inr p \<Rightarrow>
            (let c = st_capacity (pr_status p) in
             '' ok  rtt '' @ pad_left 4 (show_nat (as_millis (pr_rtt p))) @ ''ms  tokens '' @ show_nat (unat (tokens_free c))
             @ ''/'' @ show_nat (unat (tokens_total c)) @ ''  mem '' @ show_tenths 30 (cap_mem_available_bytes c)
             @ ''GiB  load '' @ show_f32 (cap_load1 c) @ ''  queued '' @ show_nat (st_queued (pr_status p))
             @ ''  running '' @ show_nat (st_running (pr_status p)) @ ''  ''
             @ (if cap_accepting c then ''accepting'' else ''NOT accepting''))
        | Inl e \<Rightarrow> '' unavailable: '' @ e)"

definition probe_backend ::
  "('v, 'io, 'je) client_world \<Rightarrow> backend \<Rightarrow> ('io, 'je) endpoint \<Rightarrow> nat \<Rightarrow> backend_line" where
  "probe_backend w be t timeout =
     \<lparr> bl_backend = be, bl_target = ep_describe t,
       bl_result =
         (if ep_connect_elapsed t then Err (''connect timed out after '' @ cl_show_duration w timeout)
          else and_then (map_err (show_transport_error w) (ep_connect t)) (\<lambda>l.
                 map_err (show_transport_error w) (snd (snd (probe_with_timeout (cl_dbg w) timeout l))))) \<rparr>"

definition show_real_cargo_error :: "('io \<Rightarrow> string) \<Rightarrow> 'io real_cargo_error \<Rightarrow> string" where
  "show_real_cargo_error show_io e =
     (case e of
        RcNotFound shim_dir \<Rightarrow> ''could not find a real `cargo` on PATH (outside the shim directory '' @ shim_dir @ '')''
      | RcExec p source \<Rightarrow> ''exec '' @ p @ '' failed: '' @ show_io source)"

definition status_lines ::
  "('v, 'io, 'je) client_world \<Rightarrow> config \<Rightarrow> ('io, 'je) endpoint option \<Rightarrow> ('io, 'je) endpoint option \<Rightarrow> backend_line list" where
  "status_lines w cfg remote loc =
     (let timeout = from_millis (rm_connect_timeout_ms (cfg_remote cfg)) in
      [(case remote of
          Some t \<Rightarrow> if rm_enabled (cfg_remote cfg) then probe_backend w BRemote t timeout
                   else \<lparr> bl_backend = BRemote, bl_target = rm_host (cfg_remote cfg), bl_result = Err ''disabled'' \<rparr>
        | None \<Rightarrow> \<lparr> bl_backend = BRemote, bl_target = rm_host (cfg_remote cfg), bl_result = Err ''disabled'' \<rparr>),
       (case loc of
          Some t \<Rightarrow> if ls_enabled (cfg_local_server cfg) then probe_backend w BLocal t timeout
                   else \<lparr> bl_backend = BLocal, bl_target = ls_socket (cfg_local_server cfg), bl_result = Err ''disabled'' \<rparr>
        | None \<Rightarrow> \<lparr> bl_backend = BLocal, bl_target = ls_socket (cfg_local_server cfg), bl_result = Err ''disabled'' \<rparr>),
       \<lparr> bl_backend = BPlain, bl_target = ''real cargo'',
         bl_result = Err (case find_cargo (cl_is_exec w) (cl_canonicalize w) (cl_env w) (result_ok (cl_exe w)) of
                            Inr p \<Rightarrow> ''always available ('' @ p @ '')''
                          | Inl e \<Rightarrow> show_real_cargo_error (cl_show_io w) e) \<rparr>])"

definition status_run ::
  "('v, 'io, 'je) client_world \<Rightarrow> config \<Rightarrow> ('io, 'je) endpoint option \<Rightarrow> ('io, 'je) endpoint option \<Rightarrow> string list \<times> i32" where
  "status_run w cfg remote loc =
     (let ls = status_lines w cfg remote loc in
      (map (format_line (cl_show_f32 w)) ls, if list_ex (\<lambda>l. is_ok (bl_result l)) ls then 0 else 1))"

definition cmd_status :: "('v, 'io, 'je) client_world \<Rightarrow> string list \<times> (i32, 'io client_error) result" where
  "cmd_status w =
     (case cl_cwd w of
        Inl e \<Rightarrow> ([], Err (NoCwd e))
      | Inr cwd \<Rightarrow>
     (case load_config w cwd of
        Inl e \<Rightarrow> ([], Err (LoadingConfig e))
      | Inr cfg \<Rightarrow>
          (let r = status_run w cfg (Some (ssh_endpoint w (ssh_of cfg))) (Some (unix_endpoint w (ls_socket (cfg_local_server cfg))))
           in (fst r, Ok (snd r)))))"

section \<open>What an invocation starts\<close>

text \<open>
  A run starts the user's command, whose exit code is then its own, and submits the one request
  it was given.
\<close>

definition own_effects :: "('io, 'je) hooks \<Rightarrow> shim_input \<Rightarrow> job_request \<Rightarrow> ran \<Rightarrow> bool" where
  "own_effects h inp rq r \<longleftrightarrow>
     (\<forall>a. EExec a \<in> set (fst r) \<longrightarrow> a = in_argv inp \<and> snd r = Some (hk_exec h (in_argv inp)))
     \<and> (\<forall>be rq'. ESend be (CSubmit rq') \<in> set (fst r) \<longrightarrow> rq' = rq)"

lemma own_exec [simp]: "own_effects h inp rq (exec_effects h inp)"
  by (auto simp: own_effects_def exec_effects_def)

lemma own_prepend:
  assumes "own_effects h inp rq r"
    and "\<And>a. EExec a \<notin> set es" and "\<And>be rq'. ESend be (CSubmit rq') \<in> set es \<Longrightarrow> rq' = rq"
  shows "own_effects h inp rq (prepend es r)"
  using assms by (auto simp: own_effects_def)

lemma own_touch: "own_effects h inp rq r \<Longrightarrow> own_effects h inp rq (prepend (touch_effects inp d) r)"
  by (rule own_prepend) (auto simp: touch_effects_def split: if_splits)

lemma own_settle: "own_effects h inp rq r \<Longrightarrow> own_effects h inp rq (settle inp out r)"
  using own_prepend [of h inp rq r "[EStderr x]" for x]
  by (cases out) (auto simp: settle_def touch_effects_def own_effects_def)

lemma submit_own:
  assumes "submit h be rq sh l = (effs, out)"
  shows "EExec a \<notin> set effs" and "ESend b (CSubmit rq') \<in> set effs \<Longrightarrow> rq' = rq"
  using submit_effects [of h be rq sh l] assms by (force simp: list_all_iff)+

lemma try_backends_own: "conn_ok h conn \<Longrightarrow> own_effects h inp rq (try_backends h inp rq conn chain)"
proof (induction rule: try_backends_rule)
  case (none c)
  then show ?case by (simp add: own_effects_def)
next
  case (plain c)
  then show ?case by (simp add: own_touch)
next
  case (link l sh root effs out)
  then show ?case
    by (intro own_prepend) (auto simp: touch_effects_def dest: submit_own split: if_splits)
next
  case (remote l sh root effs out r)
  then show ?case by (intro own_prepend own_settle) (auto dest: submit_own)
next
  case (silent_hello c t l l1)
  then show ?case by (simp add: own_effects_def)
next
  case (local_job c t l l1 ident sh effs out r)
  then show ?case by (intro own_prepend own_settle) (auto dest: submit_own)
qed (auto intro!: own_prepend)

lemma shim_run_own: "\<exists>rq. own_effects h inp rq (shim_run h inp)"
proof (cases h inp rule: shim_run_cases)
  case (local_run d)
  have "own_effects h inp rq (prepend d (exec_effects h inp))" for rq
    using local_run(2)
    by (intro own_prepend [OF own_exec]) (auto simp: touch_effects_def split: if_splits)
  then show ?thesis unfolding local_run(1) by blast
next
  case no_fingerprint
  then show ?thesis by (simp add: own_effects_def)
next
  case (chain effs conn pr tc)
  have "own_effects h inp (request_of inp tc) (shim_run h inp)"
    unfolding chain(4)
    by (rule own_prepend [OF try_backends_own [OF probe_step_conn [OF chain(1)]]])
      (use probe_step_effects [OF chain(1)] in \<open>auto simp: list_all_iff\<close>)
  then show ?thesis by blast
qed

lemma real_hooks_exec: "real_hooks w cfg exe = Some h \<Longrightarrow> hk_exec h = exec_local w"
  by (auto simp: real_hooks_def Let_def split: if_splits)

lemma real_hooks_remote: "real_hooks w cfg exe = Some h \<Longrightarrow> hk_remote h = Some (ssh_endpoint w (ssh_of cfg)) \<and> hk_dbg h = cl_dbg w"
  by (auto simp: real_hooks_def Let_def split: if_splits)

lemma real_hooks_exist:
  assumes "clock_law (cl_clock w)"
  shows "real_hooks w cfg exe \<noteq> None"
proof -
  let ?t = "local_of cfg exe"
  obtain k where "retry_connect (\<lambda>k. unix_connect w (Suc k) (lt_socket ?t)) (cl_clock w) 0
      = Some (unix_connect w (Suc k) (lt_socket ?t))"
    by (rule retry_connect_returns [OF assms])
  then have "local_endpoint w ?t \<noteq> None"
    by (auto simp: local_endpoint_def local_connect_def split: sum.splits)
  then show ?thesis by (simp add: real_hooks_def Let_def)
qed

lemma local_command_guarded:
  assumes "local_command w (''cargo'' # args) = Some c"
  shows "shim_active (cc_env c)" and "cc_args c = args"
    and "not_shim (cl_canonicalize w) (self_dir (result_ok (cl_exe w))) (cc_program c)"
proof -
  have "exec_real_cargo (cl_is_exec w) (cl_canonicalize w) (cl_exec_err w) (cl_env w) (result_ok (cl_exe w)) args = Inr c"
    using assms by (auto simp: local_command_def elim: result_ok.elims)
  with exec_never_reenters_shim [where is_exec = "cl_is_exec w" and canon = "cl_canonicalize w" and exec_err = "cl_exec_err w"
      and env = "cl_env w" and exe = "result_ok (cl_exe w)" and args = args]
  show "shim_active (cc_env c)" and "cc_args c = args"
    and "not_shim (cl_canonicalize w) (self_dir (result_ok (cl_exe w))) (cc_program c)" by simp_all
qed

lemma exec_real_cargo_local:
  "exec_real_cargo (cl_is_exec w) (cl_canonicalize w) (cl_exec_err w) (cl_env w) (result_ok (cl_exe w)) args = r
   \<Longrightarrow> local_command w (''cargo'' # args) = result_ok r"
  by (simp add: local_command_def)

lemma run_chain_result:
  obtains e where "run_chain w argv m cp = Some ([], Some (Inl e))"
  | cwd cfg0 cfg exe inp where "load_config w cwd = Inr cfg0"
      "input_mode inp = (case m of Some md \<Rightarrow> md | None \<Rightarrow> po_mode (cfg_policy cfg0))" "in_argv inp = argv"
      "in_cargo_policy inp = cp" "in_override inp = toolchain_override_token argv"
      "run_chain w argv m cp = map_option (\<lambda>h. (fst (shim_run h inp), map_option Inr (snd (shim_run h inp)))) (real_hooks w cfg exe)"
proof (cases "cl_cwd w")
  case (Inl e)
  with that(1) show thesis by (simp add: run_chain_def)
next
  case cwd: (Inr cwd)
  show thesis
  proof (cases "load_config w cwd")
    case (Inl e)
    with cwd that(1) show thesis by (simp add: run_chain_def)
  next
    case cfg0: (Inr cfg0)
    define cfg where "cfg = (case m of Some md \<Rightarrow> cfg0\<lparr>cfg_policy := (cfg_policy cfg0)\<lparr>po_mode := md\<rparr>\<rparr> | None \<Rightarrow> cfg0)"
    define inp where "inp = shim_input_from_env (cl_is_file w) (cl_vars w) (cl_hostname w) (cl_pid w) (cl_tty w) cwd argv cfg cp"
    show thesis
    proof (cases "cl_exe w")
      case (Inl e)
      with cwd cfg0 that(1) show thesis by (simp add: run_chain_def)
    next
      case (Inr exe)
      show thesis
      proof (rule that(2) [OF cfg0])
        show "in_argv inp = argv" "in_cargo_policy inp = cp" "in_override inp = toolchain_override_token argv"
          by (simp_all add: inp_def shim_input_from_env_def)
        show "input_mode inp = (case m of Some md \<Rightarrow> md | None \<Rightarrow> po_mode (cfg_policy cfg0))"
          by (simp add: inp_def shim_input_from_env_def cfg_def split: option.split)
        show "run_chain w argv m cp
            = map_option (\<lambda>h. (fst (shim_run h inp), map_option Inr (snd (shim_run h inp)))) (real_hooks w cfg exe)"
          unfolding inp_def cfg_def using cwd cfg0 Inr
          by (simp add: run_chain_def Let_def map_prod_def case_prod_unfold)
      qed
    qed
  qed
qed

lemma run_chain_returns:
  assumes "clock_law (cl_clock w)"
  shows "\<exists>effs r. run_chain w argv m cp = Some (effs, r)"
  by (rule run_chain_result [of w argv m cp]) (use real_hooks_exist [OF assms] in auto)

lemma run_chain_own:
  fixes w :: "('v, 'io, 'je) client_world"
  assumes "run_chain w argv m cp = Some (effs, r)"
  shows "EExec a \<in> set effs \<Longrightarrow> a = argv \<and> map_option main_exit r = Some (exec_local w argv)"
    and "ESend be (CSubmit rq) \<in> set effs \<Longrightarrow> ESend be' (CSubmit rq') \<in> set effs \<Longrightarrow> rq' = rq"
proof -
  consider "effs = []" | h :: "('io, 'je) hooks" and inp rq0 where "own_effects h inp rq0 (effs, map_option main_exit r)" "in_argv inp = argv" "hk_exec h = exec_local w"
  proof (rule run_chain_result [of w argv m cp])
    fix cwd cfg0 cfg exe inp
    assume inp: "in_argv inp = argv"
      and "run_chain w argv m cp = map_option (\<lambda>h. (fst (shim_run h inp), map_option Inr (snd (shim_run h inp)))) (real_hooks w cfg exe)"
    with assms obtain h where h: "real_hooks w cfg exe = Some h" "effs = fst (shim_run h inp)" "r = map_option Inr (snd (shim_run h inp))"
      by auto
    obtain rq0 where "own_effects h inp rq0 (shim_run h inp)" using shim_run_own by blast
    moreover have "map_option main_exit r = snd (shim_run h inp)" by (simp add: h main_exit_def option.map_comp comp_def option.map_ident)
    ultimately have "own_effects h inp rq0 (effs, map_option main_exit r)" by (simp add: h(2))
    then show thesis using that(2) inp real_hooks_exec [OF h(1)] by blast
  qed (use assms that(1) in simp)
  note cases = this
  show "EExec a \<in> set effs \<Longrightarrow> a = argv \<and> map_option main_exit r = Some (exec_local w argv)"
    by (rule cases) (auto simp: own_effects_def)
  show "ESend be (CSubmit rq) \<in> set effs \<Longrightarrow> ESend be' (CSubmit rq') \<in> set effs \<Longrightarrow> rq' = rq"
    by (rule cases) (simp, metis own_effects_def fst_conv)
qed

lemma build_command_guarded: "build_command senv rn rq sc = Some c \<Longrightarrow> shim_active (cm_env c)"
  by (auto simp: build_command_def shim_active_def SHIM_ACTIVE_ENV_def)

section \<open>Which servers an invocation reaches\<close>

fun reaches :: "backend \<Rightarrow> effect \<Rightarrow> bool" where
  "reaches b (EConnect b') \<longleftrightarrow> b' = b"
| "reaches b (ESend b' m) \<longleftrightarrow> b' = b"
| "reaches b (EPush root host) \<longleftrightarrow> b = BRemote"
| "reaches b (EPull root) \<longleftrightarrow> b = BRemote"
| "reaches b _ \<longleftrightarrow> False"

fun mode_allows :: "mode \<Rightarrow> backend \<Rightarrow> bool" where
  "mode_allows Auto b \<longleftrightarrow> b \<noteq> BPlain"
| "mode_allows Remote b \<longleftrightarrow> b = BRemote"
| "mode_allows Local b \<longleftrightarrow> b = BLocal"
| "mode_allows Plain b \<longleftrightarrow> False"

text \<open>Every effect reaches only servers in the set.\<close>

definition within :: "backend set \<Rightarrow> effect list \<Rightarrow> bool" where
  "within bs es \<longleftrightarrow> (\<forall>e \<in> set es. \<forall>b. reaches b e \<longrightarrow> b \<in> bs)"

lemma within_simps [simp]:
  "within bs []" "within bs (e # es) \<longleftrightarrow> (\<forall>b. reaches b e \<longrightarrow> b \<in> bs) \<and> within bs es"
  "within bs (es @ es') \<longleftrightarrow> within bs es \<and> within bs es'"
  by (auto simp: within_def)

lemma within_mono: "within bs es \<Longrightarrow> bs \<subseteq> bs' \<Longrightarrow> within bs' es"
  by (auto simp: within_def)

lemma within_local [simp]: "within bs (touch_effects inp d)" "within bs (fst (exec_effects h inp))"
  by (simp_all add: touch_effects_def exec_effects_def)

lemma within_sends: "be \<in> bs \<Longrightarrow> within bs (map (ESend be) ms)"
  by (induction ms) auto

lemma within_settle: "within bs (fst r) \<Longrightarrow> within bs (fst (settle inp out r))"
  by (cases out) (auto simp: settle_def)

lemma within_submit:
  assumes "submit h be rq sh l = (effs, out)" and "be \<in> bs"
  shows "within bs effs"
proof -
  have "within bs es" if "list_all (job_effect be) es" for es
    using that assms(2) by (induction es) (auto elim!: job_effect.elims)
  with submit_effects [of h be rq sh l] assms show ?thesis by auto
qed

lemma try_backends_within: "within (set chain - {BPlain}) (fst (try_backends h inp rq conn chain))"
proof (induction chain arbitrary: conn)
  case (Cons b chain)
  have IH: "within (insert b (set chain) - {BPlain}) (fst (try_backends h inp rq c chain))" for c
    using Cons [of c] by (rule within_mono) auto
  show ?case
  proof (cases b)
    case BRemote
    then show ?thesis
      using IH by (auto simp: Let_def within_submit split: option.splits sum.splits prod.splits intro!: within_settle)
  next
    case BLocal
    then show ?thesis
      using IH by (auto simp: within_submit within_sends split: option.splits sum.splits prod.splits intro!: within_settle)
  qed simp
qed simp

lemma probe_step_within: "within (if m \<in> {Auto, Remote} then {BRemote} else {}) (fst (probe_step h inp))"
  if "m = input_mode inp"
proof (cases "m \<in> {Auto, Remote}")
  case True
  obtain effs conn pr where p: "probe_step h inp = (effs, conn, pr)" by (rule prod_cases3)
  show ?thesis using probe_step_effects [OF p] True p by (auto simp: within_def list_all_iff)
next
  case False
  then show ?thesis using that by (simp add: probe_step_def)
qed

lemma select_allowed: "b \<in> set (dc_chain (select m pr la cfg)) \<Longrightarrow> b = BPlain \<or> mode_allows m b"
  by (cases m) (auto simp: select_def consider_backend_def Let_def split: option.splits)

lemma shim_run_within: "within {b. mode_allows (input_mode inp) b} (fst (shim_run h inp))"
proof (cases h inp rule: shim_run_cases)
  case (local_run d)
  then show ?thesis by auto
next
  case no_fingerprint
  then show ?thesis by simp
next
  case (chain effs conn pr tc)
  have "within {b. mode_allows (input_mode inp) b} effs"
    using probe_step_within [OF refl, of inp h] chain(1) by (cases "input_mode inp") (auto elim: within_mono)
  moreover have "within {b. mode_allows (input_mode inp) b} (fst (try_backends h inp (request_of inp tc) conn
         (dc_chain (select (input_mode inp) pr (hk_local h \<noteq> None) (in_cfg inp)))))"
    using try_backends_within by (rule within_mono) (auto dest: select_allowed)
  ultimately show ?thesis unfolding chain(4) by simp
qed

lemma run_chain_within:
  assumes "run_chain w argv m cp = Some (effs, r)"
  shows "effs = [] \<or> (\<exists>cwd cfg. load_config w cwd = Inr cfg
           \<and> within {b. mode_allows (case m of Some md \<Rightarrow> md | None \<Rightarrow> po_mode (cfg_policy cfg)) b} effs)"
proof (rule run_chain_result [of w argv m cp])
  fix cwd cfg0 cfg exe inp
  assume l: "load_config w cwd = Inr cfg0"
    and i: "input_mode inp = (case m of Some md \<Rightarrow> md | None \<Rightarrow> po_mode (cfg_policy cfg0))"
    and "run_chain w argv m cp = map_option (\<lambda>h. (fst (shim_run h inp), map_option Inr (snd (shim_run h inp)))) (real_hooks w cfg exe)"
  with assms obtain h where "real_hooks w cfg exe = Some h" and "effs = fst (shim_run h inp)" by auto
  then show ?thesis using shim_run_within [of inp h] l unfolding i by blast
qed (use assms in simp)

section \<open>Properties\<close>

lemma shim_main_result:
  assumes "clock_law (cl_clock w)"
  obtains effs r where "shim_main w args = Some (effs, r)"
proof (cases "shim_active (cl_env w)")
  case False
  with run_chain_returns [OF assms, of "''cargo'' # args" None True] that show thesis by (auto simp: shim_main_def)
qed (use that in \<open>auto simp: shim_main_def\<close>)

lemma shim_main_guarded:
  "shim_main w args = Some (effs, r) \<Longrightarrow> shim_active (cl_env w) \<Longrightarrow> effs = [EExec (''cargo'' # args)]"
  by (simp add: shim_main_def)

lemma shim_main_exec:
  assumes "shim_main w args = Some (effs, r)" and "EExec a \<in> set effs"
  shows "a = ''cargo'' # args \<and> map_option main_exit r = Some (exec_local w (''cargo'' # args))"
proof (cases "shim_active (cl_env w)")
  case True
  with assms show ?thesis
    by (auto simp: shim_main_def exec_local_def main_exit_def exec_real_cargo_local split: sum.splits)
next
  case False
  with assms(1) have "run_chain w (''cargo'' # args) None True = Some (effs, r)" by (simp add: shim_main_def)
  then show ?thesis using assms(2) by (rule run_chain_own(1))
qed

lemma shim_main_submits_one:
  assumes "shim_main w args = Some (effs, r)" and "ESend be (CSubmit rq) \<in> set effs" and "ESend be' (CSubmit rq') \<in> set effs"
  shows "rq' = rq"
proof (cases "shim_active (cl_env w)")
  case True
  with shim_main_guarded [OF assms(1)] assms(2) show ?thesis by simp
next
  case False
  with assms(1) have "run_chain w (''cargo'' # args) None True = Some (effs, r)" by (simp add: shim_main_def)
  then show ?thesis using assms(2,3) by (rule run_chain_own(2))
qed

section \<open>The processes an invocation starts\<close>

text \<open>
  A child process as its program sees it: the name it is called by, its arguments and its
  environment. What each effect of a run can start: the fingerprint runs the compiler, \<open>cargo\<close> and
  \<open>rustup\<close>, all of them with the guard; the workspace root is asked of \<open>cargo\<close>, found on the
  path, with the client's own environment; and the others are as named in the code.
\<close>

record process =
  ps_argv0 :: string
  ps_args :: "string list"
  ps_env :: "string \<rightharpoonup> string"

definition SHIM_GUARD_ENV :: string where "SHIM_GUARD_ENV = ''RBS_SHIM_ACTIVE''"

definition LOCATE_PROJECT :: "string list" where
  "LOCATE_PROJECT = [''locate-project'', ''--workspace'', ''--message-format'', ''plain'']"

definition fingerprint_commands :: "string option \<Rightarrow> (string \<times> string list) list" where
  "fingerprint_commands ov =
     (let plus = map_option (\<lambda>t. ''+'' @ t) ov in
      [(''rustc'', args_with_override plus [''-vV'']), (''cargo'', args_with_override plus [''-V''])]
      @ (case ov of None \<Rightarrow> [(''rustup'', [''show'', ''active-toolchain''])] | Some t \<Rightarrow> []))"

definition self_process :: "(string \<rightharpoonup> string) \<Rightarrow> self_command \<Rightarrow> process" where
  "self_process env c = \<lparr> ps_argv0 = se_argv0 c, ps_args = se_args c, ps_env = env \<rparr>"

fun started_by :: "('v, 'io, 'je) client_world \<Rightarrow> config \<Rightarrow> path \<Rightarrow> effect \<Rightarrow> process list" where
  "started_by w cfg exe (EFingerprint cwd ov) =
     map (\<lambda>(prog, args). \<lparr> ps_argv0 = prog, ps_args = args,
            ps_env = (cl_env w)(''PATH'' \<mapsto> unwrap_or [] (cl_env w ''PATH''), SHIM_GUARD_ENV \<mapsto> ''1'') \<rparr>) (fingerprint_commands ov)"
| "started_by w cfg exe (EWorkspaceRoot cwd) = [\<lparr> ps_argv0 = ''cargo'', ps_args = LOCATE_PROJECT, ps_env = cl_env w \<rparr>]"
| "started_by w cfg exe (EPush root host) =
     [\<lparr> ps_argv0 = sy_rsync_path (cfg_sync cfg), ps_args = tl (rsync_argv (rsync_plan_new (cfg_sync cfg) root host)), ps_env = cl_env w \<rparr>]"
| "started_by w cfg exe (EPull root) = [\<lparr> ps_argv0 = ''kache'', ps_args = [''sync'', ''--pull''], ps_env = cl_env w \<rparr>]"
| "started_by w cfg exe (EConnect BRemote) =
     [\<lparr> ps_argv0 = ''ssh'', ps_args = tl (ssh_argv (ssh_of cfg)), ps_env = cl_env w \<rparr>]"
| "started_by w cfg exe (EConnect BLocal) = [self_process (cl_env w) (spawn_server_command (local_of cfg exe))]"
| "started_by w cfg exe (ETouch dir) = [self_process (cl_env w) (spawn_touch_command exe dir)]"
| "started_by w cfg exe (EExec argv) =
     (case local_command w argv of
        None \<Rightarrow> []
      | Some c \<Rightarrow> [\<lparr> ps_argv0 = cc_program c, ps_args = cc_args c, ps_env = cc_env c \<rparr>])"
| "started_by w cfg exe _ = []"

text \<open>The lists are complete: what the two probes return depends on these commands only.\<close>

lemma fingerprint_commands_complete:
  assumes "\<forall>(prog, args) \<in> set (fingerprint_commands ov). exec prog args cwd = exec' prog args cwd"
  shows "fingerprint_with_path exec cwd ov = fingerprint_with_path exec' cwd ov"
proof -
  have "run_with_path exec ''rustc'' [''-vV''] cwd ov = run_with_path exec' ''rustc'' [''-vV''] cwd ov"
    "run_with_path exec ''cargo'' [''-V''] cwd ov = run_with_path exec' ''cargo'' [''-V''] cwd ov"
    using assms by (simp_all add: fingerprint_commands_def run_with_path_def Let_def)
  moreover have "ov = None \<Longrightarrow> run_with_path exec ''rustup'' [''show'', ''active-toolchain''] cwd None
      = run_with_path exec' ''rustup'' [''show'', ''active-toolchain''] cwd None"
    using assms by (simp add: fingerprint_commands_def run_with_path_def args_with_override_def Let_def)
  ultimately show ?thesis by (cases ov) (simp_all add: fingerprint_with_path_def)
qed

lemma locate_project_complete:
  "exec ''cargo'' LOCATE_PROJECT (Some cwd) = exec' ''cargo'' LOCATE_PROJECT (Some cwd) \<Longrightarrow>
     workspace_root exec show_err cwd = workspace_root exec' show_err cwd"
  by (simp add: workspace_root_def run_captured_def LOCATE_PROJECT_def)

lemma invoked_names:
  "\<not> invoked_as_cargo (Some ''rustc'')" "\<not> invoked_as_cargo (Some ''rustup'')" "\<not> invoked_as_cargo (Some ''kache'')"
  "\<not> invoked_as_cargo (Some ''ssh'')" "\<not> invoked_as_cargo (Some SAFE_ARGV0)"
  by (simp_all add: safe_argv0_is_not_cargo invoked_as_cargo_def) code_simp+

text \<open>
  Every process that can be the shim again carries the guard, but for the one that asks for the
  workspace root.
\<close>

lemma started_by_guarded:
  assumes "p \<in> set (started_by w cfg exe e)" and "invoked_as_cargo (Some (ps_argv0 p))"
    and "\<not> invoked_as_cargo (Some (sy_rsync_path (cfg_sync cfg)))" and "\<And>a. e = EExec a \<Longrightarrow> a = ''cargo'' # args"
  shows "shim_active (ps_env p) \<or> (\<exists>cwd. e = EWorkspaceRoot cwd) \<and> ps_args p = LOCATE_PROJECT"
proof (cases "(w, cfg, exe, e)" rule: started_by.cases)
  case (8 w' cfg' exe' argv)
  then have "e = EExec argv" and "argv = ''cargo'' # args" using assms(4) by simp_all
  with assms(1) have "local_command w (''cargo'' # args) \<noteq> None" by (cases "local_command w (''cargo'' # args)") simp_all
  then obtain c where c: "local_command w (''cargo'' # args) = Some c" by blast
  then have "ps_env p = cc_env c"
    using assms(1) \<open>e = EExec argv\<close> \<open>argv = ''cargo'' # args\<close> by simp
  then show ?thesis using local_command_guarded(1) [OF c] by simp
qed (use assms(1-3) invoked_names in \<open>auto simp: fingerprint_commands_def SHIM_GUARD_ENV_def shim_active_def SHIM_ACTIVE_ENV_def
      self_process_def spawn_server_command_def spawn_touch_command_def self_spawn_command_def Let_def split: option.splits\<close>)

text \<open>
  The shim called for \<open>locate-project\<close>: it runs the real cargo, in every mode and whatever the
  configuration, or reports an error of its own set-up.
\<close>

lemma locate_project_passes:
  assumes "clock_law (cl_clock w)"
  shows "\<exists>effs r. shim_main w LOCATE_PROJECT = Some (effs, Some r) \<and> set effs \<subseteq> {EExec (''cargo'' # LOCATE_PROJECT)}"
proof (cases "shim_active (cl_env w)")
  case True
  then show ?thesis by (simp add: shim_main_def)
next
  case False
  let ?argv = "''cargo'' # LOCATE_PROJECT"
  show ?thesis
  proof (rule run_chain_result [of w ?argv None True])
    fix cwd cfg0 cfg exe inp
    assume inp: "in_argv inp = ?argv" "in_cargo_policy inp = True" "in_override inp = toolchain_override_token ?argv"
      and run: "run_chain w ?argv None True = map_option (\<lambda>h. (fst (shim_run h inp), map_option Inr (snd (shim_run h inp)))) (real_hooks w cfg exe)"
    obtain h where h: "real_hooks w cfg exe = Some h" using real_hooks_exist [OF assms] by blast
    have "in_override inp = None"
      unfolding inp(3) by (simp add: toolchain_override_token_def nth_opt_def LOCATE_PROJECT_def strip_prefix_def starts_with_def)
    then have sub: "subcommand inp = Some ''locate-project''"
      by (simp add: subcommand_def nth_opt_def inp(1) LOCATE_PROJECT_def)
    then have stay: "stays_local inp"
      using inp(2) by (simp add: stays_local_def is_passthrough_def PASSTHROUGH_SUBCOMMANDS_def)
    have "touch_effects inp d = []" for d
      by (simp add: touch_effects_def wants_touch_def sub COMPILING_SUBCOMMANDS_def)
    with local_invocations [OF stay, of h] inp(1) have "shim_run h inp = ([EExec ?argv], Some (hk_exec h ?argv))" by simp
    then show ?thesis using run h False by (simp add: shim_main_def)
  qed (use False in \<open>simp add: shim_main_def\<close>)
qed

section \<open>Waiting\<close>

lemma settle_waits: "snd (settle inp out r) = None \<Longrightarrow> out = OSilent \<or> snd r = None"
  by (cases out) (auto simp: settle_def split: if_splits)

lemma try_backends_waits:
  "conn_ok h conn \<Longrightarrow> snd (try_backends h inp rq conn chain) = None \<longrightarrow> kept_waiting h"
proof (induction rule: try_backends_rule)
  case (remote l sh root effs out r)
  then show ?case by (auto dest!: settle_waits intro: waiting_remote)
next
  case (silent_hello c t l l1)
  then show ?case using hello_silent [OF silent_hello(3)] by (auto simp: kept_waiting_def)
next
  case (local_job c t l l1 ident sh effs out r)
  then show ?case by (auto dest!: settle_waits intro: waiting_local)
qed (auto simp: exec_effects_def)

lemma shim_run_waits: "snd (shim_run h inp) = None \<Longrightarrow> kept_waiting h"
proof (cases h inp rule: shim_run_cases)
  case (chain effs conn pr tc)
  then show "snd (shim_run h inp) = None \<Longrightarrow> kept_waiting h"
    using try_backends_waits [OF probe_step_conn [OF chain(1)]] by simp
qed (simp_all add: exec_effects_def)

text \<open>The servers a client reaches, by ssh or by a socket.\<close>

definition peer_of :: "('v, 'io, 'je) client_world \<Rightarrow> ('io, 'je) link \<Rightarrow> bool" where
  "peer_of w l \<longleftrightarrow> (\<exists>argv child. cl_ssh w argv = Inr child \<and> l = sc_link child) \<or> (\<exists>k p. cl_dial w k p = Inr l)"

lemma unix_connect_peer: "unix_connect w k p = Inr l \<Longrightarrow> peer_of w l"
  by (auto simp: unix_connect_def peer_of_def elim!: map_err.elims)

lemma ssh_connect_peer: "ssh_connect w t = Inr l \<Longrightarrow> peer_of w l"
  by (cases "cl_ssh w (ssh_argv t)") (auto simp: ssh_connect_def peer_of_def split: if_splits)

lemma local_connect_result:
  assumes "clock_law now" and "local_connect mk sp first attempt now t = Some (Inr l)"
  shows "first = Inr l \<or> (\<exists>k. attempt k = Inr l)"
proof -
  obtain k where "retry_connect attempt now 0 = Some (attempt k)" by (rule retry_connect_returns [OF assms(1)])
  with assms(2) show ?thesis by (auto simp: local_connect_def split: if_splits sum.splits)
qed

lemma real_hooks_peers:
  assumes "clock_law (cl_clock w)" and "real_hooks w cfg exe = Some h" and "kept_waiting h"
  shows "\<exists>l. peer_of w l \<and> leaves_open l"
proof -
  obtain t l where t: "hk_remote h = Some t \<or> hk_local h = Some t" and l: "ep_connect t = Inr l" and o: "leaves_open l"
    using assms(3) by (auto simp: kept_waiting_def)
  have "peer_of w l"
    using t
  proof
    assume "hk_remote h = Some t"
    then show ?thesis using real_hooks_remote [OF assms(2)] l ssh_connect_peer by (auto simp: ssh_endpoint_def)
  next
    assume "hk_local h = Some t"
    then have "local_endpoint w (local_of cfg exe) = Some t"
      using assms(2) by (auto simp: real_hooks_def Let_def split: if_splits)
    then have "local_connect (cl_mkdirs w) (cl_spawn w) (unix_connect w 0 (lt_socket (local_of cfg exe)))
          (\<lambda>k. unix_connect w (Suc k) (lt_socket (local_of cfg exe))) (cl_clock w) (local_of cfg exe) = Some (Inr l)"
      using l by (auto simp: local_endpoint_def)
    from local_connect_result [OF assms(1) this] show ?thesis using unix_connect_peer by blast
  qed
  with o show ?thesis by blast
qed

lemma shim_main_waits:
  assumes "clock_law (cl_clock w)" and "shim_main w args = Some (effs, None)"
  shows "\<exists>l. peer_of w l \<and> leaves_open l"
proof -
  have waits: "run_chain w (''cargo'' # args) None True = Some (effs, None)"
    using assms(2) by (auto simp: shim_main_def split: if_splits)
  show ?thesis
  proof (rule run_chain_result [of w "''cargo'' # args" None True])
    fix cwd cfg0 cfg exe inp
    assume "run_chain w (''cargo'' # args) None True = map_option (\<lambda>h. (fst (shim_run h inp), map_option Inr (snd (shim_run h inp)))) (real_hooks w cfg exe)"
    with waits obtain h where h: "real_hooks w cfg exe = Some h" and s: "snd (shim_run h inp) = None" by auto
    show ?thesis by (rule real_hooks_peers [OF assms(1) h shim_run_waits [OF s]])
  qed (use waits in simp)
qed

text \<open>
  C27. An invocation of the shim does not run in circles, and ends unless a server keeps it
  waiting. As long as the clock advances with the sleeps of the autostart loop,
  \<open>cargo <args>\<close> ends with an exit code or an error, or it waits for ever for a server it has
  reached that leaves the connection open and sends nothing that ends the submission. Under the
  guard variable it does one thing, it runs the real cargo. Otherwise the only command it runs
  here is \<open>cargo <args>\<close>, whose exit code becomes its own; the program that runs is the real
  cargo, not the binary's own directory, and carries the guard. Of all processes it starts (and
  the configured rsync is not itself called \<open>cargo\<close>), one that is called by the shim's name
  carries the guard too, or is the unguarded \<open>cargo locate-project\<close> that asks for the workspace
  root; and the shim called for that, by this or by any other process, does nothing but run the
  real cargo, and ends. At most one request is ever submitted (to the remote and then, when
  that fails, to the local server), and whichever server runs it, in whatever scope, its job
  carries the guard too.
\<close>
theorem shim_reentry_bounded:
  fixes w :: "('v, 'io, 'je) client_world"
  assumes "clock_law (cl_clock w)"
    and "\<forall>cwd cfg. load_config w cwd = Inr cfg \<longrightarrow> \<not> invoked_as_cargo (Some (sy_rsync_path (cfg_sync cfg)))"
  shows "\<exists>effs r. shim_main w args = Some (effs, r)
    \<and> (r = None \<longrightarrow> (\<exists>l. peer_of w l \<and> leaves_open l))
    \<and> (shim_active (cl_env w) \<longrightarrow> effs = [EExec (''cargo'' # args)])
    \<and> (\<forall>a. EExec a \<in> set effs \<longrightarrow> a = ''cargo'' # args
           \<and> map_option main_exit r = Some (case local_command w a of Some c \<Rightarrow> cl_exit w c | None \<Rightarrow> 1))
    \<and> (\<forall>c. local_command w (''cargo'' # args) = Some c \<longrightarrow> cc_args c = args \<and> shim_active (cc_env c)
           \<and> not_shim (cl_canonicalize w) (self_dir (result_ok (cl_exe w))) (cc_program c))
    \<and> (\<forall>cwd cfg exe e p. load_config w cwd = Inr cfg \<longrightarrow> e \<in> set effs \<longrightarrow> p \<in> set (started_by w cfg exe e)
           \<longrightarrow> invoked_as_cargo (Some (ps_argv0 p))
           \<longrightarrow> shim_active (ps_env p) \<or> (\<exists>d. e = EWorkspaceRoot d) \<and> ps_args p = LOCATE_PROJECT)
    \<and> (\<forall>w' :: ('v, 'io, 'je) client_world. clock_law (cl_clock w') \<longrightarrow>
         (\<exists>effs' r'. shim_main w' LOCATE_PROJECT = Some (effs', Some r') \<and> set effs' \<subseteq> {EExec (''cargo'' # LOCATE_PROJECT)}))
    \<and> (\<forall>be rq be' rq'. ESend be (CSubmit rq) \<in> set effs \<longrightarrow> ESend be' (CSubmit rq') \<in> set effs \<longrightarrow> rq' = rq)
    \<and> (\<forall>be rq senv rn sc c. ESend be (CSubmit rq) \<in> set effs \<longrightarrow> build_command senv rn rq sc = Some c \<longrightarrow> shim_active (cm_env c))"
proof -
  obtain effs r where run: "shim_main w args = Some (effs, r)" by (rule shim_main_result [OF assms(1)])
  show ?thesis
  proof (rule exI [of _ effs], rule exI [of _ r], intro conjI allI impI)
    assume "r = None"
    then show "\<exists>l. peer_of w l \<and> leaves_open l" using shim_main_waits [OF assms(1)] run by blast
  next
    fix a assume "EExec a \<in> set effs"
    from shim_main_exec [OF run this] show "a = ''cargo'' # args"
      and "map_option main_exit r = Some (case local_command w a of Some c \<Rightarrow> cl_exit w c | None \<Rightarrow> 1)"
      by (simp_all add: exec_local_def)
  next
    fix c assume "local_command w (''cargo'' # args) = Some c"
    from local_command_guarded [OF this] show "cc_args c = args" and "shim_active (cc_env c)"
      and "not_shim (cl_canonicalize w) (self_dir (result_ok (cl_exe w))) (cc_program c)" by simp_all
  next
    fix cwd cfg exe e p
    assume "load_config w cwd = Inr cfg" "e \<in> set effs" "p \<in> set (started_by w cfg exe e)" "invoked_as_cargo (Some (ps_argv0 p))"
    then show "shim_active (ps_env p) \<or> (\<exists>d. e = EWorkspaceRoot d) \<and> ps_args p = LOCATE_PROJECT"
      using assms(2) shim_main_exec [OF run] by (intro started_by_guarded) auto
  next
    fix w' :: "('v, 'io, 'je) client_world" assume "clock_law (cl_clock w')"
    then show "\<exists>effs' r'. shim_main w' LOCATE_PROJECT = Some (effs', Some r') \<and> set effs' \<subseteq> {EExec (''cargo'' # LOCATE_PROJECT)}"
      by (rule locate_project_passes)
  next
    fix be rq be' rq' assume "ESend be (CSubmit rq) \<in> set effs" "ESend be' (CSubmit rq') \<in> set effs"
    with run show "rq' = rq" by (rule shim_main_submits_one)
  next
    fix senv rn rq sc c assume "build_command senv rn rq sc = Some c"
    then show "shim_active (cm_env c)" by (rule build_command_guarded)
  qed (use run shim_main_guarded [OF run] in simp_all)
qed

text \<open>A host with a real cargo and the guard set, whose sockets refuse.\<close>

definition example_world :: "(unit, unit, unit) client_world" where
  "example_world =
     \<lparr> cl_cwd = Ok ''/w'', cl_exe = Ok ''/shim/cargo'', cl_vars = [(''RBS_SHIM_ACTIVE'', ''1''), (''HOME'', ''/h'')],
       cl_hostname = ''laptop'', cl_pid = 7, cl_tty = False, cl_parse_toml = (\<lambda>_. Ok []), cl_deser = (\<lambda>_. Ok config_default),
       cl_fs = (\<lambda>_. FileNotFound), cl_is_file = (\<lambda>_. False), cl_is_exec = (\<lambda>p. True), cl_canonicalize = (\<lambda>_. None),
       cl_probe = (\<lambda>_ _ _. SpawnFailed ()), cl_run = (\<lambda>_ _ _. SpawnFailed ()), cl_exec_err = (\<lambda>_. None), cl_exit = (\<lambda>_. 101),
       cl_ssh = (\<lambda>_. Err ()), cl_ssh_slow = False, cl_dial = (\<lambda>_ _. Err ()), cl_dial_slow = False, cl_mkdirs = (\<lambda>_. None),
       cl_spawn = (\<lambda>_. None), cl_clock = (\<lambda>k. 100 * Suc k), cl_io_other = (\<lambda>_. ()), cl_show_io = (\<lambda>_. []),
       cl_show_frame = (\<lambda>_. []), cl_show_duration = (\<lambda>_. []), cl_dbg = (\<lambda>_. []), cl_show_f32 = (\<lambda>_. []) \<rparr>"

theorem shim_reentry_bounded_witness:
  "\<exists>r. shim_main example_world [''build''] = Some ([EExec [''cargo'', ''build'']], r)
     \<and> map_option main_exit r = Some (case local_command example_world [''cargo'', ''build''] of Some c \<Rightarrow> 101 | None \<Rightarrow> 1)"
proof -
  have c: "clock_law (cl_clock example_world)" by (simp add: example_world_def clock_law_def RETRY_EVERY_def)
  have "sy_rsync_path (cfg_sync config_default) = ''rsync''" by (simp add: config_default_def sync_default_def)
  moreover have "\<not> invoked_as_cargo (Some ''rsync'')" by (simp add: invoked_as_cargo_def) code_simp
  moreover have "load_config example_world cwd = Inr cfg \<Longrightarrow> cfg_sync cfg = cfg_sync config_default" for cwd cfg
  proof -
    have merged: "merge_layers (\<lambda>_. Ok config_default) ls = Inr x \<Longrightarrow> x = config_default" for ls :: "unit layer list" and x
      by (simp add: merge_layers_def)
    have kept: "cfg_sync (expand_paths (apply_overrides ov x) home) = cfg_sync x" for ov x home
      by (simp add: expand_paths_def apply_overrides_def Let_def split: option.split)
    assume "load_config example_world cwd = Inr cfg"
    then obtain ov x home where "cfg = expand_paths (apply_overrides ov x) home"
      and "\<exists>ls :: unit layer list. merge_layers (\<lambda>_. Ok config_default) ls = (Inr x :: (config, unit config_error) result)"
      unfolding load_config_def load_def by (auto simp: example_world_def Let_def)
    with merged kept show ?thesis by metis
  qed
  ultimately have r: "\<forall>cwd cfg. load_config example_world cwd = Inr cfg \<longrightarrow> \<not> invoked_as_cargo (Some (sy_rsync_path (cfg_sync cfg)))"
    by simp
  have "shim_active (cl_env example_world)"
    by (simp add: example_world_def shim_active_def SHIM_ACTIVE_ENV_def)
  moreover have "cl_exit example_world c = 101" for c by (simp add: example_world_def)
  ultimately show ?thesis
    using shim_reentry_bounded [OF c r, where args = "[''build'']"] by (auto split: option.splits)
qed

text \<open>
  C28. The mode binds. Whatever the configuration files say and whatever the servers do, an
  invocation under \<open>RBS_MODE\<close> reaches (connects to, sends to, mirrors to or pulls from) no server
  the mode excludes: none at all in mode plain, only the local one in mode local, only the remote
  in mode remote; and none at all when the variable is not a mode, which is an error. The
  option \<open>--mode\<close> of \<open>rbs exec\<close> binds in the same way, over the variable.
\<close>
theorem mode_bounds_contacts:
  assumes "clock_law (cl_clock w)"
  shows "(\<exists>effs r. shim_main w args = Some (effs, r)
            \<and> (case cl_env w ''RBS_MODE'' of
                 None \<Rightarrow> True
               | Some mtext \<Rightarrow> within (case mode_from_str mtext of Inr m \<Rightarrow> {b. mode_allows m b} | Inl e \<Rightarrow> {}) effs))
       \<and> (\<exists>effs r. run_chain w argv (Some md) cp = Some (effs, r) \<and> within {b. mode_allows md b} effs)"
proof
  show "\<exists>effs r. run_chain w argv (Some md) cp = Some (effs, r) \<and> within {b. mode_allows md b} effs"
    using run_chain_returns [OF assms, of argv "Some md" cp] run_chain_within [of w argv "Some md" cp] by fastforce
  have loaded: "mode_from_str mtext = Inr (po_mode (cfg_policy cfg))"
    if "load_config w cwd = Inr cfg" "cl_env w ''RBS_MODE'' = Some mtext" for cwd cfg mtext
    using load_env_precedence [OF that(1) [unfolded load_config_def]] that(2) by simp
  show "\<exists>effs r. shim_main w args = Some (effs, r)
            \<and> (case cl_env w ''RBS_MODE'' of
                 None \<Rightarrow> True
               | Some mtext \<Rightarrow> within (case mode_from_str mtext of Inr m \<Rightarrow> {b. mode_allows m b} | Inl e \<Rightarrow> {}) effs)"
  proof (cases "shim_active (cl_env w)")
    case True
    then show ?thesis by (simp add: shim_main_def split: option.split)
  next
    case False
    obtain effs r where run: "run_chain w (''cargo'' # args) None True = Some (effs, r)"
      using run_chain_returns [OF assms] by blast
    have "within (case mode_from_str mtext of Inr m \<Rightarrow> {b. mode_allows m b} | Inl e \<Rightarrow> {}) effs"
      if "cl_env w ''RBS_MODE'' = Some mtext" for mtext
      using run_chain_within [OF run] loaded [OF _ that] by fastforce
    with run False show ?thesis by (simp add: shim_main_def split: option.split)
  qed
qed

definition plain_world :: "(unit, unit, unit) client_world" where
  "plain_world = example_world\<lparr>cl_vars := [(''HOME'', ''/h''), (''RBS_MODE'', ''plain'')]\<rparr>"

theorem mode_bounds_contacts_witness:
  "\<exists>effs r. shim_main plain_world [''build''] = Some (effs, r) \<and> within {} effs"
proof -
  have "clock_law (cl_clock plain_world)" by (simp add: plain_world_def example_world_def clock_law_def RETRY_EVERY_def)
  from mode_bounds_contacts [OF this, of "[''build'']"]
  have "\<exists>effs r. shim_main plain_world [''build''] = Some (effs, r)
      \<and> (case cl_env plain_world ''RBS_MODE'' of None \<Rightarrow> True
          | Some mtext \<Rightarrow> within (case mode_from_str mtext of Inr m \<Rightarrow> {b. mode_allows m b} | Inl e \<Rightarrow> {}) effs)" by blast
  moreover have "cl_env plain_world ''RBS_MODE'' = Some ''plain''" by (simp add: plain_world_def)
  moreover have "mode_from_str ''plain'' = Inr Plain" by (simp add: mode_from_str_def)
  moreover have "{b. mode_allows Plain b} = {}" by simp
  ultimately show ?thesis by (simp only: option.case sum.case)
qed

text \<open>What \<open>rbs status\<close> and the shim see of the remote is one probe.\<close>

lemma probe_backend_remote:
  assumes "hk_dbg h = cl_dbg w"
  shows "bl_result (probe_backend w BRemote t timeout) = Inr p \<longleftrightarrow> (\<exists>effs l. probe_remote h timeout t = (effs, Inr (l, p)))"
  using assms
  by (auto simp: probe_backend_def probe_remote_def split: prod.splits sum.splits elim!: map_err.elims and_then.elims)

text \<open>
  C29. What \<open>rbs status\<close> reports is what the shim decides on. For the same configuration and the
  same behaviour of the peers, an invocation in mode auto or remote puts the remote into its
  chain exactly when the remote line of the report is an answer whose round trip is within the
  configured maximum and whose server accepts jobs; and then \<open>rbs status\<close> exits with code 0.
  There are three lines, in the order remote, local, plain, and the report never opens a
  connection to a backend that is disabled.
\<close>
theorem status_predicts_chain:
  assumes "real_hooks w cfg exe = Some h" and "in_cfg inp = cfg" and "po_mode (cfg_policy cfg) \<in> {Auto, Remote}"
  shows "(BRemote \<in> set (dc_chain (select (po_mode (cfg_policy cfg)) (snd (snd (probe_step h inp))) (hk_local h \<noteq> None) cfg))
           \<longleftrightarrow> (case bl_result (status_lines w cfg (hk_remote h) loc ! 0) of
                 Inr p \<Rightarrow> pr_rtt p \<le> from_millis (rm_max_rtt_ms (cfg_remote cfg)) \<and> cap_accepting (st_capacity (pr_status p))
               | Inl e \<Rightarrow> False))
    \<and> (BRemote \<in> set (dc_chain (select (po_mode (cfg_policy cfg)) (snd (snd (probe_step h inp))) (hk_local h \<noteq> None) cfg))
           \<longrightarrow> snd (status_run w cfg (hk_remote h) loc) = 0)
    \<and> map bl_backend (status_lines w cfg (hk_remote h) loc) = [BRemote, BLocal, BPlain]
    \<and> (\<not> rm_enabled (cfg_remote cfg) \<longrightarrow> bl_result (status_lines w cfg (hk_remote h) loc ! 0) = Inl ''disabled'')"
proof -
  let ?t = "ssh_endpoint w (ssh_of cfg)"
  let ?timeout = "from_millis (rm_connect_timeout_ms (cfg_remote cfg))"
  have h: "hk_remote h = Some ?t" "hk_dbg h = cl_dbg w" using real_hooks_remote [OF assms(1)] by simp_all
  let ?line = "bl_result (status_lines w cfg (hk_remote h) loc ! 0)"
  let ?probe = "snd (snd (probe_step h inp))"
  have line: "?line = (if rm_enabled (cfg_remote cfg) then bl_result (probe_backend w BRemote ?t ?timeout) else Inl ''disabled'')"
    by (simp add: status_lines_def h Let_def)
  have probe: "rm_enabled (cfg_remote cfg) \<Longrightarrow> (?probe = Some (ProbeOk p)) = (?line = Inr p)" for p
    unfolding line using assms(2,3) probe_backend_remote [OF h(2), of ?t ?timeout p]
    by (auto simp: probe_step_def h split: prod.splits sum.splits)
  have chain: "BRemote \<in> set (dc_chain (select (po_mode (cfg_policy cfg)) ?probe (hk_local h \<noteq> None) cfg))
      \<longleftrightarrow> remote_skip ?probe cfg = None"
    using assms(3) by (auto simp: select_def consider_backend_def Let_def split: option.splits)
  have skip: "remote_skip ?probe cfg = None \<longleftrightarrow> (case ?line of
                 Inr p \<Rightarrow> pr_rtt p \<le> from_millis (rm_max_rtt_ms (cfg_remote cfg)) \<and> cap_accepting (st_capacity (pr_status p))
               | Inl e \<Rightarrow> False)"
  proof (cases "rm_enabled (cfg_remote cfg)")
    case True
    show ?thesis
    proof (cases ?line)
      case (Inl e)
      then have "?probe \<noteq> Some (ProbeOk p)" for p using probe [OF True, of p] by simp
      with Inl True show ?thesis by (auto simp: remote_skip_def split: option.split remote_probe.split)
    next
      case (Inr p)
      then have "?probe = Some (ProbeOk p)" using probe [OF True] by simp
      with Inr True show ?thesis by (simp add: remote_skip_def Let_def not_less)
    qed
  qed (simp add: remote_skip_def line)
  have "is_ok ?line \<Longrightarrow> snd (status_run w cfg (hk_remote h) loc) = 0"
    by (simp add: status_run_def status_lines_def Let_def)
  moreover have "map bl_backend (status_lines w cfg (hk_remote h) loc) = [BRemote, BLocal, BPlain]"
    by (simp add: status_lines_def probe_backend_def Let_def split: option.splits)
  moreover have "\<not> rm_enabled (cfg_remote cfg) \<Longrightarrow> ?line = Inl ''disabled''" by (simp add: line)
  ultimately show ?thesis unfolding chain skip by (auto split: sum.splits)
qed

text \<open>The same host with a remote that answers.\<close>

definition example_status :: server_status where
  "example_status =
     \<lparr> st_identity = \<lparr> si_hostname = ''node0'', si_version = ''1'' \<rparr>,
       st_capacity = \<lparr> tokens_total = 8, tokens_free = 8, cap_mem_available_bytes = 0, cap_load1 = F32 0, cap_accepting = True \<rparr>,
       st_queued = 0, st_running = 0, st_uptime_secs = 1 \<rparr>"

definition answering_world :: "(unit, unit, unit) client_world" where
  "answering_world = example_world\<lparr>cl_ssh := (\<lambda>_. Ok \<lparr> sc_stdin = True, sc_stdout = True,
     sc_link = \<lparr> lk_recv = [Ok (Some (SHello PROTOCOL_VERSION (st_identity example_status))), Ok (Some (SStatus example_status))],
                 lk_send_err = (\<lambda>_. None), lk_sends = 0, lk_rtt = 0, lk_probe_elapsed = None, lk_interrupt = None \<rparr> \<rparr>)\<rparr>"

theorem status_predicts_chain_witness:
  "\<exists>h. real_hooks answering_world config_default ''/shim/cargo'' = Some h
     \<and> snd (status_run answering_world config_default (hk_remote h) None) = 0"
proof -
  let ?w = answering_world
  let ?inp = "example_input Auto [''build'']"
  have "clock_law (cl_clock ?w)" by (simp add: answering_world_def example_world_def clock_law_def RETRY_EVERY_def)
  then obtain h where h: "real_hooks ?w config_default ''/shim/cargo'' = Some h" using real_hooks_exist by blast
  have m: "po_mode (cfg_policy config_default) \<in> {Auto, Remote}" by (simp add: config_default_def policy_default_def)
  have i: "in_cfg (?inp\<lparr>in_cfg := config_default\<rparr>) = config_default" by simp
  have "hk_remote h = Some (ssh_endpoint ?w (ssh_of config_default))" using real_hooks_remote [OF h] by simp
  then have "bl_result (status_lines ?w config_default (hk_remote h) None ! 0) = Inr \<lparr> pr_status = example_status, pr_rtt = 0 \<rparr>"
    by (simp add: status_lines_def probe_backend_def ssh_endpoint_def ssh_connect_def answering_world_def example_world_def
        probe_with_timeout_def probe_def hello_def send_def recv_def config_default_def remote_default_def Let_def)
  moreover have "cap_accepting (st_capacity example_status)" by (simp add: example_status_def)
  ultimately show ?thesis
    using status_predicts_chain [OF h i m, of None] h by simp
qed

end
