(* ===== verification/Lifecycle.thy ===== *)
theory Lifecycle
  imports Server Frame
begin

text \<open>
  The life of the server process: starting, serving and shutting down (\<open>lib.rs\<close> of
  \<open>crates/rbs-server\<close>), one connection from its handshake to its cleanup (\<open>handle_connection\<close> of
  \<open>socket.rs\<close>), and the bridge of \<open>rbs proxy\<close> (\<open>proxy.rs\<close>).

  The answers of the operating system are a \<open>host_calls\<close>. What the select loop of \<open>serve\<close> picks
  is a list of events; a list that runs out is a server still waiting, the result \<open>None\<close>. What
  the server does to the world, in order, is a list of \<open>action\<close>s. The connections and jobs it
  runs concurrently are the subject of the theory \<open>Server_Steps\<close>.
\<close>

section \<open>Starting\<close>

record server_opts =
  svo_socket :: "path option"
  svo_tokens :: "u32 option"

datatype scope_mode = ScopeAuto | ScopeDisabled

datatype 'io scope_probe = ScopeElapsed | ScopeNoStatus 'io | ScopeStatus bool

record 'io host_calls =
  hc_nproc :: "usize option"
  hc_hostname :: "string option"
  hc_create_dir_all :: "path \<Rightarrow> 'io option"
  hc_remove_file :: "path \<Rightarrow> 'io remove_outcome"
  hc_listen :: "path \<Rightarrow> 'io option"
  hc_chmod :: "path \<Rightarrow> 'io option"
  hc_mkfifo :: "path \<Rightarrow> 'io option"
  hc_open_fifo :: "path \<Rightarrow> 'io option"
  hc_fill_fifo :: "path \<Rightarrow> 'io option"
  hc_scope :: "'io scope_probe"
  hc_jobs_exit_in_time :: bool

datatype 's action =
    Listening path
  | FifoMade path
  | SpawnConn 's
  | PollNow snapshot
  | Sleep100
  | DropListener
  | AbortConns nat
  | CloseJobs
  | AwaitJobs bool
  | RemoveSocket path
  | UnlinkFifo path

definition probe_systemd_scope :: "'io scope_probe \<Rightarrow> bool" where
  "probe_systemd_scope r = (case r of ScopeStatus ok \<Rightarrow> ok | _ \<Rightarrow> False)"

definition server_hostname :: "string option \<Rightarrow> string" where
  "server_hostname h = unwrap_or ''localhost'' h"

definition runner_new :: "string \<Rightarrow> scope \<Rightarrow> u64 option \<Rightarrow> string \<Rightarrow> runner" where
  "runner_new flags sc timeout host = \<lparr> rn_makeflags = flags, rn_scope = sc, rn_timeout = timeout, rn_hostname = host \<rparr>"

definition choose_scope :: "scope_mode \<Rightarrow> 'io scope_probe \<Rightarrow> server_cfg \<Rightarrow> scope" where
  "choose_scope m probe sv =
     (case m of
        ScopeDisabled \<Rightarrow> ScopeNone
      | ScopeAuto \<Rightarrow> (if probe_systemd_scope probe then Systemd (sv_job_mem_max_gib sv) else ScopeNone))"

record server =
  srv_socket :: path
  srv_identity :: server_identity
  srv_runner :: runner
  srv_jobserver :: job_server
  srv_shared :: shared

text \<open>
  The first half of \<open>run_server_until\<close>, up to the shared state. With the result come the files it
  has made: the socket once \<open>listen\<close> succeeds, the FIFO once \<open>mkfifo\<close> does.
\<close>

definition start_server ::
  "'io host_calls \<Rightarrow> string \<Rightarrow> config \<Rightarrow> server_opts \<Rightarrow> scope_mode
     \<Rightarrow> 's action list \<times> (server, ('io, 'je) server_error) result" where
  "start_server hc version cfg opts m =
     (let p = unwrap_or (ls_socket (cfg_local_server cfg)) (svo_socket opts);
          tokens = resolve_tokens (svo_tokens opts) (cfg_server cfg) (available_parallelism (hc_nproc hc));
          b = bind (hc_create_dir_all hc) (hc_remove_file hc) (\<lambda>q. case hc_listen hc q of Some e \<Rightarrow> Err e | None \<Rightarrow> Ok ()) (hc_chmod hc) p
      in case b of
           Inl (Chmod q e) \<Rightarrow> ([Listening p], Err (Chmod q e))
         | Inl e \<Rightarrow> ([], Err e)
         | Inr _ \<Rightarrow>
             (case path_parent p of
                None \<Rightarrow> ([Listening p], Err (NoParent p))
              | Some dir \<Rightarrow>
                  (let f = path_join dir FIFO_NAME in
                   case create_jobserver (hc_remove_file hc f) (hc_mkfifo hc f) (hc_open_fifo hc f) (hc_fill_fifo hc f) dir tokens of
                     Inl (OpenFifo q e) \<Rightarrow> ([Listening p, FifoMade f], Err (OpenFifo q e))
                   | Inl (FillFifo q e) \<Rightarrow> ([Listening p, FifoMade f], Err (FillFifo q e))
                   | Inl e \<Rightarrow> ([Listening p], Err e)
                   | Inr js \<Rightarrow>
                       (let host = server_hostname (hc_hostname hc);
                            timeout = (if sv_job_timeout_secs (cfg_server cfg) > 0 then Some (sv_job_timeout_secs (cfg_server cfg)) else None)
                        in ([Listening p, FifoMade f],
                            Ok \<lparr> srv_socket = p,
                                 srv_identity = \<lparr> si_hostname = host, si_version = version \<rparr>,
                                 srv_runner = runner_new (makeflags js) (choose_scope m (hc_scope hc) (cfg_server cfg)) timeout host,
                                 srv_jobserver = js,
                                 srv_shared = shared_new (scheduler_new (limits_from_server (cfg_server cfg))) \<rparr>)))))"

section \<open>Serving\<close>

datatype ('s, 'io) serve_event =
    ShutdownRequested
  | Accepted 's
  | AcceptFailed 'io
  | PollTick snapshot
  | ConnJoined bool

text \<open>\<open>n\<close> is the number of connection tasks; the join branch is disabled while there is none.\<close>

fun serve :: "nat \<Rightarrow> ('s, 'io) serve_event list \<Rightarrow> 's action list option" where
  "serve n [] = None"
| "serve n (ShutdownRequested # es) = Some [DropListener, AbortConns n]"
| "serve n (Accepted s # es) = map_option ((#) (SpawnConn s)) (serve (Suc n) es)"
| "serve n (AcceptFailed e # es) = map_option ((#) Sleep100) (serve n es)"
| "serve n (PollTick snap # es) = map_option ((#) (PollNow snap)) (serve n es)"
| "serve n (ConnJoined ok # es) = serve (n - 1) es"

text \<open>
  The FIFO is unlinked when the last reference to the shared state goes. When the grace period
  of the shutdown passes first, the tasks of the jobs that are still running hold one, so the
  function returns with the FIFO in place.
\<close>

definition run_server_until ::
  "'io host_calls \<Rightarrow> string \<Rightarrow> config \<Rightarrow> server_opts \<Rightarrow> scope_mode \<Rightarrow> ('s, 'io) serve_event list
     \<Rightarrow> ('s action list \<times> (unit, ('io, 'je) server_error) result) option" where
  "run_server_until hc version cfg opts m events =
     (case start_server hc version cfg opts m of
        (made, Inl e) \<Rightarrow> Some (made, Err e)
      | (made, Inr srv) \<Rightarrow>
          map_option (\<lambda>served.
              (made @ served
               @ [CloseJobs, AwaitJobs (hc_jobs_exit_in_time hc), RemoveSocket (srv_socket srv)]
               @ (if hc_jobs_exit_in_time hc then [UnlinkFifo (js_path (srv_jobserver srv))] else []),
               Ok ()))
            (serve 0 events))"

section \<open>One connection\<close>

text \<open>
  A turn comes with the snapshots and the uptime the handler reads, and with what the rest of
  the server did to the shared state since the last turn.
\<close>

record turn =
  tn_snap :: snapshot
  tn_snap' :: snapshot
  tn_uptime :: u64
  tn_others :: "shared \<Rightarrow> shared"
  tn_input :: conn_input

fun conn_run ::
  "('child, 'io) server_ctx \<Rightarrow> turn list \<Rightarrow> conn \<Rightarrow> shared \<Rightarrow> ((unit, conn_error) result \<times> conn \<times> shared) option" where
  "conn_run cx [] c s = None"
| "conn_run cx (t # ts) c s =
     (case run_turn cx (tn_snap t) (tn_snap' t) (tn_uptime t) (tn_input t) c (tn_others t s) of
        (Inr True, c', s') \<Rightarrow> conn_run cx ts c' s'
      | (Inr False, c', s') \<Rightarrow> Some (Ok (), c', s')
      | (Inl e, c', s') \<Rightarrow> Some (Err e, c', s'))"

definition handle_connection ::
  "('child, 'io) server_ctx \<Rightarrow> (nat \<Rightarrow> bool) \<Rightarrow> (client_message option, conn_error) result \<Rightarrow> turn list \<Rightarrow> snapshot \<Rightarrow> shared
     \<Rightarrow> ((unit, conn_error) result \<times> conn \<times> shared) option" where
  "handle_connection cx wr first turns snap s =
     map_option (\<lambda>(r, c, s'). (r, cleanup snap c s'))
       (case handshake cx first \<lparr> cn_active = ANone, cn_out = [], cn_wr = wr \<rparr> of
          (Inl e, c) \<Rightarrow> Some (Err e, c, s)
        | (Inr False, c) \<Rightarrow> Some (Ok (), c, s)
        | (Inr True, c) \<Rightarrow> conn_run cx turns c s)"

section \<open>The proxy\<close>

text \<open>
  The two copies of \<open>bridge\<close> run until one of them ends, by end of file or by an error. The
  result: what reached the socket, whether its write half was then shut down, and what reached
  the output.
\<close>

datatype 'io bridge_event =
    FromInput "u8 list"
  | InputEnds "'io option"
  | FromSocket "u8 list"
  | SocketEnds "'io option"

fun bridge_copy :: "'io bridge_event list \<Rightarrow> (u8 list \<times> bool \<times> u8 list) option" where
  "bridge_copy [] = None"
| "bridge_copy (FromInput bs # es) = map_option (\<lambda>(i, sd, o'). (bs @ i, sd, o')) (bridge_copy es)"
| "bridge_copy (FromSocket bs # es) = map_option (\<lambda>(i, sd, o'). (i, sd, bs @ o')) (bridge_copy es)"
| "bridge_copy (InputEnds e # es) = Some ([], True, [])"
| "bridge_copy (SocketEnds e # es) = Some ([], False, [])"

definition bridge ::
  "(path \<Rightarrow> 'io option) \<Rightarrow> path \<Rightarrow> 'io bridge_event list
     \<Rightarrow> (u8 list \<times> bool \<times> u8 list, ('io, 'je) server_error) result option" where
  "bridge connect socket events =
     (case connect socket of
        Some e \<Rightarrow> Some (Err (ServerConnect socket e))
      | None \<Rightarrow> map_option Ok (bridge_copy events))"

section \<open>Facts\<close>

abbreviation before_shutdown :: "('s, 'io) serve_event list \<Rightarrow> ('s, 'io) serve_event list" where
  "before_shutdown es \<equiv> takeWhile (\<lambda>e. e \<noteq> ShutdownRequested) es"

text \<open>What serving an event does, and how many connection tasks are left.\<close>

fun served_as :: "('s, 'io) serve_event \<Rightarrow> 's action list" where
  "served_as (Accepted s) = [SpawnConn s]"
| "served_as (AcceptFailed e) = [Sleep100]"
| "served_as (PollTick snap) = [PollNow snap]"
| "served_as _ = []"

fun live_conns :: "nat \<Rightarrow> ('s, 'io) serve_event list \<Rightarrow> nat" where
  "live_conns n [] = n"
| "live_conns n (Accepted s # es) = live_conns (Suc n) es"
| "live_conns n (ConnJoined ok # es) = live_conns (n - 1) es"
| "live_conns n (_ # es) = live_conns n es"

lemma serve_closed_form:
  "serve n es =
     (if ShutdownRequested \<in> set es
      then Some (concat (map served_as (before_shutdown es)) @ [DropListener, AbortConns (live_conns n (before_shutdown es))])
      else None)"
  by (induction n es rule: serve.induct) auto

lemma bind_Ok:
  "bind mk rm li ch p = Inr l \<Longrightarrow> path_parent p \<noteq> None"
  by (cases "path_parent p") (auto simp: bind_def)

lemma create_jobserver_Ok:
  "create_jobserver rm mk op fi dir tokens = Inr js \<Longrightarrow>
     js_path js = path_join dir FIFO_NAME \<and> js_total js = tokens \<and> length (js_fifo js) = unat tokens"
  by (auto simp: create_jobserver_def Let_def split: remove_outcome.splits option.splits)

lemma resolve_tokens_pos: "0 < unat (resolve_tokens ov sv n)"
  by (subst token_pool_size [THEN conjunct1]) (simp add: less_max_iff_disj)

lemma resolve_tokens_nz [simp]: "unat (resolve_tokens ov sv n) \<noteq> 0"
  using resolve_tokens_pos [of ov sv n] by simp

lemma deliver_all_closed:
  "sh_chan s i = Closed \<Longrightarrow> sh_chan (snd (deliver_all s ids)) i = Closed"
proof (induction ids arbitrary: s)
  case (Cons j ids)
  then show ?case by (cases "i = j") (simp_all add: Let_def)
qed simp

lemma deliver_all_waiters:
  "i \<notin> sh_waiters s \<Longrightarrow> i \<notin> sh_waiters (snd (deliver_all s ids))"
  by (induction ids arbitrary: s) (simp_all add: Let_def)

lemma finish_orphans_frame:
  "sh_chan (snd (finish_orphans s snap ids)) = sh_chan s" "sh_waiters (snd (finish_orphans s snap ids)) = sh_waiters s"
  by (induction ids arbitrary: s) (simp_all add: Let_def)

lemma wake_closed:
  "sh_chan s i = Closed \<Longrightarrow> i \<notin> sh_waiters s \<Longrightarrow>
     sh_chan (wake s released snap) i = Closed \<and> i \<notin> sh_waiters (wake s released snap)"
proof (induction s released snap rule: wake.induct)
  case (1 s released snap)
  show ?case
  proof (cases "released = []")
    case False
    let ?d = "deliver_all s released"
    let ?f = "finish_orphans (snd ?d) snap (fst ?d)"
    have "sh_chan (snd ?f) i = Closed" "i \<notin> sh_waiters (snd ?f)"
      using 1(2,3) by (simp_all add: finish_orphans_frame deliver_all_closed deliver_all_waiters)
    from 1(1) [OF False refl refl this] show ?thesis
      using False by (subst (1 2) wake.simps) (simp add: Let_def)
  qed (use 1 in \<open>simp add: wake.simps\<close>)
qed

lemma dequeue_gone:
  "i \<notin> sh_waiters (dequeue snap i s)" "sh_chan (dequeue snap i s) i = Closed"
  by (auto simp: dequeue_def job_finished_def Let_def wake_closed split: prod.split)

text \<open>A connection that has ended holds no job, and a job it still had queued can no longer be woken.\<close>

lemma handle_connection_clean:
  assumes "handle_connection cx wr first turns snap s = Some (r, c, s')"
  shows "cn_active c = ANone"
    and "\<exists>c0 s0. (c, s') = cleanup snap c0 s0
           \<and> (\<forall>i req. cn_active c0 = AQueued i req \<longrightarrow> i \<notin> sh_waiters s' \<and> sh_chan s' i = Closed)"
proof -
  have "\<exists>c0 s0. cleanup snap c0 s0 = (c, s')"
    using assms by (auto simp: handle_connection_def split: prod.splits sum.splits bool.splits)
  then obtain c0 s0 where c: "(c, s') = cleanup snap c0 s0" by metis
  then show "cn_active c = ANone" by (simp add: cleanup_def)
  show "\<exists>c0 s0. (c, s') = cleanup snap c0 s0
           \<and> (\<forall>i req. cn_active c0 = AQueued i req \<longrightarrow> i \<notin> sh_waiters s' \<and> sh_chan s' i = Closed)"
    using c by (intro exI [of _ c0] exI [of _ s0]) (auto simp: cleanup_def dequeue_gone)
qed

text \<open>What a proxy passes on, in either direction, is what it was given until one side ended.\<close>

fun input_bytes :: "'io bridge_event list \<Rightarrow> u8 list" where
  "input_bytes (FromInput bs # es) = bs @ input_bytes es"
| "input_bytes (FromSocket bs # es) = input_bytes es"
| "input_bytes _ = []"

fun socket_bytes :: "'io bridge_event list \<Rightarrow> u8 list" where
  "socket_bytes (FromSocket bs # es) = bs @ socket_bytes es"
| "socket_bytes (FromInput bs # es) = socket_bytes es"
| "socket_bytes _ = []"

lemma bridge_copy_bytes:
  "bridge_copy es = Some (i, sd, o') \<Longrightarrow> i = input_bytes es \<and> o' = socket_bytes es"
  by (induction es arbitrary: i o' rule: bridge_copy.induct) auto

text \<open>
  Messages through the proxy: when the server has written the frames of \<open>ms\<close> by the time the
  bridge ends, the client behind it receives exactly \<open>ms\<close>, however the copies cut the stream.
\<close>

lemma proxied_messages:
  assumes "bridge_copy es = Some (i, sd, forwarded)" and "socket_bytes es = concat (map (frame_of to_vec) ms)"
    and "concat chunks = forwarded" and "\<forall>c \<in> set chunks. c \<noteq> [] \<and> length c \<le> 65536"
    and "\<forall>m \<in> set ms. codec_law to_vec from_slice m"
    and "\<forall>m \<in> set ms. length (frame_of to_vec m) + 65535 \<le> MAX_FRAME_BYTES"
  shows "\<exists>reads buf. recv_many from_slice (length ms) (map Inr chunks @ later) decoder_new = Some (ms, reads, buf)"
proof -
  have "decoder_new @ concat chunks = concat (map (frame_of to_vec) ms)"
    using bridge_copy_bytes [OF assms(1)] assms(2,3) by (simp add: decoder_new_def)
  from recv_many_frames [OF this assms(5,6,4)] show ?thesis by blast
qed

section \<open>Properties\<close>

text \<open>
  C18. The server's life. A start that fails returns its error, serves nothing and removes
  nothing: what it had made by then, nothing, the socket, or the socket and the FIFO, it leaves
  behind. A start that
  succeeds has made exactly two files, the socket it was told to use (the option before the
  configuration) and a FIFO beside it, filled with one byte per token and never empty, which is
  the FIFO the jobs are pointed to; no job gets a zero timeout. From then on the server returns
  exactly when a shutdown is requested, and successfully: errors of single accepts or
  connections do not end it. Until then it spawns one task per accepted connection, in order,
  and polls at every tick; afterwards it stops listening, aborts the connections that are left,
  lets no further job in, waits for the jobs, and removes the socket; last it removes the FIFO,
  but only when the jobs have exited within the grace period: otherwise it returns without.
\<close>
theorem server_lifecycle:
  fixes events :: "('s, 'io) serve_event list"
  shows "case start_server hc version cfg opts m :: 's action list \<times> (server, ('io, 'je) server_error) result of
     (made, Inl e) \<Rightarrow>
       run_server_until hc version cfg opts m events = Some (made, Inl e)
       \<and> (\<exists>f. prefix made [Listening (unwrap_or (ls_socket (cfg_local_server cfg)) (svo_socket opts)), FifoMade f])
   | (made, Inr srv) \<Rightarrow>
       srv_socket srv = unwrap_or (ls_socket (cfg_local_server cfg)) (svo_socket opts)
       \<and> (\<exists>dir. path_parent (srv_socket srv) = Some dir \<and> js_path (srv_jobserver srv) = path_join dir FIFO_NAME)
       \<and> made = [Listening (srv_socket srv), FifoMade (js_path (srv_jobserver srv))]
       \<and> length (js_fifo (srv_jobserver srv)) = unat (js_total (srv_jobserver srv)) \<and> 0 < length (js_fifo (srv_jobserver srv))
       \<and> rn_makeflags (srv_runner srv) = ''--jobserver-auth=fifo:'' @ js_path (srv_jobserver srv)
       \<and> rn_timeout (srv_runner srv) \<noteq> Some 0
       \<and> run_server_until hc version cfg opts m events =
           (if ShutdownRequested \<in> set events
            then Some (made @ concat (map served_as (before_shutdown events))
                   @ [DropListener, AbortConns (live_conns 0 (before_shutdown events)), CloseJobs, AwaitJobs (hc_jobs_exit_in_time hc),
                      RemoveSocket (srv_socket srv)]
                   @ (if hc_jobs_exit_in_time hc then [UnlinkFifo (js_path (srv_jobserver srv))] else []),
                   Inr () :: (unit, ('io, 'je) server_error) result)
            else None)"
proof -
  obtain made and r :: "(server, ('io, 'je) server_error) result" where
    st: "(start_server hc version cfg opts m :: 's action list \<times> _) = (made, r)" by (rule prod.exhaust)
  show ?thesis
  proof (cases r)
    case (Inl e)
    then have "run_server_until hc version cfg opts m events = Some (made, Inl e)"
      using st by (simp add: run_server_until_def)
    moreover have "\<exists>f. prefix made [Listening (unwrap_or (ls_socket (cfg_local_server cfg)) (svo_socket opts)), FifoMade f]"
      using st Inl by (auto simp: start_server_def Let_def split: sum.splits server_error.splits option.splits)
    ultimately show ?thesis using st Inl by simp
  next
    case (Inr srv)
    have run: "run_server_until hc version cfg opts m events =
           (if ShutdownRequested \<in> set events
            then Some (made @ concat (map served_as (before_shutdown events))
                   @ [DropListener, AbortConns (live_conns 0 (before_shutdown events)), CloseJobs, AwaitJobs (hc_jobs_exit_in_time hc),
                      RemoveSocket (srv_socket srv)]
                   @ (if hc_jobs_exit_in_time hc then [UnlinkFifo (js_path (srv_jobserver srv))] else []),
                   Inr () :: (unit, ('io, 'je) server_error) result)
            else None)"
      using st Inr by (simp add: run_server_until_def serve_closed_form)
    show ?thesis
      using st Inr run
      by (auto simp: start_server_def Let_def runner_new_def makeflags_def resolve_tokens_pos word_gt_0
          dest!: create_jobserver_Ok bind_Ok split: sum.splits server_error.splits option.splits if_splits)
  qed
qed

end
