(* ===== verification/Cli.thy ===== *)
theory Cli
  imports Doctor Setup Bootstrap Client Lifecycle
begin

text \<open>
  The subcommands of \<open>rbs\<close>: the rest of \<open>main.rs\<close> of \<open>crates/rbs-client\<close>, with the entry points
  \<open>setup\<close>, \<open>doctor\<close> and \<open>bootstrap\<close> of \<open>crates/rbs-setup/src/lib.rs\<close> they call. Parsing the command
  line is the business of \<open>clap\<close>: a parsed command is a value of the type \<open>cmd\<close>.

  The commands that provision are actions of the theory \<open>Provision\<close>; their printing is an effect.
  What a command leaves behind besides its exit code is a \<open>cli_trace\<close>. A run that never ends,
  because a server keeps the client waiting, is \<open>None\<close>.
\<close>

section \<open>Commands\<close>

datatype cmd =
    CmdStatus
  | CmdExec "mode option" "string list"
  | CmdServer "path option" "u32 option"
  | CmdProxy "path option"
  | CmdSetup role "string option" bool
  | CmdBootstrap "string option" "string list" bool bool
  | CmdDoctor bool "sync_policy option"
  | CmdStoreGc bool "u32 option"
  | CmdStoreTouch "path option" bool

datatype ('io, 'je, 'e) cli_error =
    CliClient "'io client_error"
  | CliPaths "'io paths_error"
  | CliConfig "'io config_error"
  | CliExe 'io
  | CliSetup "'io setup_error"
  | CliDoctor "'io runner_error"
  | CliBootstrap bootstrap_error
  | CliServer "('io, 'je) server_error"
  | CliStore "('io, 'e) run_error"

section \<open>Provisioning (\<open>rbs-setup/src/lib.rs\<close>)\<close>

definition run_setup ::
  "'io sys \<Rightarrow> (config \<Rightarrow> string option) \<Rightarrow> (string \<rightharpoonup> string) \<Rightarrow> (path, 'io) result \<Rightarrow> setup_opts \<Rightarrow> (unit, ('io, 'je, 'e) cli_error) act" where
  "run_setup sys to_toml env exe opts =
     act_bind (act_lift (map_err CliPaths (paths_from_env env exe (Some (se_self_exe opts))))) (\<lambda>paths.
       act_map_err CliSetup (setup_with sys to_toml paths opts))"

definition run_doctor ::
  "'io sys \<Rightarrow> (path \<Rightarrow> (config, 'io config_error) result) \<Rightarrow> (string \<rightharpoonup> string) \<Rightarrow> (path, 'io) result \<Rightarrow> doctor_opts
     \<Rightarrow> (doctor_check list, ('io, 'je, 'e) cli_error) act" where
  "run_doctor sys load_cfg env exe opts =
     act_bind (act_lift (map_err CliPaths (paths_from_env env exe None))) (\<lambda>paths.
     act_bind (act_lift (map_err CliConfig (load_cfg (do_cwd opts)))) (\<lambda>cfg.
       act_map_err CliDoctor (doctor_with sys paths cfg opts)))"

definition run_bootstrap ::
  "'io sys \<Rightarrow> (path \<Rightarrow> (config, 'io config_error) result) \<Rightarrow> (string \<rightharpoonup> string) \<Rightarrow> (path, 'io) result \<Rightarrow> bootstrap_opts
     \<Rightarrow> (host_report list, ('io, 'je, 'e) cli_error) act" where
  "run_bootstrap sys load_cfg env exe opts =
     act_bind (act_lift (map_err CliPaths (paths_from_env env exe (Some (bo_self_exe opts))))) (\<lambda>paths.
     act_bind (act_lift (map_err CliConfig (load_cfg (bo_workspace opts)))) (\<lambda>cfg.
       act_map_err CliBootstrap (bootstrap_with sys paths cfg opts)))"

section \<open>The table of \<open>rbs doctor\<close>\<close>

definition doctor_width :: "doctor_check list \<Rightarrow> nat" where
  "doctor_width checks = foldr (\<lambda>c. max (length (ck_name c))) checks 0"

definition doctor_row :: "nat \<Rightarrow> doctor_check \<Rightarrow> string" where
  "doctor_row width c =
     (if ck_ok c then ''ok  '' else ''FAIL'') @ '' '' @ pad_right width (ck_name c) @ ''  '' @ ck_detail c @ [NL]"

definition doctor_table :: "doctor_check list \<Rightarrow> string" where
  "doctor_table checks = concat (map (doctor_row (doctor_width checks)) checks)"

definition doctor_exit :: "doctor_check list \<Rightarrow> i32" where
  "doctor_exit checks = (if doctor_ok checks then 0 else 1)"

definition cmd_doctor ::
  "'io sys \<Rightarrow> (path \<Rightarrow> (config, 'io config_error) result) \<Rightarrow> (string \<rightharpoonup> string) \<Rightarrow> (path, 'io) result \<Rightarrow> doctor_opts
     \<Rightarrow> (i32, ('io, 'je, 'e) cli_error) act" where
  "cmd_doctor sys load_cfg env exe opts =
     act_bind (run_doctor sys load_cfg env exe opts) (\<lambda>checks.
     act_bind (act_for checks (\<lambda>c. act_print (doctor_row (doctor_width checks) c))) (\<lambda>_.
       act_ret (doctor_exit checks)))"

definition cmd_setup ::
  "'io sys \<Rightarrow> (config \<Rightarrow> string option) \<Rightarrow> (string \<rightharpoonup> string) \<Rightarrow> (path, 'io) result \<Rightarrow> role \<Rightarrow> string option \<Rightarrow> bool
     \<Rightarrow> (i32, ('io, 'je, 'e) cli_error) act" where
  "cmd_setup sys to_toml env exe role remote_host force =
     act_bind (act_lift (map_err CliExe exe)) (\<lambda>self.
     act_bind (run_setup sys to_toml env exe \<lparr> se_role = role, se_remote_host = remote_host, se_force = force, se_self_exe = self \<rparr>) (\<lambda>_.
       act_ret 0))"

definition cmd_bootstrap ::
  "'io sys \<Rightarrow> (path \<Rightarrow> (config, 'io config_error) result) \<Rightarrow> (string \<rightharpoonup> string) \<Rightarrow> (path, 'io) result \<Rightarrow> path
     \<Rightarrow> string option \<Rightarrow> string list \<Rightarrow> bool \<Rightarrow> bool \<Rightarrow> (i32, ('io, 'je, 'e) cli_error) act" where
  "cmd_bootstrap sys load_cfg env exe cwd server clients dry force =
     act_bind (act_lift (map_err CliExe exe)) (\<lambda>self.
     act_bind (run_bootstrap sys load_cfg env exe \<lparr> bo_server = server, bo_clients = clients, bo_dry_run = dry, bo_force = force,
                 bo_self_exe = self, bo_workspace = cwd \<rparr>) (\<lambda>reports.
     act_bind (act_print (render_report reports)) (\<lambda>_.
       act_ret (if fleet_ok reports then 0 else 1))))"

section \<open>The store commands\<close>

definition show_gc_report :: "gc_report \<Rightarrow> string" where
  "show_gc_report r =
     ''scanned '' @ show_nat (unat (gr_scanned r)) @ '' objects ('' @ show_tenths 20 (gr_total_bytes r) @ '' MiB); evicted ''
     @ show_nat (unat (gr_evicted r)) @ '' ('' @ show_tenths 20 (gr_freed_bytes r) @ '' MiB freed); ''
     @ show_nat (unat (gr_skipped_young r)) @ '' skipped (too young); '' @ show_nat (unat (gr_junk_deleted r)) @ '' junk removed''"

definition cmd_store_gc ::
  "('st, 'io, 'e) store_world \<Rightarrow> (config, 'io config_error) result \<Rightarrow> bool \<Rightarrow> u32 option \<Rightarrow> 'st
     \<Rightarrow> (string \<times> i32, ('io, 'je, 'e) cli_error) result \<times> 'st" where
  "cmd_store_gc w loaded dry max_size_gib s =
     (case run_gc w loaded \<lparr> go_dry_run = dry, go_max_size_gib_override = max_size_gib \<rparr> s of
        (r, s') \<Rightarrow> (and_then (map_err CliStore r) (\<lambda>report. Ok (show_gc_report report @ [NL], 0)), s'))"

definition cmd_store_touch ::
  "('st, 'io, 'e) store_world \<Rightarrow> (path \<Rightarrow> (config, 'io config_error) result) \<Rightarrow> (path \<Rightarrow> (path, 'io sync_error) result)
     \<Rightarrow> (path \<Rightarrow> 'io option) \<Rightarrow> path \<Rightarrow> path option \<Rightarrow> bool \<Rightarrow> 'st
     \<Rightarrow> (string \<times> i32, ('io, 'je, 'e) cli_error) result \<times> 'st" where
  "cmd_store_touch w load_cfg root_of write_stamp cwd workspace force s =
     (case run_touch w load_cfg root_of write_stamp cwd \<lparr> to_workspace = workspace, to_force = force \<rparr> s of
        (r, stamped, s') \<Rightarrow> (and_then (map_err CliStore r) (\<lambda>report. Ok (show_touch_report report @ [NL], 0)), s'))"

section \<open>Dispatch\<close>

record ('v, 'io, 'je, 'st, 'e) cli_world =
  cw_client :: "('v, 'io, 'je) client_world"
  cw_sys :: "'io sys"
  cw_to_toml :: "config \<Rightarrow> string option"
  cw_calls :: "'io host_calls"
  cw_version :: string
  cw_connect :: "path \<Rightarrow> 'io option"
  cw_store :: "('st, 'io, 'e) store_world"
  cw_write_stamp :: "path \<Rightarrow> 'io option"

datatype ('s, 'st) cli_trace =
    TrNothing
  | TrLines "string list"
  | TrChain "Shim.effect list"
  | TrServer "'s action list"
  | TrProxy "u8 list" bool "u8 list"
  | TrActs history
  | TrStore string 'st

definition of_act :: "(i32, 'err) act \<Rightarrow> (('s, 'st) cli_trace \<times> (i32, 'err) result) option" where
  "of_act m = (case m [] of (r, h) \<Rightarrow> Some (TrActs h, r))"

definition of_store :: "(string \<times> i32, 'err) result \<times> 'st \<Rightarrow> (('s, 'st) cli_trace \<times> (i32, 'err) result) option" where
  "of_store rs =
     (case rs of (Inr (line, code), s) \<Rightarrow> Some (TrStore line s, Ok code) | (Inl e, s) \<Rightarrow> Some (TrStore [] s, Err e))"

definition cli_main ::
  "('v, 'io, 'je, 'st, 'e) cli_world \<Rightarrow> ('s, 'io) serve_event list \<Rightarrow> 'io bridge_event list \<Rightarrow> 'st \<Rightarrow> cmd
     \<Rightarrow> (('s, 'st) cli_trace \<times> (i32, ('io, 'je, 'e) cli_error) result) option" where
  "cli_main w served bridged st c =
     (let cw = cw_client w; loads = load_config cw; env = cl_env cw; exe = cl_exe cw in
      case cl_cwd cw of
        Inl e \<Rightarrow> Some (TrNothing, Err (CliClient (NoCwd e)))
      | Inr cwd \<Rightarrow>
     (case c of
        CmdStatus \<Rightarrow> (case cmd_status cw of (ls, r) \<Rightarrow> Some (TrLines ls, map_err CliClient r))
      | CmdExec m argv \<Rightarrow>
          Option.bind (run_chain cw argv m False) (\<lambda>(effs, ended). map_option (\<lambda>r. (TrChain effs, map_err CliClient r)) ended)
      | CmdServer socket tokens \<Rightarrow>
          (case loads cwd of
             Inl e \<Rightarrow> Some (TrNothing, Err (CliConfig e))
           | Inr cfg \<Rightarrow>
               map_option (\<lambda>(tr, r). (TrServer tr, and_then (map_err CliServer r) (\<lambda>_. Ok 0)))
                 (run_server_until (cw_calls w) (cw_version w) cfg \<lparr> svo_socket = socket, svo_tokens = tokens \<rparr> ScopeAuto served))
      | CmdProxy socket \<Rightarrow>
          (case loads cwd of
             Inl e \<Rightarrow> Some (TrNothing, Err (CliConfig e))
           | Inr cfg \<Rightarrow>
               map_option (\<lambda>r. case r of
                   Inl e \<Rightarrow> (TrNothing, Err (CliServer e))
                 | Inr (i, sd, o') \<Rightarrow> (TrProxy i sd o', Ok 0))
                 (bridge (cw_connect w) (unwrap_or (ls_socket (cfg_local_server cfg)) socket) bridged))
      | CmdSetup role remote_host force \<Rightarrow> of_act (cmd_setup (cw_sys w) (cw_to_toml w) env exe role remote_host force)
      | CmdBootstrap server clients dry force \<Rightarrow> of_act (cmd_bootstrap (cw_sys w) loads env exe cwd server clients dry force)
      | CmdDoctor remote sync \<Rightarrow>
          of_act (cmd_doctor (cw_sys w) loads env exe \<lparr> do_cwd = cwd, do_remote = remote, do_sync_toolchain = sync \<rparr>)
      | CmdStoreGc dry max_size_gib \<Rightarrow> of_store (cmd_store_gc (cw_store w) (loads cwd) dry max_size_gib st)
      | CmdStoreTouch workspace force \<Rightarrow>
          of_store (cmd_store_touch (cw_store w) loads (workspace_root (cl_run cw) (show_sync_error (cl_show_io cw)))
                      (cw_write_stamp w) cwd workspace force st)))"

text \<open>\<open>main\<close>: the shim or the command line, by the name the binary was called by.\<close>

definition rbs_main ::
  "('v, 'io, 'je, 'st, 'e) cli_world \<Rightarrow> ('s, 'io) serve_event list \<Rightarrow> 'io bridge_event list \<Rightarrow> 'st \<Rightarrow> string option \<Rightarrow> string list \<Rightarrow> cmd
     \<Rightarrow> (('s, 'st) cli_trace \<times> i32) option" where
  "rbs_main w served bridged st argv0 args parsed =
     (if invoked_as_cargo argv0
      then Option.bind (shim_main (cw_client w) args) (\<lambda>(effs, ended). map_option (\<lambda>r. (TrChain effs, main_exit r)) ended)
      else map_option (map_prod id main_exit) (cli_main w served bridged st parsed))"

section \<open>Reading the table back\<close>

text \<open>What one line of the table contributes to the list of failed checks.\<close>

definition failed_line :: "string \<Rightarrow> string list" where
  "failed_line l = (case strip_prefix ''FAIL'' l of
      None \<Rightarrow> [] | Some rest \<Rightarrow> (case split_whitespace rest of [] \<Rightarrow> [] | w # _ \<Rightarrow> [w]))"

lemma doctor_failed_checks_lines: "doctor_failed_checks s = concat (map failed_line (lines s))"
proof -
  have "List.map_filter (\<lambda>l. Option.bind (strip_prefix ''FAIL'' l)
        (\<lambda>rest. case split_whitespace rest of [] \<Rightarrow> None | w # _ \<Rightarrow> Some w)) ls = concat (map failed_line ls)" for ls
    by (induction ls) (auto simp: map_filter_simps failed_line_def split: option.splits list.splits)
  then show ?thesis by (simp add: doctor_failed_checks_def)
qed

lemma failed_checks_Cons:
  assumes "NL \<notin> set l"
  shows "doctor_failed_checks (l @ NL # s) = failed_line (strip_eol (l @ [NL])) @ doctor_failed_checks s"
  using assms by (simp add: doctor_failed_checks_lines lines_def split_inclusive_line)

lemma strip_eol_snoc: "l = strip_eol (l @ [NL]) \<or> l = strip_eol (l @ [NL]) @ [CR]"
  using strip_eol_cases [of "l @ [NL]"] by auto

lemma strip_eol_keeps:
  assumes "a \<noteq> []" and "last a \<noteq> CR"
  shows "\<exists>b'. strip_eol ((a @ b) @ [NL]) = a @ b'"
  using strip_eol_snoc [of "a @ b"]
proof
  assume "a @ b = strip_eol ((a @ b) @ [NL])"
  then show ?thesis by metis
next
  assume e: "a @ b = strip_eol ((a @ b) @ [NL]) @ [CR]"
  then have "b \<noteq> []" using assms by (metis append_Nil2 last_snoc)
  then have "strip_eol ((a @ b) @ [NL]) = a @ butlast b" using e by (metis butlast_append butlast_snoc)
  then show ?thesis by blast
qed

lemma failed_line_quiet:
  assumes "\<not> starts_with ''FAIL'' l"
  shows "failed_line (strip_eol (l @ [NL])) = []"
proof -
  have "strip_prefix ''FAIL'' (strip_eol (l @ [NL])) = None"
  proof (rule ccontr)
    assume "strip_prefix ''FAIL'' (strip_eol (l @ [NL])) \<noteq> None"
    then obtain r where "strip_eol (l @ [NL]) = ''FAIL'' @ r" by auto
    with strip_eol_snoc [of l] have "prefix ''FAIL'' l" by (metis append_assoc prefixI)
    with assms show False by (simp add: starts_with_prefix)
  qed
  then show ?thesis by (simp add: failed_line_def)
qed

text \<open>Lines after the first of a detail must not look like a failed check.\<close>

abbreviation detail_lines :: "string \<Rightarrow> string list" where
  "detail_lines d \<equiv> split_by (\<lambda>c. c = NL) d"

definition readable_check :: "doctor_check \<Rightarrow> bool" where
  "readable_check c \<longleftrightarrow> ck_name c \<noteq> [] \<and> list_all (\<lambda>x. \<not> is_ws x) (ck_name c)
     \<and> list_all (\<lambda>l. \<not> starts_with ''FAIL'' l) (tl (detail_lines (ck_detail c)))"

lemma failed_checks_quiet:
  "list_all (\<lambda>l. \<not> starts_with ''FAIL'' l) (detail_lines d) \<Longrightarrow> doctor_failed_checks (d @ NL # s) = doctor_failed_checks s"
proof (induction "length d" arbitrary: d rule: less_induct)
  case less
  show ?case
  proof (cases "NL \<in> set d")
    case False
    then have "detail_lines d = [d]" by (intro split_by_none) auto
    with less.prems have "\<not> starts_with ''FAIL'' d" by simp
    then show ?thesis by (simp add: failed_checks_Cons [OF False] failed_line_quiet)
  next
    case True
    then obtain a b where d: "d = a @ NL # b" "NL \<notin> set a" by (meson split_list_first)
    then have "detail_lines d = a # detail_lines b" by (auto intro!: split_by_append)
    with less.prems less.hyps [of b] d have "doctor_failed_checks (b @ NL # s) = doctor_failed_checks s"
      and "\<not> starts_with ''FAIL'' a" by simp_all
    then show ?thesis using failed_checks_Cons [OF d(2), of "b @ NL # s"] d(1) by (simp add: failed_line_quiet)
  qed
qed

lemma failed_checks_first:
  assumes "NL \<notin> set a" and "list_all (\<lambda>l. \<not> starts_with ''FAIL'' l) (tl (detail_lines d))" and "a \<noteq> []" and "last a \<noteq> CR"
  shows "\<exists>b'. doctor_failed_checks (a @ d @ NL # s) = failed_line (a @ b') @ doctor_failed_checks s"
proof (cases "NL \<in> set d")
  case False
  then show ?thesis
    using failed_checks_Cons [of "a @ d" s] strip_eol_keeps [OF assms(3,4), of d] assms(1) by auto
next
  case True
  then obtain x y where d: "d = x @ NL # y" "NL \<notin> set x" by (meson split_list_first)
  then have "detail_lines d = x # detail_lines y" by (auto intro!: split_by_append)
  then have y: "doctor_failed_checks (y @ NL # s) = doctor_failed_checks s"
    using failed_checks_quiet [of y s] assms(2) by simp
  have "NL \<notin> set (a @ x)" using d(2) assms(1) by simp
  from failed_checks_Cons [OF this, of "y @ NL # s"] y d(1) strip_eol_keeps [OF assms(3,4), of x]
  show ?thesis by auto
qed

lemma doctor_row_read:
  assumes "readable_check c"
  shows "doctor_failed_checks (doctor_row w c @ s) = (if ck_ok c then [] else [ck_name c]) @ doctor_failed_checks s"
proof -
  define a where "a = (if ck_ok c then ''ok  '' else ''FAIL'') @ '' '' @ pad_right w (ck_name c) @ ''  ''"
  have nws: "\<forall>x \<in> set (ck_name c). \<not> is_ws x" "ck_name c \<noteq> []" using assms by (auto simp: readable_check_def list_all_iff)
  have "NL \<notin> set (ck_name c)" using nws(1) by (auto simp: is_ws_def)
  then have "NL \<notin> set a" by (auto simp: a_def pad_right_def)
  moreover have "a \<noteq> []" "last a \<noteq> CR" by (simp_all add: a_def)
  ultimately obtain b' where b: "doctor_failed_checks (a @ ck_detail c @ NL # s) = failed_line (a @ b') @ doctor_failed_checks s"
    using failed_checks_first [of a "ck_detail c" s] assms by (auto simp: readable_check_def)
  have row: "doctor_row w c @ s = a @ ck_detail c @ NL # s" by (simp add: doctor_row_def a_def)
  have "failed_line (a @ b') = (if ck_ok c then [] else [ck_name c])"
  proof (cases "ck_ok c")
    case True
    then show ?thesis by (simp add: a_def failed_line_def)
  next
    case False
    define rest where "rest = replicate (w - length (ck_name c)) (CHR '' '') @ '' '' @ b'"
    have "replicate (w - length (ck_name c)) (CHR '' '') @ ''  '' @ b' = CHR '' '' # rest"
      by (simp add: rest_def replicate_app_Cons_same)
    then have "a @ b' = ''FAIL'' @ CHR '' '' # ck_name c @ CHR '' '' # rest" using False by (simp add: a_def pad_right_def)
    moreover have "split_whitespace (CHR '' '' # ck_name c @ CHR '' '' # rest) = ck_name c # split_whitespace rest"
      using nws by (simp add: split_whitespace_skip split_whitespace_word is_ws_def)
    ultimately show ?thesis using False by (simp add: failed_line_def)
  qed
  with b show ?thesis by (simp add: row)
qed

lemma doctor_table_read:
  "list_all readable_check checks \<Longrightarrow>
     doctor_failed_checks (concat (map (doctor_row w) checks)) = map ck_name (filter (\<lambda>c. \<not> ck_ok c) checks)"
proof (induction checks)
  case Nil
  then show ?case by (simp add: doctor_failed_checks_def map_filter_simps)
qed (simp add: doctor_row_read)

lemma print_all:
  "act_for cs (\<lambda>c. act_print (f c)) h = (Inr (map (\<lambda>_. ()) cs), h @ map (\<lambda>c. Printed (f c)) cs)"
  by (induction cs arbitrary: h) (simp_all add: act_bind_def act_print_def act_ret_def)

fun printed :: "history \<Rightarrow> string" where
  "printed [] = []"
| "printed (Printed s # h) = s @ printed h"
| "printed (_ # h) = printed h"

lemma printed_map [simp]: "printed (map (\<lambda>c. Printed (f c)) cs) = concat (map f cs)"
  by (induction cs) simp_all

text \<open>
  C37. A host's health report survives the way to the operator. \<open>rbs doctor\<close> prints one row per
  check and nothing else after its checks have run, with exit code 0 exactly when every check
  passed. When \<open>rbs bootstrap\<close> runs it over ssh and reads the table back, the host's report says
  that all checks passed, or lists the names of exactly the failed checks, in order: whatever
  the names' lengths, and whatever the details say as long as no later line of a detail begins
  like a failed row.
\<close>
theorem doctor_report_round_trip:
  fixes sysr :: "'i sys"
  assumes "list_all readable_check checks"
    and "sy_run sys h None ''ssh'' (login_shell_args host (REMOTE_RBS @ '' doctor'' @ (if role = Client then '' --remote'' else [])))
           = Inr \<lparr> ou_status = Some (doctor_exit checks), ou_stdout = doctor_table checks, ou_stderr = err \<rparr>"
  shows "fst (step_doctor sys host role rep h) =
           Inr (if list_all ck_ok checks then add_step ''doctor'' StepOk ''all checks passed'' rep
                else add_step ''doctor'' StepFailed
                       (''failed checks: '' @ join '', '' (map ck_name (filter (\<lambda>c. \<not> ck_ok c) checks))) rep)
    \<and> (case run_doctor sysr loads env exe opts h0 of
         (Inr cs, h1) \<Rightarrow> \<exists>out. cmd_doctor sysr loads env exe opts h0
             = (Inr (doctor_exit cs) :: (i32, ('i, 'je, 'e) cli_error) result, h1 @ out) \<and> printed out = doctor_table cs
       | (Inl e, h1) \<Rightarrow> cmd_doctor sysr loads env exe opts h0 = (Inl (e :: ('i, 'je, 'e) cli_error), h1))"
proof
  have failed: "doctor_failed_checks (doctor_table checks) = map ck_name (filter (\<lambda>c. \<not> ck_ok c) checks)"
    unfolding doctor_table_def by (rule doctor_table_read [OF assms(1)])
  have "map ck_name (filter (\<lambda>c. \<not> ck_ok c) checks) = [] \<longleftrightarrow> doctor_ok checks"
    by (auto simp: doctor_ok_def list_all_iff filter_empty_conv)
  then show "fst (step_doctor sys host role rep h) =
           Inr (if list_all ck_ok checks then add_step ''doctor'' StepOk ''all checks passed'' rep
                else add_step ''doctor'' StepFailed
                       (''failed checks: '' @ join '', '' (map ck_name (filter (\<lambda>c. \<not> ck_ok c) checks))) rep)"
    using assms(2) failed
    by (simp add: step_doctor_def login_exec_def boot_exec_def run_cmd_def run_in_def act_match_def act_map_err_def
        act_ret_def output_success_def doctor_exit_def doctor_ok_def Let_def split: if_splits)
  show "case run_doctor sysr loads env exe opts h0 of
         (Inr cs, h1) \<Rightarrow> \<exists>out. cmd_doctor sysr loads env exe opts h0
             = (Inr (doctor_exit cs) :: (i32, ('i, 'je, 'e) cli_error) result, h1 @ out) \<and> printed out = doctor_table cs
       | (Inl e, h1) \<Rightarrow> cmd_doctor sysr loads env exe opts h0 = (Inl (e :: ('i, 'je, 'e) cli_error), h1)"
    by (auto simp: cmd_doctor_def act_bind_def print_all act_ret_def doctor_table_def split: prod.splits sum.splits)
qed

text \<open>A host with one failed check, and a machine that relays its table.\<close>

definition example_checks :: "doctor_check list" where
  "example_checks = [mk_check ''toolchain'' True ''1.90.0'', mk_check ''kache-daemon'' False ''not running'']"

definition example_sys :: "unit sys" where
  "example_sys =
     \<lparr> sy_run = (\<lambda>_ _ _ _. Ok \<lparr> ou_status = Some (doctor_exit example_checks), ou_stdout = doctor_table example_checks, ou_stderr = [] \<rparr>),
       sy_read = (\<lambda>_ _. Err ()), sy_write = (\<lambda>_ _ _. Err ()), sy_chmod = (\<lambda>_ _ _. Err ()), sy_mkdirs = (\<lambda>_ _. Err ()),
       sy_remove = (\<lambda>_ _. Err ()), sy_hard_link = (\<lambda>_ _ _. Err ()), sy_symlink = (\<lambda>_ _ _. Err ()), sy_is_file = (\<lambda>_ _. False),
       sy_exists = (\<lambda>_ _. False), sy_mode = (\<lambda>_ _. None), sy_not_found = (\<lambda>_. True), sy_show_io = (\<lambda>_. []),
       sy_elapsed_ms = (\<lambda>_. 0), sy_toolchain_toml = (\<lambda>_. None) \<rparr>"

theorem doctor_report_round_trip_witness:
  "fst (step_doctor example_sys ''node0'' ServerRole (host_report_new ''node0'' ServerRole) []) =
     Inr (add_step ''doctor'' StepFailed ''failed checks: kache-daemon'' (host_report_new ''node0'' ServerRole))"
proof -
  have r: "list_all readable_check example_checks"
    by (simp add: example_checks_def mk_check_def readable_check_def is_ws_def)
  have s: "sy_run example_sys [] None ''ssh'' (login_shell_args ''node0'' (REMOTE_RBS @ '' doctor'' @ (if ServerRole = Client then '' --remote'' else [])))
           = Inr \<lparr> ou_status = Some (doctor_exit example_checks), ou_stdout = doctor_table example_checks, ou_stderr = [] \<rparr>"
    by (simp add: example_sys_def)
  have "fst (step_doctor example_sys ''node0'' ServerRole (host_report_new ''node0'' ServerRole) []) =
           Inr (if list_all ck_ok example_checks then add_step ''doctor'' StepOk ''all checks passed'' (host_report_new ''node0'' ServerRole)
                else add_step ''doctor'' StepFailed
                       (''failed checks: '' @ join '', '' (map ck_name (filter (\<lambda>c. \<not> ck_ok c) example_checks))) (host_report_new ''node0'' ServerRole))"
    by (rule doctor_report_round_trip [OF r s, THEN conjunct1])
  then show ?thesis by (simp add: example_checks_def mk_check_def)
qed

end
