(* ===== verification/Spec2Isabelle.thy ===== *)
theory Spec2Isabelle
  imports Base64 Frame System Cli
begin

text \<open>
  \<^bold>\<open>Verification of \<open>rbs\<close>, a remote build server for Rust.\<close>

  \<^bold>\<open>The program.\<close> One binary, \<open>rbs\<close>, is installed on every host of a small fleet. Linked under the name
  \<open>cargo\<close> it is the \<^emph>\<open>shim\<close>: it decides whether an invocation runs on a remote build server, on a
  server on this host, or as the real cargo here. As \<open>rbs server\<close> it is the \<^emph>\<open>server\<close>: it admits,
  queues and runs jobs under a limit of running jobs, free memory and queue length. As
  \<open>rbs proxy\<close> it bridges an ssh session to the server's socket. \<open>rbs store-gc\<close> and \<open>rbs store-touch\<close>
  keep the shared object store of build artifacts small without deleting what is in use, and
  \<open>rbs setup\<close>, \<open>rbs doctor\<close> and \<open>rbs bootstrap\<close> provision, check and roll out the hosts.

  The path of a build is: shim \<open>\<rightarrow>\<close> configuration and environment filter \<open>\<rightarrow>\<close> toolchain fingerprint
  \<open>\<rightarrow>\<close> probe of the remote \<open>\<rightarrow>\<close> choice of backends \<open>\<rightarrow>\<close> worktree mirrored by rsync \<open>\<rightarrow>\<close> request framed as a
  JSON line over ssh and the proxy \<open>\<rightarrow>\<close> connection of the server \<open>\<rightarrow>\<close> toolchain check \<open>\<rightarrow>\<close> scheduler \<open>\<rightarrow>\<close>
  supervisor of the job \<open>\<rightarrow>\<close> output and exit status back over the same connection \<open>\<rightarrow>\<close> the exit code
  of the shim.

  \<^bold>\<open>Theories, in the order of the code.\<close> Sources are under \<open>crates/\<close>.

  \<^item> \<open>Rbs_Prelude\<close>: machine integers as words, \<open>Result\<close> as a sum, the functions of \<open>str\<close> and slices the
    sources use, with their laws; the locale \<open>round_trip\<close> of a printer and its parser.
    \<open>Paths\<close>: \<open>std::path\<close> on the text of a path.
  \<^item> \<open>Proto\<close> (\<open>rbs-proto/src/{toolchain,job,status,lib}.rs\<close>): the records and messages of the protocol,
    field by field. \<open>Base64\<close> (\<open>job.rs\<close>): the codec of output bytes. \<open>Frame\<close> (\<open>frame.rs\<close> and the two read
    loops): the incremental decoder.
  \<^item> \<open>Config\<close> (\<open>rbs-config\<close>): the configuration record with its defaults, the merge of the layers, the
    environment overrides, the filter of forwarded variables.
  \<^item> \<open>Host\<close> (\<open>rbs-server/src/{sysinfo,jobserver}.rs\<close>, sizing of \<open>lib.rs\<close>), \<open>Scheduler\<close> (\<open>scheduler.rs\<close>),
    \<open>Toolchain\<close> (\<open>rbs-toolchain\<close>), \<open>Runner\<close> (\<open>runner.rs\<close>: commands and supervision), \<open>Server\<close> (\<open>socket.rs\<close>:
    shared state, wake-ups and the handlers of a connection as functions), \<open>Server_Steps\<close> (the same
    handlers split at their lock acquisitions, as the step relation \<open>srv_step\<close> over every
    interleaving), \<open>Lifecycle\<close> (\<open>lib.rs\<close>, \<open>handle_connection\<close>, \<open>proxy.rs\<close>).
  \<^item> \<open>Transport\<close> (\<open>rbs-client/src/{transport,local,self_spawn}.rs\<close>), \<open>Real_Cargo\<close> (\<open>real_cargo.rs\<close>), \<open>Sync\<close>
    (\<open>rbs-sync\<close>), \<open>Shim\<close> (\<open>backend.rs\<close>, \<open>shim.rs\<close>), \<open>Client\<close> (\<open>main.rs\<close> around the shim, \<open>status.rs\<close>).
    \<open>System\<close>: server and client together.
  \<^item> \<open>Planner\<close> (\<open>rbs-store/src/{planner,index}.rs\<close>), \<open>Store\<close> (\<open>gc.rs\<close>, \<open>touch.rs\<close>, \<open>creds.rs\<close>, \<open>kache_cfg.rs\<close>,
    \<open>index.rs\<close>, \<open>s3.rs\<close>, \<open>lib.rs\<close>).
  \<^item> \<open>Setup_Text\<close> (the pure functions of \<open>rbs-setup\<close>), \<open>Provision\<close> (\<open>runner.rs\<close>, \<open>paths.rs\<close> and the effects
    all provisioning runs on), \<open>Toolchain_Sync\<close> (\<open>toolchain_sync/\<close>), \<open>Doctor\<close> (\<open>doctor.rs\<close>), \<open>Setup\<close>
    (\<open>setup.rs\<close>), \<open>Bootstrap\<close> (\<open>bootstrap.rs\<close>), \<open>Cli\<close> (the subcommands of \<open>main.rs\<close> and \<open>lib.rs\<close>).

  \<^bold>\<open>How state, effects and errors are modelled.\<close>

  \<^item> Structs are records and enums are datatypes, with a prefix per record in the field names. \<open>u32\<close>
    and \<open>u64\<close> are words, so arithmetic wraps; \<open>usize\<close> counts of in-memory lists are naturals. A \<open>panic\<close>
    that the code could reach is the value \<open>None\<close>.
  \<^item> Stateful operations take and return their record (\<open>scheduler\<close>, \<open>shared\<close>, \<open>conn\<close>). The one-shot
    channel of a queued job is a state per job identifier.
  \<^item> The shim returns the list of its effects with its exit code. Provisioning runs in a small state
    monad over the \<^emph>\<open>history\<close> of its effects: every answer of the machine is a function of that
    history, so the machine may change under the program's hands in any way.
  \<^item> What is outside the sources is an argument: the JSON and TOML codecs, SQLite, the object store,
    processes, sockets, clocks and the kernel's answers. The laws a result needs are named:
    \<open>codec_law\<close> (a serialised message is one non-blank line that parses back), \<open>store_laws\<close> (delete and
    copy act on the named object), \<open>interference_ok\<close> (other users of the store put under a key only
    artifacts of that key; they may touch, upload and delete touch intermediates at any moment, and
    delete objects where the result allows for it), \<open>clock_law\<close> (a sleep takes at least its time).
    Each result under such a law has a witness with a concrete instance.
  \<^item> What runs at once is interleaved. A job's two pipes carry the time of each read, so the grace
    period after which the supervisor stops waiting for a pump is a computation; the up to eight
    touches in flight, and other machines, take turns request by request under a schedule. A
    connection is a finite list of what its peer sends: when the list is exhausted the peer is
    silent, which \<open>recv\<close> returns as \<open>None\<close>. A deadline turns that into a timeout; without one it is
    passed up as the outcome \<open>OSilent\<close> of a submission and the exit code \<open>None\<close> of a run that never
    ends.
  \<^item> Loops over data are recursions with termination proofs; the retry loop that depends on a clock
    is a \<open>partial_function\<close> and is proved to return. There is no fuel in the development: the schedule
    of the touches adds interference, and where it ends the touches go on by themselves.
  \<^item> The exit code of a job ended by a signal is \<open>128 + s\<close> on \<open>i32\<close>, wrapped as a release build does.

  \<^bold>\<open>Interfaces.\<close> The locale \<open>slot_pool\<close> is what the connection layer relies on of the scheduler;
  it is interpreted on the scheduler's operations and the accounting of \<open>Server\<close> and \<open>Server_Steps\<close>
  rests on its laws. The locale \<open>guard\<close> of \<open>Provision\<close> is what a rule about the order of effects asks
  of its guard; it is interpreted three times in \<open>Setup\<close>. The locale \<open>round_trip\<close> is interpreted for
  base64, shell quoting, role names and sync policies.

  \<^bold>\<open>What is shown.\<close>

  \<^item> \<^emph>\<open>Scheduling.\<close> The limits hold after any sequence of operations, the queue is ordered by urgency,
    every admission decision is the documented one, \<open>poll\<close> never leaves a startable job waiting, and
    the scheduler refines one FIFO lane per priority.
  \<^item> \<^emph>\<open>The server under interleaving.\<close> In every interleaving of connections, supervisors and polls the
    running count is the number of slots held; at rest nothing is leaked; the handlers as functions
    are paths of the step relation. A release can be lost between queueing and registering a waiter,
    and the job then waits forever: this is a defect of the code, it is exhibited as a reachable
    run, and it is shown to be the only way a queued job is lost.
  \<^item> \<^emph>\<open>Protocol.\<close> Frames survive any chunking, the receive buffer is bounded, base64 is a round trip;
    a job's events are Started, its output in order and its exit status; the output before the
    status is complete when both pipes end within ten seconds of the job, and otherwise the
    rest, which the code sends after the status, does not reach the client; on a connection
    nothing follows the terminal event; status and output reach the client unaltered, and so
    does a toolchain refusal.
  \<^item> \<^emph>\<open>The client.\<close> An automatic invocation ends in a build, a reported status or a justified refusal,
    unless a server it reached neither answers nor closes the connection; a remote job is submitted at most once and only after the worktree was mirrored; the
    store is touched at most once and nothing follows an exec; of the processes the
    shim starts, one that can be the shim again carries the guard, or is the unguarded \<open>cargo
    locate-project\<close>, for which the shim only runs the real cargo; it reaches no server its mode
    excludes; \<open>rbs status\<close> reports what the shim decides
    on; autostart returns.
  \<^item> \<^emph>\<open>The server process.\<close> It returns exactly on a shutdown and removes its socket, and its FIFO too
    when the jobs exit within the grace period; a start that fails leaves behind what it made; a
    connection that ends holds no job; the proxy passes messages on unchanged.
  \<^item> \<^emph>\<open>Configuration.\<close> Later layers win key by key, the environment wins over files, and exactly the
    allowed variables travel with a job.
  \<^item> \<^emph>\<open>The store.\<close> The candidates for eviction are all groups of the store, in the order orphans, hits,
    last use; evictions are the shortest prefix of them that reaches the watermark; byte limits do
    not wrap, keys parse back, a collection deletes only what it listed and what is old enough, and
    a touch run, among touches and uploads of other machines, loses no object and puts no
    artifact under another's key.
  \<^item> \<^emph>\<open>Provisioning.\<close> Shell quoting and the credentials file are round trips, the diff is minimal, setup
    overwrites no user file unforced and starts nothing before the store is verified, a toolchain is
    pinned only after both hosts were verified, bootstrap visits every host once and copies secrets
    only when told to, and it reads back from a host's doctor table exactly the failed checks.

  \<^bold>\<open>Bounds.\<close> \<open>MAX_FRAME_BYTES\<close>, the 64 KiB read buffer, the three seconds and 100 ms of the autostart
  loop (hence at most thirty attempts), the ten seconds of the drain grace, the eight touches in
  flight and the nine characters of a commit are the code's own.
  Proofs about the scheduler hold for every limit, including the word values at which \<open>u32\<close> ends.

  \<^bold>\<open>Not modelled.\<close> The JSON, TOML and SQLite libraries, the S3 client, rsync, ssh, systemd and cargo
  themselves; parsing the command line (\<open>clap\<close>); logging (\<open>PrefixedStderr\<close>, \<open>init_logging\<close>), whose
  lines nothing reads; the installation of signal handlers, whose signals are events here; printing
  an \<open>f32\<close>; the wall-clock time of operations other than the timeouts above; paths and text that
  are not UTF-8; the percent-encoding of object keys with special characters (\<open>ObjPath::from\<close>). The
  helper processes of the client (fingerprint, \<open>rsync\<close>, \<open>kache\<close>, \<open>ssh\<close> connecting) are taken to end, as
  is the connect to a local socket. Unit tests and their fakes (\<open>FakeTransport\<close>, \<open>testing.rs\<close>) are not part of the
  program.
\<close>

end
